(* ===== verification/GoStrings.thy ===== *)
theory GoStrings
  imports Prelude
begin

text \<open>
  What the program uses of Go's \<open>strings\<close>, \<open>unicode\<close>, \<open>unicode/utf8\<close>, \<open>strconv\<close> and
  \<open>encoding/hex\<close>.  A Go string is a sequence of bytes: here a \<^typ>\<open>string\<close>, one
  \<^typ>\<open>char\<close> per byte, so \<open>length\<close> is Go's \<open>len\<close>.  Functions that work on runes decode
  UTF-8 first, an invalid byte being the rune U+FFFD of width one.
\<close>

section \<open>Bytes\<close>

abbreviation ord :: "char \<Rightarrow> nat" where
  "ord c \<equiv> of_char c"

definition in_range :: "nat \<Rightarrow> nat \<Rightarrow> nat \<Rightarrow> bool" where
  "in_range lo hi n \<longleftrightarrow> lo \<le> n \<and> n \<le> hi"

definition is_ascii :: "string \<Rightarrow> bool" where
  "is_ascii s \<longleftrightarrow> list_all (\<lambda>c. ord c < 128) s"

lemma ord_less_256 [simp]: "ord c < 256"
  by (metis of_char_mod_256 mod_less_divisor zero_less_numeral)

lemma ord_div_16 [simp]: "ord c div 16 < 16"
  by (rule less_mult_imp_div_less) simp

lemma ord_char_of [simp]: "n < 256 \<Longrightarrow> ord (char_of n) = n"
  by simp

lemma ord_inject: "ord c = ord d \<longleftrightarrow> c = d"
  by simp

section \<open>UTF-8\<close>

definition rune_error :: nat where "rune_error = 65533"

text \<open>
  \<open>utf8.DecodeRuneInString\<close>: the first rune of a non-empty string and its width.  The second
  byte's range depends on the first (no overlong forms, no surrogates, nothing above U+10FFFF).
\<close>

definition utf8_second :: "nat \<Rightarrow> nat \<times> nat" where
  "utf8_second b0 =
     (if b0 = 224 then (160, 191) else if b0 = 237 then (128, 159)
      else if b0 = 240 then (144, 191) else if b0 = 244 then (128, 143)
      else (128, 191))"

definition second_ok :: "nat \<Rightarrow> nat \<Rightarrow> bool" where
  "second_ok b0 b1 \<longleftrightarrow> in_range (fst (utf8_second b0)) (snd (utf8_second b0)) b1"

definition cont_ok :: "nat \<Rightarrow> bool" where
  "cont_ok b \<longleftrightarrow> in_range 128 191 b"

definition decode2 :: "nat \<Rightarrow> string \<Rightarrow> nat \<times> nat" where
  "decode2 b0 cs =
     (case cs of
        c1 # _ \<Rightarrow> if second_ok b0 (ord c1) then ((b0 - 192) * 64 + (ord c1 - 128), 2)
                  else (rune_error, 1)
      | _ \<Rightarrow> (rune_error, 1))"

definition decode3 :: "nat \<Rightarrow> string \<Rightarrow> nat \<times> nat" where
  "decode3 b0 cs =
     (case cs of
        c1 # c2 # _ \<Rightarrow>
          if second_ok b0 (ord c1) \<and> cont_ok (ord c2)
          then ((b0 - 224) * 4096 + (ord c1 - 128) * 64 + (ord c2 - 128), 3)
          else (rune_error, 1)
      | _ \<Rightarrow> (rune_error, 1))"

definition decode4 :: "nat \<Rightarrow> string \<Rightarrow> nat \<times> nat" where
  "decode4 b0 cs =
     (case cs of
        c1 # c2 # c3 # _ \<Rightarrow>
          if second_ok b0 (ord c1) \<and> cont_ok (ord c2) \<and> cont_ok (ord c3)
          then ((b0 - 240) * 262144 + (ord c1 - 128) * 4096 + (ord c2 - 128) * 64
                + (ord c3 - 128), 4)
          else (rune_error, 1)
      | _ \<Rightarrow> (rune_error, 1))"

definition decode_rune :: "char \<Rightarrow> string \<Rightarrow> nat \<times> nat" where
  "decode_rune c cs =
     (let b0 = ord c in
      if b0 < 128 then (b0, 1)
      else if in_range 194 223 b0 then decode2 b0 cs
      else if in_range 224 239 b0 then decode3 b0 cs
      else if in_range 240 244 b0 then decode4 b0 cs
      else (rune_error, 1))"

text \<open>A string as the runes \<open>range\<close> visits, each with the bytes it was read from.\<close>

function segments :: "string \<Rightarrow> (nat \<times> string) list" where
  "segments [] = []"
| "segments (c # cs) =
     (fst (decode_rune c cs), c # take (snd (decode_rune c cs) - 1) cs)
       # segments (drop (snd (decode_rune c cs) - 1) cs)"
  by pat_completeness auto
termination
  by (relation "measure length") auto

definition bytes_of :: "(nat \<times> string) list \<Rightarrow> string" where
  "bytes_of xs = concat (map snd xs)"

lemma bytes_of_simps [simp]:
  "bytes_of [] = []"
  "bytes_of (x # xs) = snd x @ bytes_of xs"
  "bytes_of (xs @ ys) = bytes_of xs @ bytes_of ys"
  by (simp_all add: bytes_of_def)

lemma bytes_of_segments [simp, str_simps]: "bytes_of (segments s) = s"
  by (induction s rule: segments.induct) simp_all

text \<open>\<open>utf8.EncodeRune\<close>: runes outside the code space are written as U+FFFD.\<close>

definition encode_rune :: "nat \<Rightarrow> string" where
  "encode_rune r =
     (if r < 128 then [char_of r]
      else if r < 2048 then [char_of (192 + r div 64), char_of (128 + r mod 64)]
      else if in_range 55296 57343 r \<or> 1114111 < r then map char_of [239, 191, 189 :: nat]
      else if r < 65536 then
        [char_of (224 + r div 4096), char_of (128 + r div 64 mod 64), char_of (128 + r mod 64)]
      else
        [char_of (240 + r div 262144), char_of (128 + r div 4096 mod 64),
         char_of (128 + r div 64 mod 64), char_of (128 + r mod 64)])"

text \<open>\<open>utf8.ValidString\<close>: every byte belongs to a well-formed sequence.\<close>

definition valid_utf8 :: "string \<Rightarrow> bool" where
  "valid_utf8 s \<longleftrightarrow> list_all (\<lambda>(r, bs). \<not> (r = rune_error \<and> length bs = 1)) (segments s)"

lemma segments_ascii [str_simps]:
  "is_ascii s \<Longrightarrow> segments s = map (\<lambda>c. (ord c, [c])) s"
  by (induction s) (simp_all add: is_ascii_def decode_rune_def)

section \<open>unicode.IsSpace and unicode.ToLower\<close>

definition is_space :: "nat \<Rightarrow> bool" where
  "is_space r \<longleftrightarrow>
     r \<in> {9, 10, 11, 12, 13, 32, 133, 160, 5760, 8232, 8233, 8239, 8287, 12288}
     \<or> in_range 8192 8202 r"

text \<open>
  The simple lower-case mapping of Unicode 15 (the tables of Go 1.21) above ASCII: ranges
  \<open>(lo, hi, stride, delta)\<close>, a rune of the range that is a multiple of the stride away from
  \<open>lo\<close> moving by \<open>delta\<close>.
\<close>

definition lower_ranges :: "(nat \<times> nat \<times> nat \<times> int) list" where
  "lower_ranges =
    [(192, 214, 1, 32), (216, 222, 1, 32), (256, 302, 2, 1), (304, 304, 1, - 199),
    (306, 310, 2, 1), (313, 327, 2, 1), (330, 374, 2, 1), (376, 376, 1, - 121),
    (377, 381, 2, 1), (385, 385, 1, 210), (386, 388, 2, 1), (390, 390, 1, 206),
    (391, 391, 1, 1), (393, 394, 1, 205), (395, 395, 1, 1), (398, 398, 1, 79),
    (399, 399, 1, 202), (400, 400, 1, 203), (401, 401, 1, 1), (403, 403, 1, 205),
    (404, 404, 1, 207), (406, 406, 1, 211), (407, 407, 1, 209), (408, 408, 1, 1),
    (412, 412, 1, 211), (413, 413, 1, 213), (415, 415, 1, 214), (416, 420, 2, 1),
    (422, 422, 1, 218), (423, 423, 1, 1), (425, 425, 1, 218), (428, 428, 1, 1),
    (430, 430, 1, 218), (431, 431, 1, 1), (433, 434, 1, 217), (435, 437, 2, 1),
    (439, 439, 1, 219), (440, 440, 1, 1), (444, 444, 1, 1), (452, 452, 1, 2), (453, 453, 1, 1),
    (455, 455, 1, 2), (456, 456, 1, 1), (458, 458, 1, 2), (459, 475, 2, 1), (478, 494, 2, 1),
    (497, 497, 1, 2), (498, 500, 2, 1), (502, 502, 1, - 97), (503, 503, 1, - 56),
    (504, 542, 2, 1), (544, 544, 1, - 130), (546, 562, 2, 1), (570, 570, 1, 10795),
    (571, 571, 1, 1), (573, 573, 1, - 163), (574, 574, 1, 10792), (577, 577, 1, 1),
    (579, 579, 1, - 195), (580, 580, 1, 69), (581, 581, 1, 71), (582, 590, 2, 1),
    (880, 882, 2, 1), (886, 886, 1, 1), (895, 895, 1, 116), (902, 902, 1, 38),
    (904, 906, 1, 37), (908, 908, 1, 64), (910, 911, 1, 63), (913, 929, 1, 32),
    (931, 939, 1, 32), (975, 975, 1, 8), (984, 1006, 2, 1), (1012, 1012, 1, - 60),
    (1015, 1015, 1, 1), (1017, 1017, 1, - 7), (1018, 1018, 1, 1), (1021, 1023, 1, - 130),
    (1024, 1039, 1, 80), (1040, 1071, 1, 32), (1120, 1152, 2, 1), (1162, 1214, 2, 1),
    (1216, 1216, 1, 15), (1217, 1229, 2, 1), (1232, 1326, 2, 1), (1329, 1366, 1, 48),
    (4256, 4293, 1, 7264), (4295, 4295, 1, 7264), (4301, 4301, 1, 7264), (5024, 5103, 1, 38864),
    (5104, 5109, 1, 8), (7312, 7354, 1, - 3008), (7357, 7359, 1, - 3008), (7680, 7828, 2, 1),
    (7838, 7838, 1, - 7615), (7840, 7934, 2, 1), (7944, 7951, 1, - 8), (7960, 7965, 1, - 8),
    (7976, 7983, 1, - 8), (7992, 7999, 1, - 8), (8008, 8013, 1, - 8), (8025, 8031, 2, - 8),
    (8040, 8047, 1, - 8), (8072, 8079, 1, - 8), (8088, 8095, 1, - 8), (8104, 8111, 1, - 8),
    (8120, 8121, 1, - 8), (8122, 8123, 1, - 74), (8124, 8124, 1, - 9), (8136, 8139, 1, - 86),
    (8140, 8140, 1, - 9), (8152, 8153, 1, - 8), (8154, 8155, 1, - 100), (8168, 8169, 1, - 8),
    (8170, 8171, 1, - 112), (8172, 8172, 1, - 7), (8184, 8185, 1, - 128),
    (8186, 8187, 1, - 126), (8188, 8188, 1, - 9), (8486, 8486, 1, - 7517),
    (8490, 8490, 1, - 8383), (8491, 8491, 1, - 8262), (8498, 8498, 1, 28), (8544, 8559, 1, 16),
    (8579, 8579, 1, 1), (9398, 9423, 1, 26), (11264, 11311, 1, 48), (11360, 11360, 1, 1),
    (11362, 11362, 1, - 10743), (11363, 11363, 1, - 3814), (11364, 11364, 1, - 10727),
    (11367, 11371, 2, 1), (11373, 11373, 1, - 10780), (11374, 11374, 1, - 10749),
    (11375, 11375, 1, - 10783), (11376, 11376, 1, - 10782), (11378, 11378, 1, 1),
    (11381, 11381, 1, 1), (11390, 11391, 1, - 10815), (11392, 11490, 2, 1),
    (11499, 11501, 2, 1), (11506, 11506, 1, 1), (42560, 42604, 2, 1), (42624, 42650, 2, 1),
    (42786, 42798, 2, 1), (42802, 42862, 2, 1), (42873, 42875, 2, 1),
    (42877, 42877, 1, - 35332), (42878, 42886, 2, 1), (42891, 42891, 1, 1),
    (42893, 42893, 1, - 42280), (42896, 42898, 2, 1), (42902, 42920, 2, 1),
    (42922, 42922, 1, - 42308), (42923, 42923, 1, - 42319), (42924, 42924, 1, - 42315),
    (42925, 42925, 1, - 42305), (42926, 42926, 1, - 42308), (42928, 42928, 1, - 42258),
    (42929, 42929, 1, - 42282), (42930, 42930, 1, - 42261), (42931, 42931, 1, 928),
    (42932, 42946, 2, 1), (42948, 42948, 1, - 48), (42949, 42949, 1, - 42307),
    (42950, 42950, 1, - 35384), (42951, 42953, 2, 1), (42960, 42960, 1, 1),
    (42966, 42968, 2, 1), (42997, 42997, 1, 1), (65313, 65338, 1, 32), (66560, 66599, 1, 40),
    (66736, 66771, 1, 40), (66928, 66938, 1, 39), (66940, 66954, 1, 39), (66956, 66962, 1, 39),
    (66964, 66965, 1, 39), (68736, 68786, 1, 64), (71840, 71871, 1, 32), (93760, 93791, 1, 32),
    (125184, 125217, 1, 34)]"

fun lower_lookup :: "(nat \<times> nat \<times> nat \<times> int) list \<Rightarrow> nat \<Rightarrow> nat" where
  "lower_lookup [] r = r"
| "lower_lookup ((lo, hi, stride, delta) # rest) r =
     (if lo \<le> r \<and> r \<le> hi \<and> (r - lo) mod stride = 0 then nat (int r + delta)
      else lower_lookup rest r)"

definition lower_rune :: "nat \<Rightarrow> nat" where
  "lower_rune r =
     (if r < 128 then (if in_range 65 90 r then r + 32 else r)
      else lower_lookup lower_ranges r)"

lemma lower_rune_ascii: "r < 128 \<Longrightarrow> lower_rune r < 128"
  by (auto simp: lower_rune_def in_range_def)

section \<open>Mapping, trimming, folding\<close>

text \<open>\<open>strings.Map\<close>: a mapping to \<^const>\<open>None\<close> (a negative rune in Go) drops the rune.\<close>

definition strings_map :: "(nat \<Rightarrow> nat option) \<Rightarrow> string \<Rightarrow> string" where
  "strings_map f s =
     concat (map (\<lambda>(r, _). case f r of None \<Rightarrow> [] | Some r' \<Rightarrow> encode_rune r') (segments s))"

definition to_lower :: "string \<Rightarrow> string" where
  "to_lower s = strings_map (\<lambda>r. Some (lower_rune r)) s"

definition trim_func :: "(nat \<Rightarrow> bool) \<Rightarrow> string \<Rightarrow> string" where
  "trim_func f s =
     (let xs = dropWhile (\<lambda>(r, _). f r) (segments s)
      in bytes_of (rev (dropWhile (\<lambda>(r, _). f r) (rev xs))))"

definition trim_space :: "string \<Rightarrow> string" where
  "trim_space s = trim_func is_space s"

lemma trim_space_ascii_eq:
  assumes "is_ascii s"
  shows "trim_space s
           = rev (dropWhile (\<lambda>c. is_space (ord c)) (rev (dropWhile (\<lambda>c. is_space (ord c)) s)))"
proof -
  have drop: "dropWhile (\<lambda>(r, _). is_space r) (map (\<lambda>c. (ord c, [c])) t)
      = map (\<lambda>c. (ord c, [c])) (dropWhile (\<lambda>c. is_space (ord c)) t)" for t
    by (simp add: dropWhile_map comp_def)
  have bytes: "bytes_of (map (\<lambda>c. (ord c, [c])) t) = t" for t
    by (induction t) simp_all
  show ?thesis
    using assms by (simp add: trim_space_def trim_func_def segments_ascii drop bytes rev_map)
qed

text \<open>\<open>strings.TrimLeft(s, "/")\<close> and \<open>strings.TrimRight(s, "/")\<close> with a one-byte ASCII cutset.\<close>

definition trim_left :: "char \<Rightarrow> string \<Rightarrow> string" where
  "trim_left c s = dropWhile (\<lambda>x. x = c) s"

definition trim_right :: "char \<Rightarrow> string \<Rightarrow> string" where
  "trim_right c s = rev (dropWhile (\<lambda>x. x = c) (rev s))"

text \<open>
  \<open>strings.EqualFold\<close> against an ASCII string: simple folding sends A-Z to a-z and, outside
  ASCII, only U+212A to k and U+017F to s.
\<close>

definition fold_rune :: "nat \<Rightarrow> nat" where
  "fold_rune r =
     (if in_range 65 90 r then r + 32 else if r = 8490 then 107 else if r = 383 then 115 else r)"

definition equal_fold :: "string \<Rightarrow> string \<Rightarrow> bool" where
  "equal_fold s t \<longleftrightarrow> map (fold_rune \<circ> fst) (segments s) = map (fold_rune \<circ> fst) (segments t)"

definition lower_char :: "char \<Rightarrow> char" where
  "lower_char c = (if in_range 65 90 (ord c) then char_of (ord c + 32) else c)"

lemma to_lower_ascii [str_simps]: "is_ascii s \<Longrightarrow> to_lower s = map lower_char s"
proof -
  assume a: "is_ascii s"
  have "encode_rune (lower_rune (ord c)) = [lower_char c]" if "ord c < 128" for c
    using that
    by (auto simp: encode_rune_def lower_rune_def lower_char_def in_range_def)
  then have "concat (map ((\<lambda>r. encode_rune (lower_rune r)) \<circ> ord) t) = map lower_char t"
    if "is_ascii t" for t
    using that by (induction t) (auto simp: is_ascii_def)
  with a show ?thesis
    by (simp add: to_lower_def strings_map_def segments_ascii comp_def)
qed

section \<open>Searching and splitting\<close>

definition has_prefix :: "string \<Rightarrow> string \<Rightarrow> bool" where
  "has_prefix s p \<longleftrightarrow> take (length p) s = p"

definition has_suffix :: "string \<Rightarrow> string \<Rightarrow> bool" where
  "has_suffix s p \<longleftrightarrow> length p \<le> length s \<and> drop (length s - length p) s = p"

definition trim_suffix :: "string \<Rightarrow> string \<Rightarrow> string" where
  "trim_suffix s p = (if has_suffix s p then take (length s - length p) s else s)"

text \<open>\<open>strings.Split\<close> on a one-byte separator, and \<open>strings.Join\<close>.\<close>

fun split_on :: "char \<Rightarrow> string \<Rightarrow> string list" where
  "split_on c [] = [] # []"
| "split_on c (x # xs) =
     (if x = c then [] # split_on c xs
      else case split_on c xs of [] \<Rightarrow> [x] # [] | y # ys \<Rightarrow> (x # y) # ys)"

fun join_with :: "string \<Rightarrow> string list \<Rightarrow> string" where
  "join_with sep [] = []"
| "join_with sep [x] = x"
| "join_with sep (x # y # zs) = x @ sep @ join_with sep (y # zs)"

text \<open>\<open>strings.Cut\<close> on one byte: before, after, found.\<close>

definition cut_on :: "char \<Rightarrow> string \<Rightarrow> string \<times> string \<times> bool" where
  "cut_on c s =
     (if c \<in> set s then (takeWhile (\<lambda>x. x \<noteq> c) s, tl (dropWhile (\<lambda>x. x \<noteq> c) s), True)
      else (s, [], False))"

text \<open>\<open>strings.LastIndex\<close> on one byte, as the text before and after the last occurrence.\<close>

definition cut_last :: "char \<Rightarrow> string \<Rightarrow> (string \<times> string) option" where
  "cut_last c s =
     (if c \<in> set s
      then Some (rev (tl (dropWhile (\<lambda>x. x \<noteq> c) (rev s))), rev (takeWhile (\<lambda>x. x \<noteq> c) (rev s)))
      else None)"

lemma split_on_ne [simp]: "split_on c s \<noteq> []"
  by (induction s) (auto split: list.splits)

lemma join_split [simp]: "join_with [c] (split_on c s) = s"
proof (induction s)
  case (Cons x xs)
  then show ?case
    by (cases "split_on c xs"; cases "tl (split_on c xs)") auto
qed simp

lemma split_on_free: "p \<in> set (split_on c s) \<Longrightarrow> c \<notin> set p"
  by (induction s arbitrary: p) (auto split: list.splits if_splits)

lemma split_on_no_sep: "c \<notin> set s \<Longrightarrow> split_on c s = [s]"
  by (induction s) auto

lemma split_on_append: "c \<notin> set a \<Longrightarrow> split_on c (a @ c # b) = a # split_on c b"
  by (induction a) auto

section \<open>Numbers in text\<close>

definition digit_char :: "nat \<Rightarrow> char" where
  "digit_char d = (if d < 10 then char_of (48 + d) else char_of (87 + d))"

fun dec_digits :: "nat \<Rightarrow> string" where
  "dec_digits n = (if n < 10 then [digit_char n] else dec_digits (n div 10) @ [digit_char (n mod 10)])"

declare dec_digits.simps [simp del]

text \<open>\<open>strconv.FormatInt(v, 10)\<close>.\<close>

definition format_int :: "int \<Rightarrow> string" where
  "format_int v = (if v < 0 then CHR ''-'' # dec_digits (nat (- v)) else dec_digits (nat v))"

text \<open>The value of a digit in \<open>strconv.ParseUint\<close>: letters of either case count from 10.\<close>

definition digit_val :: "char \<Rightarrow> nat option" where
  "digit_val c =
     (let n = ord c in
      if in_range 48 57 n then Some (n - 48)
      else if in_range 97 122 n then Some (n - 87)
      else if in_range 65 90 n then Some (n - 55)
      else None)"

fun parse_digits :: "nat \<Rightarrow> nat \<Rightarrow> string \<Rightarrow> nat option" where
  "parse_digits base acc [] = Some acc"
| "parse_digits base acc (c # cs) =
     (case digit_val c of
        None \<Rightarrow> None
      | Some d \<Rightarrow> if d < base then parse_digits base (acc * base + d) cs else None)"

text \<open>\<open>strconv.ParseUint(s, base, bits)\<close> for an explicit base: \<^const>\<open>None\<close> is an error.\<close>

definition parse_uint :: "nat \<Rightarrow> nat \<Rightarrow> string \<Rightarrow> nat option" where
  "parse_uint base bits s =
     (if s = [] then None
      else case parse_digits base 0 s of
             None \<Rightarrow> None
           | Some n \<Rightarrow> if n < 2 ^ bits then Some n else None)"

text \<open>\<open>strconv.Atoi\<close> on a 64-bit platform.\<close>

definition atoi :: "string \<Rightarrow> int option" where
  "atoi s =
     (let neg = (take 1 s = ''-''); body = (if take 1 s \<in> {''-'', ''+''} then drop 1 s else s)
      in if body = [] then None
         else case parse_digits 10 0 body of
                None \<Rightarrow> None
              | Some n \<Rightarrow> let v = (if neg then - int n else int n)
                          in if in64 v then Some v else None)"

text \<open>\<open>hex.EncodeToString\<close>.\<close>

definition hex_byte :: "char \<Rightarrow> string" where
  "hex_byte c = [digit_char (ord c div 16), digit_char (ord c mod 16)]"

definition hex_encode :: "string \<Rightarrow> string" where
  "hex_encode b = concat (map hex_byte b)"

end
