(* ===== verification/GoFloat.thy ===== *)
theory GoFloat
  imports Prelude
begin

text \<open>
  Go's \<open>float64\<close> as far as the program computes with it: finite values are rationals, the two
  infinities and NaN are kept apart, and the one division of the code rounds to the nearest
  53-bit significand, ties to even.  (The sign of zero is not kept: no code reads it.)
\<close>

section \<open>Values and comparison\<close>

datatype f64 = Fin rat | PosInf | NegInf | NaN

instantiation f64 :: ord
begin

fun less_f64 :: "f64 \<Rightarrow> f64 \<Rightarrow> bool" where
  "less_f64 (Fin a) (Fin b) = (a < b)"
| "less_f64 (Fin _) PosInf = True"
| "less_f64 NegInf (Fin _) = True"
| "less_f64 NegInf PosInf = True"
| "less_f64 _ _ = False"

fun less_eq_f64 :: "f64 \<Rightarrow> f64 \<Rightarrow> bool" where
  "less_eq_f64 (Fin a) (Fin b) = (a \<le> b)"
| "less_eq_f64 (Fin _) PosInf = True"
| "less_eq_f64 NegInf (Fin _) = True"
| "less_eq_f64 NegInf PosInf = True"
| "less_eq_f64 PosInf PosInf = True"
| "less_eq_f64 NegInf NegInf = True"
| "less_eq_f64 _ _ = False"

instance ..

end

section \<open>Rounding a quotient\<close>

text \<open>
  \<open>scale_exp num den k\<close>: the least power of two from \<open>k\<close> on that brings the quotient up to a
  53-bit integer part.  \<open>round_quot\<close> rounds there, for a quotient in the unit interval.
\<close>

function scale_exp :: "nat \<Rightarrow> nat \<Rightarrow> nat \<Rightarrow> nat" where
  "scale_exp num den k =
     (if num = 0 \<or> 2 ^ 52 * den \<le> num * 2 ^ k then k else scale_exp num den (Suc k))"
  by pat_completeness auto
termination
proof (relation "measure (\<lambda>(num, den, k). 2 ^ 52 * den - num * 2 ^ k)")
  fix num den k :: nat
  assume "\<not> (num = 0 \<or> 2 ^ 52 * den \<le> num * 2 ^ k)"
  then have "num * 2 ^ k < 2 ^ 52 * den" and "num * 2 ^ k < num * 2 ^ Suc k"
    by auto
  then show "((num, den, Suc k), num, den, k) \<in> measure (\<lambda>(num, den, k). 2 ^ 52 * den - num * 2 ^ k)"
    unfolding in_measure split_conv by (rule diff_less_mono2 [rotated])
qed simp

declare scale_exp.simps [simp del]

definition round_half_even :: "nat \<Rightarrow> nat \<Rightarrow> nat" where
  "round_half_even n d =
     (let q = n div d; r = n mod d in
      if 2 * r < d then q else if d < 2 * r then Suc q else if even q then q else Suc q)"

definition round_quot :: "nat \<Rightarrow> nat \<Rightarrow> rat" where
  "round_quot num den =
     (let k = scale_exp num den 52
      in of_nat (round_half_even (num * 2 ^ k) den) / 2 ^ k)"

lemma scale_exp_ge: "k \<le> scale_exp num den k"
proof (induction num den k rule: scale_exp.induct)
  case (1 num den k)
  then show ?case
    by (cases "num = 0 \<or> 2 ^ 52 * den \<le> num * 2 ^ k") (auto simp: scale_exp.simps [of num den k])
qed

lemma round_half_even_bounds:
  assumes "0 < d"
  shows "2 * (round_half_even n d * d) \<le> 2 * n + d" and "2 * n \<le> 2 * (round_half_even n d * d) + d"
proof -
  define q r where "q = n div d" and "r = n mod d"
  have n: "n = q * d + r" by (simp add: q_def r_def)
  have "round_half_even n d = q \<and> 2 * r \<le> d \<or> round_half_even n d = Suc q \<and> d \<le> 2 * r"
    by (auto simp: round_half_even_def Let_def q_def r_def)
  moreover have "r < d" "Suc q * d = q * d + d" using assms by (simp_all add: r_def)
  ultimately show "2 * (round_half_even n d * d) \<le> 2 * n + d"
    and "2 * n \<le> 2 * (round_half_even n d * d) + d"
    unfolding n by (elim disjE conjE; simp)+
qed

text \<open>The rounded quotient is within half a unit of the 53rd bit of the exact one.\<close>

lemma round_quot_error:
  assumes "0 < den"
  shows "\<bar>round_quot num den - of_nat num / of_nat den\<bar> \<le> 1 / 2 ^ 53"
proof -
  define k where "k = scale_exp num den 52"
  define m where "m = round_half_even (num * 2 ^ k) den"
  have k: "52 \<le> k" using scale_exp_ge [of 52] by (simp add: k_def)
  let ?d = "of_nat den :: rat" and ?n = "of_nat num :: rat" and ?m = "of_nat m :: rat"
  have d: "0 < ?d" using assms by simp
  have "of_nat (2 * (m * den)) \<le> (of_nat (2 * (num * 2 ^ k) + den) :: rat)"
    and "of_nat (2 * (num * 2 ^ k)) \<le> (of_nat (2 * (m * den) + den) :: rat)"
    using round_half_even_bounds [OF assms, of "num * 2 ^ k"]
    unfolding m_def of_nat_le_iff by (simp_all add: mult.assoc)
  then have "2 * (?m * ?d) \<le> 2 * (?n * 2 ^ k) + ?d" and "2 * (?n * 2 ^ k) \<le> 2 * (?m * ?d) + ?d"
    by simp_all
  then have "\<bar>?m * ?d - ?n * 2 ^ k\<bar> \<le> ?d / 2"
    unfolding abs_le_iff by linarith
  moreover have "?m / 2 ^ k - ?n / ?d = (?m * ?d - ?n * 2 ^ k) / (?d * 2 ^ k)"
    using d by (simp add: field_simps)
  ultimately have "\<bar>?m / 2 ^ k - ?n / ?d\<bar> \<le> (?d / 2) / (?d * 2 ^ k)"
    using d divide_right_mono [of "\<bar>?m * ?d - ?n * 2 ^ k\<bar>" "?d / 2" "?d * 2 ^ k"]
    by (simp add: abs_mult)
  also have "\<dots> = 1 / 2 ^ Suc k"
    using d by simp
  also have "\<dots> \<le> 1 / 2 ^ 53"
    using k by (intro divide_left_mono power_increasing) auto
  finally show ?thesis
    by (simp add: round_quot_def Let_def k_def m_def)
qed

end
