(* ===== verification/Otlp.thy ===== *)
theory Otlp
  imports GoStrings GoFloat
begin

text \<open>
  \<open>otlp.go\<close>: the OTLP/JSON structures of a trace export and the constants of the contract.  A Go
  pointer field that may be nil is an \<open>option\<close>; the struct tags (which decide the JSON) are
  modelled in the theory of the encoder.
\<close>

section \<open>Attribute values\<close>

record any_value =
  av_string :: "string option"
  av_bool :: "bool option"
  av_int :: "string option"
  av_double :: "f64 option"

definition empty_value :: any_value where
  "empty_value = \<lparr>av_string = None, av_bool = None, av_int = None, av_double = None\<rparr>"

definition string_value :: "string \<Rightarrow> any_value" where
  "string_value v = empty_value\<lparr>av_string := Some v\<rparr>"

definition int_value :: "int64 \<Rightarrow> any_value" where
  "int_value v = empty_value\<lparr>av_int := Some (format_int v)\<rparr>"

definition bool_value :: "bool \<Rightarrow> any_value" where
  "bool_value v = empty_value\<lparr>av_bool := Some v\<rparr>"

definition double_value :: "f64 \<Rightarrow> any_value" where
  "double_value v = empty_value\<lparr>av_double := Some v\<rparr>"

record key_value =
  kv_key :: string
  kv_value :: any_value

section \<open>Spans on the wire\<close>

record status =
  st_code :: int
  st_message :: string

record span_link =
  ln_trace_id :: string
  ln_span_id :: string
  ln_attributes :: "key_value list"

record span_data =
  sd_trace_id :: string
  sd_span_id :: string
  sd_parent_span_id :: string
  sd_name :: string
  sd_kind :: int
  sd_start :: string
  sd_end :: string
  sd_attributes :: "key_value list"
  sd_links :: "span_link list"
  sd_status :: "status option"

record scope =
  sc_name :: string
  sc_version :: string

record scope_spans =
  ss_scope :: scope
  ss_spans :: "span_data list"

record resource =
  rc_attributes :: "key_value list"

record resource_spans =
  rsp_resource :: resource
  rsp_scope_spans :: "scope_spans list"

record trace_request =
  tr_resource_spans :: "resource_spans list"

definition sdk_name :: string where "sdk_name = ''restlytics-go''"
definition sdk_language :: string where "sdk_language = ''go''"
definition sdk_version :: string where "sdk_version = ''0.1.0''"

section \<open>Constants\<close>

named_theorems const_defs "the constants of the wire contract"

definition attr_service_name :: string where [const_defs]: "attr_service_name = ''service.name''"
definition attr_deployment_environment :: string where
  [const_defs]: "attr_deployment_environment = ''deployment.environment''"
definition attr_http_request_method :: string where
  [const_defs]: "attr_http_request_method = ''http.request.method''"
definition attr_http_route :: string where [const_defs]: "attr_http_route = ''http.route''"
definition attr_http_response_status_code :: string where
  [const_defs]: "attr_http_response_status_code = ''http.response.status_code''"
definition attr_url_full :: string where [const_defs]: "attr_url_full = ''url.full''"
definition attr_db_system :: string where [const_defs]: "attr_db_system = ''db.system.name''"
definition attr_db_namespace :: string where [const_defs]: "attr_db_namespace = ''db.namespace''"
definition attr_db_query_text :: string where [const_defs]: "attr_db_query_text = ''db.query.text''"
definition attr_db_query_summary :: string where
  [const_defs]: "attr_db_query_summary = ''db.query.summary''"
definition attr_db_operation_name :: string where
  [const_defs]: "attr_db_operation_name = ''db.operation.name''"
definition attr_bindings_count :: string where
  [const_defs]: "attr_bindings_count = ''restlytics.bindings_count''"
definition attr_db_query_count :: string where
  [const_defs]: "attr_db_query_count = ''restlytics.db_query_count''"
definition attr_category :: string where [const_defs]: "attr_category = ''restlytics.category''"
definition attr_self_ns_db :: string where [const_defs]: "attr_self_ns_db = ''restlytics.self_ns.db''"
definition attr_self_ns_http :: string where
  [const_defs]: "attr_self_ns_http = ''restlytics.self_ns.http''"
definition attr_self_ns_cache :: string where
  [const_defs]: "attr_self_ns_cache = ''restlytics.self_ns.cache''"
definition attr_self_ns_queue :: string where
  [const_defs]: "attr_self_ns_queue = ''restlytics.self_ns.queue''"
definition attr_self_ns_app :: string where
  [const_defs]: "attr_self_ns_app = ''restlytics.self_ns.app''"

definition kind_internal :: int where [const_defs]: "kind_internal = 1"
definition kind_server :: int where [const_defs]: "kind_server = 2"
definition kind_client :: int where [const_defs]: "kind_client = 3"
definition kind_producer :: int where [const_defs]: "kind_producer = 4"
definition kind_consumer :: int where [const_defs]: "kind_consumer = 5"

definition status_unset :: int where [const_defs]: "status_unset = 0"
definition status_ok :: int where [const_defs]: "status_ok = 1"
definition status_error :: int where [const_defs]: "status_error = 2"

definition category_app :: string where [const_defs]: "category_app = ''app''"
definition category_db :: string where [const_defs]: "category_db = ''db''"
definition category_http :: string where [const_defs]: "category_http = ''http''"
definition category_cache :: string where [const_defs]: "category_cache = ''cache''"
definition category_queue :: string where [const_defs]: "category_queue = ''queue''"
definition category_job :: string where [const_defs]: "category_job = ''job''"
definition category_command :: string where [const_defs]: "category_command = ''command''"
definition category_schedule :: string where [const_defs]: "category_schedule = ''schedule''"

section \<open>Payloads\<close>

definition resource_attributes :: "string \<Rightarrow> string \<Rightarrow> key_value list" where
  "resource_attributes service_name environment =
     [\<lparr>kv_key = attr_service_name, kv_value = string_value service_name\<rparr>,
      \<lparr>kv_key = attr_deployment_environment, kv_value = string_value environment\<rparr>,
      \<lparr>kv_key = ''telemetry.sdk.name'', kv_value = string_value sdk_name\<rparr>,
      \<lparr>kv_key = ''telemetry.sdk.language'', kv_value = string_value sdk_language\<rparr>,
      \<lparr>kv_key = ''telemetry.sdk.version'', kv_value = string_value sdk_version\<rparr>]"

definition build_payload :: "string \<Rightarrow> string \<Rightarrow> span_data list \<Rightarrow> trace_request" where
  "build_payload service_name environment spans =
     \<lparr>tr_resource_spans =
        [\<lparr>rsp_resource = \<lparr>rc_attributes = resource_attributes service_name environment\<rparr>,
          rsp_scope_spans =
            [\<lparr>ss_scope = \<lparr>sc_name = sdk_name, sc_version = sdk_version\<rparr>, ss_spans = spans\<rparr>]\<rparr>]\<rparr>"

text \<open>The spans of a request, as a receiver reads them off.\<close>

definition request_spans :: "trace_request \<Rightarrow> span_data list" where
  "request_spans p = concat (map (\<lambda>r. concat (map ss_spans (rsp_scope_spans r))) (tr_resource_spans p))"

lemma request_spans_build [simp]: "request_spans (build_payload s e spans) = spans"
  by (simp add: request_spans_def build_payload_def)

section \<open>Exactly one field of a value is set\<close>

definition one_field :: "any_value \<Rightarrow> bool" where
  "one_field v \<longleftrightarrow>
     length (filter id [av_string v \<noteq> None, av_bool v \<noteq> None, av_int v \<noteq> None, av_double v \<noteq> None]) = 1"

lemma one_field_builders [simp]:
  "one_field (string_value s)"
  "one_field (int_value i)"
  "one_field (bool_value b)"
  "one_field (double_value d)"
  by (simp_all add: one_field_def string_value_def int_value_def bool_value_def double_value_def
      empty_value_def)

section \<open>Decimal strings keep 64-bit precision\<close>

lemma digit_val_dec [simp]: "d < 10 \<Longrightarrow> digit_val (digit_char d) = Some d"
  by (simp add: digit_val_def digit_char_def in_range_def)

lemma parse_digits_append:
  "parse_digits b acc (xs @ ys) =
     (case parse_digits b acc xs of None \<Rightarrow> None | Some a \<Rightarrow> parse_digits b a ys)"
  by (induction b acc xs rule: parse_digits.induct) (auto split: option.splits)

lemma parse_dec_digits [simp]: "parse_digits 10 0 (dec_digits n) = Some n"
proof (induction n rule: dec_digits.induct)
  case (1 n)
  then show ?case
    by (cases "n < 10") (simp_all add: dec_digits.simps [of n] parse_digits_append)
qed

lemma dec_digits_hd: "\<exists>d rest. dec_digits n = digit_char d # rest \<and> d < 10"
proof (induction n rule: dec_digits.induct)
  case (1 n)
  then show ?case
    by (cases "n < 10") (auto simp: dec_digits.simps [of n])
qed

lemma digit_char_not_sign: "d < 10 \<Longrightarrow> digit_char d \<noteq> CHR ''-'' \<and> digit_char d \<noteq> CHR ''+''"
proof -
  assume "d < 10"
  then have "ord (digit_char d) = 48 + d" by (simp add: digit_char_def)
  then show ?thesis by auto
qed

lemma atoi_format_int: "in64 v \<Longrightarrow> atoi (format_int v) = Some v"
proof -
  assume v: "in64 v"
  obtain d rest where d: "dec_digits (nat v) = digit_char d # rest" "d < 10"
    using dec_digits_hd by blast
  have "parse_digits 10 0 (digit_char d # rest) = Some (nat v)"
    using parse_dec_digits [of "nat v"] d(1) by simp
  then show ?thesis
    using v d digit_char_not_sign [OF d(2)] dec_digits_hd [of "nat (- v)"]
    by (auto simp: atoi_def format_int_def Let_def)
qed

interpretation int_text: codec format_int atoi in64
  by unfold_locales (rule atoi_format_int)

end
