(* ===== verification/GoUrl.thy ===== *)
theory GoUrl
  imports GoStrings "HOL-Library.Char_ord" "HOL-Library.List_Lexorder"
begin

text \<open>
  What \<open>redactURL\<close> uses of Go's \<open>net/url\<close> (Go 1.21): \<open>Parse\<close>, \<open>URL.Query\<close>, \<open>Values.Set\<close>,
  \<open>Values.Encode\<close> and \<open>URL.String\<close>, with the escaping rules they share.  An error return is
  \<^const>\<open>None\<close>: the program never reads the error's text.
\<close>

section \<open>Escaping\<close>

datatype encoding =
  EncodePath | EncodeUserPassword | EncodeHost | EncodeZone | EncodeQueryComponent | EncodeFragment

definition is_alnum :: "char \<Rightarrow> bool" where
  "is_alnum c \<longleftrightarrow> in_range 97 122 (ord c) \<or> in_range 65 90 (ord c) \<or> in_range 48 57 (ord c)"

definition is_digit :: "char \<Rightarrow> bool" where
  "is_digit c \<longleftrightarrow> in_range 48 57 (ord c)"

definition is_hex_digit :: "char \<Rightarrow> bool" where
  "is_hex_digit c \<longleftrightarrow> in_range 48 57 (ord c) \<or> in_range 97 102 (ord c) \<or> in_range 65 70 (ord c)"

definition unhex :: "char \<Rightarrow> nat" where
  "unhex c =
     (if in_range 48 57 (ord c) then ord c - 48
      else if in_range 97 102 (ord c) then ord c - 87
      else if in_range 65 70 (ord c) then ord c - 55
      else 0)"

definition host_chars :: string where
  "host_chars = ''!$&'' @ [CHR 0x27] @ ''()*+,;=:[]<>'' @ [CHR 0x22]"

definition should_escape :: "encoding \<Rightarrow> char \<Rightarrow> bool" where
  "should_escape mode c =
     (if is_alnum c then False
      else if (mode = EncodeHost \<or> mode = EncodeZone) \<and> c \<in> set host_chars then False
      else if c \<in> set ''-_.~'' then False
      else if c \<in> set ''$&+,/:;=?@'' \<and> mode \<notin> {EncodeHost, EncodeZone} then
        (case mode of
           EncodePath \<Rightarrow> c = CHR ''?''
         | EncodeUserPassword \<Rightarrow> c \<in> set ''@/?:''
         | EncodeQueryComponent \<Rightarrow> True
         | _ \<Rightarrow> False)
      else if mode = EncodeFragment \<and> c \<in> set ''!()*'' then False
      else True)"

definition upper_hex :: "nat \<Rightarrow> char" where
  "upper_hex d = (if d < 10 then char_of (48 + d) else char_of (55 + d))"

definition escape_char :: "encoding \<Rightarrow> char \<Rightarrow> string" where
  "escape_char mode c =
     (if should_escape mode c then
        (if c = CHR '' '' \<and> mode = EncodeQueryComponent then ''+''
         else [CHR ''%'', upper_hex (ord c div 16), upper_hex (ord c mod 16)])
      else [c])"

definition escape :: "encoding \<Rightarrow> string \<Rightarrow> string" where
  "escape mode s = concat (map (escape_char mode) s)"

text \<open>
  \<open>unescape\<close> checks each \<open>%xy\<close> for its mode ahead of decoding it; in a host only bytes above
  ASCII (and \<open>%25\<close>) may be escaped, and bytes a host cannot hold are refused.
\<close>

definition percent_ok :: "encoding \<Rightarrow> char \<Rightarrow> char \<Rightarrow> bool" where
  "percent_ok mode a b =
     (is_hex_digit a \<and> is_hex_digit b
      \<and> \<not> (mode = EncodeHost \<and> unhex a < 8 \<and> [a, b] \<noteq> ''25'')
      \<and> \<not> (mode = EncodeZone \<and> [a, b] \<noteq> ''25''
            \<and> char_of (unhex a * 16 + unhex b) \<noteq> CHR '' ''
            \<and> should_escape EncodeHost (char_of (unhex a * 16 + unhex b))))"

fun unescape :: "encoding \<Rightarrow> string \<Rightarrow> string option" where
  "unescape mode [] = Some []"
| "unescape mode (c # cs) =
     (if c = CHR ''%'' then
        (case cs of
           a # b # rest \<Rightarrow>
             if percent_ok mode a b
             then map_option ((#) (char_of (unhex a * 16 + unhex b))) (unescape mode rest)
             else None
         | _ \<Rightarrow> None)
      else if c = CHR ''+'' then
        map_option ((#) (if mode = EncodeQueryComponent then CHR '' '' else c)) (unescape mode cs)
      else if (mode = EncodeHost \<or> mode = EncodeZone) \<and> ord c < 128 \<and> should_escape mode c then None
      else map_option ((#) c) (unescape mode cs))"

definition valid_encoded :: "encoding \<Rightarrow> string \<Rightarrow> bool" where
  "valid_encoded mode s \<longleftrightarrow>
     list_all (\<lambda>c. c \<in> set (''!$&'' @ [CHR 0x27] @ ''()*+,;=:@[]%'') \<or> \<not> should_escape mode c) s"

section \<open>URLs\<close>

record url =
  u_scheme :: string
  u_opaque :: string
  u_user :: "(string \<times> string option) option"
  u_host :: string
  u_path :: string
  u_raw_path :: string
  u_omit_host :: bool
  u_force_query :: bool
  u_raw_query :: string
  u_fragment :: string
  u_raw_fragment :: string

definition empty_url :: url where
  "empty_url = \<lparr>u_scheme = [], u_opaque = [], u_user = None, u_host = [], u_path = [],
     u_raw_path = [], u_omit_host = False, u_force_query = False, u_raw_query = [], u_fragment = [],
     u_raw_fragment = []\<rparr>"

text \<open>\<open>getScheme\<close>, scanning from byte \<open>i\<close>: \<^const>\<open>None\<close> for a leading colon.\<close>

fun scan_scheme :: "nat \<Rightarrow> string \<Rightarrow> string \<Rightarrow> (string \<times> string) option" where
  "scan_scheme i raw [] = Some ([], raw)"
| "scan_scheme i raw (c # cs) =
     (if in_range 97 122 (ord c) \<or> in_range 65 90 (ord c) then scan_scheme (Suc i) raw cs
      else if in_range 48 57 (ord c) \<or> c \<in> set ''+-.'' then
        (if i = 0 then Some ([], raw) else scan_scheme (Suc i) raw cs)
      else if c = CHR '':'' then
        (if i = 0 then None else Some (take i raw, drop (Suc i) raw))
      else Some ([], raw))"

definition get_scheme :: "string \<Rightarrow> (string \<times> string) option" where
  "get_scheme raw = scan_scheme 0 raw raw"

definition valid_userinfo :: "string \<Rightarrow> bool" where
  "valid_userinfo s \<longleftrightarrow>
     list_all (\<lambda>c. is_alnum c \<or> c \<in> set (''-._:~!$&'' @ [CHR 0x27] @ ''()*+,;=%@'')) s"

definition valid_optional_port :: "string \<Rightarrow> bool" where
  "valid_optional_port port =
     (case port of [] \<Rightarrow> True | c # cs \<Rightarrow> c = CHR '':'' \<and> list_all is_digit cs)"

text \<open>The index of the first \<open>%25\<close>, as the text in front of it and from it on.\<close>

fun split_zone :: "string \<Rightarrow> (string \<times> string) option" where
  "split_zone [] = None"
| "split_zone (c # cs) =
     (if take 3 (c # cs) = ''%25'' then Some ([], c # cs)
      else map_option (\<lambda>(a, b). (c # a, b)) (split_zone cs))"

definition parse_host :: "string \<Rightarrow> string option" where
  "parse_host host =
     (if has_prefix host ''['' then
        (case cut_last (CHR '']'') host of
           None \<Rightarrow> None
         | Some (inner, colon_port) \<Rightarrow>
             if \<not> valid_optional_port colon_port then None
             else (case split_zone inner of
                     Some (front, zone) \<Rightarrow>
                       (case unescape EncodeHost front of
                          None \<Rightarrow> None
                        | Some host1 \<Rightarrow>
                            (case unescape EncodeZone zone of
                               None \<Rightarrow> None
                             | Some host2 \<Rightarrow>
                                 (case unescape EncodeHost (CHR '']'' # colon_port) of
                                    None \<Rightarrow> None
                                  | Some host3 \<Rightarrow> Some (host1 @ host2 @ host3))))
                   | None \<Rightarrow> unescape EncodeHost host))
      else (case cut_last (CHR '':'') host of
              Some (_, port) \<Rightarrow>
                if \<not> valid_optional_port (CHR '':'' # port) then None else unescape EncodeHost host
            | None \<Rightarrow> unescape EncodeHost host))"

definition parse_userinfo :: "string \<Rightarrow> (string \<times> string option) option" where
  "parse_userinfo userinfo =
     (case cut_on (CHR '':'') userinfo of
        (username, password, has_password) \<Rightarrow>
          (case unescape EncodeUserPassword username of
             None \<Rightarrow> None
           | Some u \<Rightarrow>
               if \<not> has_password then Some (u, None)
               else map_option (\<lambda>p. (u, Some p)) (unescape EncodeUserPassword password)))"

definition parse_authority :: "string \<Rightarrow> ((string \<times> string option) option \<times> string) option" where
  "parse_authority authority =
     (case cut_last (CHR ''@'') authority of
        None \<Rightarrow> map_option (\<lambda>h. (None, h)) (parse_host authority)
      | Some (userinfo, host) \<Rightarrow>
          (case parse_host host of
             None \<Rightarrow> None
           | Some h \<Rightarrow>
               if \<not> valid_userinfo userinfo then None
               else map_option (\<lambda>u. (Some u, h)) (parse_userinfo userinfo)))"

definition set_path :: "string \<Rightarrow> url \<Rightarrow> url option" where
  "set_path p u =
     (case unescape EncodePath p of
        None \<Rightarrow> None
      | Some path \<Rightarrow>
          Some (u\<lparr>u_path := path, u_raw_path := (if p = escape EncodePath path then [] else p)\<rparr>))"

definition set_fragment :: "string \<Rightarrow> url \<Rightarrow> url option" where
  "set_fragment f u =
     (case unescape EncodeFragment f of
        None \<Rightarrow> None
      | Some frag \<Rightarrow>
          Some (u\<lparr>u_fragment := frag,
                   u_raw_fragment := (if f = escape EncodeFragment frag then [] else f)\<rparr>))"

definition has_ctl_byte :: "string \<Rightarrow> bool" where
  "has_ctl_byte s \<longleftrightarrow> list_ex (\<lambda>c. ord c < 32 \<or> ord c = 127) s"

text \<open>The tail of \<open>parse\<close> once the scheme and the query are off: \<open>rest\<close> is authority and path.\<close>

definition parse_hier :: "string \<Rightarrow> url \<Rightarrow> url option" where
  "parse_hier rest u =
     (if (u_scheme u \<noteq> [] \<or> \<not> has_prefix rest ''///'') \<and> has_prefix rest ''//'' then
        (let authority = takeWhile (\<lambda>c. c \<noteq> CHR ''/'') (drop 2 rest);
             path = dropWhile (\<lambda>c. c \<noteq> CHR ''/'') (drop 2 rest)
         in (case parse_authority authority of
               None \<Rightarrow> None
             | Some (user, host) \<Rightarrow> set_path path (u\<lparr>u_user := user, u_host := host\<rparr>)))
      else if u_scheme u \<noteq> [] \<and> has_prefix rest ''/'' then set_path rest (u\<lparr>u_omit_host := True\<rparr>)
      else set_path rest u)"

definition split_query :: "string \<Rightarrow> url \<Rightarrow> string \<times> url" where
  "split_query rest u =
     (if has_suffix rest ''?'' \<and> length (filter (\<lambda>c. c = CHR ''?'') rest) = 1
      then (take (length rest - 1) rest, u\<lparr>u_force_query := True\<rparr>)
      else (case cut_on (CHR ''?'') rest of (r, q, _) \<Rightarrow> (r, u\<lparr>u_raw_query := q\<rparr>)))"

definition parse_no_fragment :: "string \<Rightarrow> url option" where
  "parse_no_fragment raw =
     (if has_ctl_byte raw then None
      else if raw = ''*'' then Some (empty_url\<lparr>u_path := ''*''\<rparr>)
      else (case get_scheme raw of
              None \<Rightarrow> None
            | Some (scheme, rest0) \<Rightarrow>
                (case split_query rest0 (empty_url\<lparr>u_scheme := to_lower scheme\<rparr>) of
                   (rest, u) \<Rightarrow>
                     if \<not> has_prefix rest ''/'' \<and> u_scheme u \<noteq> [] then Some (u\<lparr>u_opaque := rest\<rparr>)
                     else if \<not> has_prefix rest ''/''
                          \<and> CHR '':'' \<in> set (takeWhile (\<lambda>c. c \<noteq> CHR ''/'') rest) then None
                     else parse_hier rest u)))"

definition url_parse :: "string \<Rightarrow> url option" where
  "url_parse raw =
     (case cut_on (CHR ''#'') raw of
        (front, frag, _) \<Rightarrow>
          (case parse_no_fragment front of
             None \<Rightarrow> None
           | Some u \<Rightarrow>
               if frag = [] then Some u
               else set_fragment frag u))"

section \<open>Query values\<close>

type_synonym url_values = "(string \<times> string list) list"

fun values_add :: "string \<Rightarrow> string \<Rightarrow> url_values \<Rightarrow> url_values" where
  "values_add k v [] = [(k, [v])]"
| "values_add k v ((k', vs) # m) =
     (if k' = k then (k', vs @ [v]) # m else (k', vs) # values_add k v m)"

definition add_pair :: "string \<Rightarrow> url_values \<Rightarrow> url_values" where
  "add_pair pair m =
     (if CHR '';'' \<in> set pair \<or> pair = [] then m
      else (case cut_on (CHR ''='') pair of
              (key, val, _) \<Rightarrow>
                (case (unescape EncodeQueryComponent key, unescape EncodeQueryComponent val) of
                   (Some k, Some v) \<Rightarrow> values_add k v m
                 | _ \<Rightarrow> m)))"

definition url_query :: "url \<Rightarrow> url_values" where
  "url_query u = fold add_pair (split_on (CHR ''&'') (u_raw_query u)) []"

text \<open>\<open>Values.Set\<close> on a key that is present: its values become the one given.\<close>

definition values_set :: "string \<Rightarrow> string \<Rightarrow> url_values \<Rightarrow> url_values" where
  "values_set k v m = map (\<lambda>(k', vs). if k' = k then (k', [v]) else (k', vs)) m"

definition values_encode :: "url_values \<Rightarrow> string" where
  "values_encode m =
     join_with ''&''
       (concat (map (\<lambda>(k, vs). map (\<lambda>v. escape EncodeQueryComponent k @ ''='' @
                                        escape EncodeQueryComponent v) vs)
                    (sort_key fst m)))"

section \<open>URL.String\<close>

definition escaped_path :: "url \<Rightarrow> string" where
  "escaped_path u =
     (if u_raw_path u \<noteq> [] \<and> valid_encoded EncodePath (u_raw_path u)
         \<and> unescape EncodePath (u_raw_path u) = Some (u_path u) then u_raw_path u
      else if u_path u = ''*'' then ''*''
      else escape EncodePath (u_path u))"

definition escaped_fragment :: "url \<Rightarrow> string" where
  "escaped_fragment u =
     (if u_raw_fragment u \<noteq> [] \<and> valid_encoded EncodeFragment (u_raw_fragment u)
         \<and> unescape EncodeFragment (u_raw_fragment u) = Some (u_fragment u) then u_raw_fragment u
      else escape EncodeFragment (u_fragment u))"

definition user_string :: "string \<times> string option \<Rightarrow> string" where
  "user_string ui =
     escape EncodeUserPassword (fst ui) @
     (case snd ui of None \<Rightarrow> [] | Some p \<Rightarrow> CHR '':'' # escape EncodeUserPassword p)"

definition authority_string :: "url \<Rightarrow> string" where
  "authority_string u =
     (if \<not> (u_scheme u \<noteq> [] \<or> u_host u \<noteq> [] \<or> u_user u \<noteq> None)
         \<or> (u_omit_host u \<and> u_host u = [] \<and> u_user u = None) then []
      else (if u_host u \<noteq> [] \<or> u_path u \<noteq> [] \<or> u_user u \<noteq> None then ''//'' else [])
           @ (case u_user u of None \<Rightarrow> [] | Some ui \<Rightarrow> user_string ui @ ''@'')
           @ escape EncodeHost (u_host u))"

definition url_body :: "url \<Rightarrow> string" where
  "url_body u =
     (let scheme = (if u_scheme u \<noteq> [] then u_scheme u @ '':'' else []);
          front = scheme @ authority_string u;
          path = escaped_path u;
          slash = (if path \<noteq> [] \<and> \<not> has_prefix path ''/'' \<and> u_host u \<noteq> [] then ''/'' else []);
          dot = (if front @ slash = []
                    \<and> CHR '':'' \<in> set (takeWhile (\<lambda>c. c \<noteq> CHR ''/'') path) then ''./'' else [])
      in if u_opaque u \<noteq> [] then scheme @ u_opaque u else front @ slash @ dot @ path)"

definition url_string :: "url \<Rightarrow> string" where
  "url_string u =
     url_body u
     @ (if u_force_query u \<or> u_raw_query u \<noteq> [] then ''?'' @ u_raw_query u else [])
     @ (if u_fragment u \<noteq> [] then ''#'' @ escaped_fragment u else [])"

end
