(* ===== verification/Redact.thy ===== *)
theory Redact
  imports GoUrl
begin

text \<open>
  The redaction policy of \<open>restlytics.go\<close>: which headers and attribute keys are sensitive, and
  \<open>redactURL\<close>, which removes credentials and fragments and overwrites every query value.
\<close>

section \<open>Sensitive headers and attribute keys\<close>

definition sensitive_headers :: "string list" where
  "sensitive_headers =
     [''authorization'', ''cookie'', ''set-cookie'', ''x-api-key'', ''x-restlytics-key'',
      ''proxy-authorization'']"

definition is_sensitive_header :: "string \<Rightarrow> bool" where
  "is_sensitive_header name \<longleftrightarrow> to_lower name \<in> set sensitive_headers"

definition sensitive_attribute_segments :: "string list" where
  "sensitive_attribute_segments =
     [''authorization'', ''auth'', ''cookie'', ''cookies'', ''setcookie'', ''password'', ''passwd'',
      ''secret'', ''token'', ''accesstoken'', ''refreshtoken'', ''apikey'', ''credential'',
      ''credentials'', ''body'', ''payload'', ''form'', ''stack'', ''stacktrace'', ''log'']"

text \<open>\<open>strings.NewReplacer("-", ".", "_", ".")\<close> on the trimmed, lower-cased key.\<close>

definition dot_separators :: "string \<Rightarrow> string" where
  "dot_separators s = map (\<lambda>c. if c \<in> set ''-_'' then CHR ''.'' else c) s"

definition normalize_key :: "string \<Rightarrow> string" where
  "normalize_key key = dot_separators (to_lower (trim_space key))"

definition is_sensitive_attribute_key :: "string \<Rightarrow> bool" where
  "is_sensitive_attribute_key key \<longleftrightarrow>
     (let normalized = normalize_key key in
      if normalized \<in> {''http.request.method'', ''http.response.status.code'',
                       ''restlytics.bindings.count''} then False
      else list_ex (\<lambda>segment. segment \<in> set sensitive_attribute_segments)
                   (split_on (CHR ''.'') normalized))"

lemma split_on_sep: "split_on c (a @ c # b) = split_on c a @ split_on c b"
proof (induction a)
  case (Cons x a)
  then show ?case
    by (cases "split_on c a") auto
qed simp

lemma trim_middle:
  assumes "is_ascii p" "is_ascii m" "is_ascii q" and "m \<noteq> []"
    and "\<not> is_space (ord (hd m))" and "\<not> is_space (ord (last m))"
  shows "\<exists>p' q'. is_ascii p' \<and> is_ascii q' \<and> trim_space (p @ m @ q) = p' @ m @ q'"
proof -
  let ?f = "\<lambda>c. is_space (ord c)"
  let ?q = "rev (dropWhile ?f (rev q))"
  have ascii: "is_ascii (p @ m @ q)"
    using assms(1-3) by (simp add: is_ascii_def)
  have "dropWhile ?f (p @ m @ q) = dropWhile ?f p @ m @ q"
    using assms(4,5) by (induction p) (auto simp: dropWhile_append dropWhile_none)
  moreover have "dropWhile ?f (rev q @ rev m @ rev t) = dropWhile ?f (rev q) @ rev m @ rev t" for t
    using assms(4,6) by (induction q rule: rev_induct) (auto simp: dropWhile_append dropWhile_none hd_rev)
  ultimately have "trim_space (p @ m @ q) = dropWhile ?f p @ m @ ?q"
    by (simp add: trim_space_ascii_eq [OF ascii])
  moreover have "is_ascii (dropWhile ?f p)" "is_ascii ?q"
    using assms(1,3) by (auto simp: is_ascii_def list_all_iff dest!: set_dropWhileD)
  ultimately show ?thesis by blast
qed



section \<open>redactURL\<close>

text \<open>\<open>strings.Index(clean, "://")\<close>, as the text up to its end and the text after it.\<close>

fun cut_scheme_sep :: "string \<Rightarrow> (string \<times> string) option" where
  "cut_scheme_sep [] = None"
| "cut_scheme_sep (c # cs) =
     (if take 3 (c # cs) = ''://'' then Some (take 3 (c # cs), drop 3 (c # cs))
      else map_option (\<lambda>(a, b). (c # a, b)) (cut_scheme_sep cs))"

definition redact_unparsed :: "string \<Rightarrow> string" where
  "redact_unparsed raw =
     (let clean = fst (cut_on (CHR ''?'') (fst (cut_on (CHR ''#'') raw))) in
      case cut_scheme_sep clean of
        None \<Rightarrow> clean
      | Some (prefix, remainder) \<Rightarrow>
          (case cut_last (CHR ''@'') remainder of
             Some (_, rest) \<Rightarrow> prefix @ rest
           | None \<Rightarrow> clean))"

definition redact_query :: "url_values \<Rightarrow> url_values" where
  "redact_query q = fold (\<lambda>k m. values_set k ''REDACTED'' m) (map fst q) q"

definition sanitize_url :: "url \<Rightarrow> url" where
  "sanitize_url u =
     u\<lparr>u_user := None, u_fragment := [], u_raw_query := values_encode (redact_query (url_query u))\<rparr>"

definition redact_url :: "string \<Rightarrow> string" where
  "redact_url raw =
     (case url_parse raw of
        None \<Rightarrow> redact_unparsed raw
      | Some u \<Rightarrow> url_string (sanitize_url u))"

section \<open>Lemmas on escaping\<close>

lemma upper_hex_chars: "d < 16 \<Longrightarrow> is_alnum (upper_hex d)"
  by (auto simp: upper_hex_def is_alnum_def in_range_def)

lemma escape_char_chars:
  "d \<in> set (escape_char mode c) \<Longrightarrow> \<not> should_escape mode d \<or> is_alnum d \<or> d \<in> set ''%+''"
  by (auto simp: escape_char_def upper_hex_chars split: if_splits)

lemma escape_chars:
  "d \<in> set (escape mode s) \<Longrightarrow> \<not> should_escape mode d \<or> is_alnum d \<or> d \<in> set ''%+''"
  by (auto simp: escape_def dest: escape_char_chars)

lemma escape_free:
  "should_escape mode d \<Longrightarrow> \<not> is_alnum d \<Longrightarrow> d \<notin> set ''%+'' \<Longrightarrow> d \<notin> set (escape mode s)"
  using escape_chars by blast

lemma escape_path_free [simp]:
  "CHR ''?'' \<notin> set (escape EncodePath s)"
  "CHR ''#'' \<notin> set (escape EncodePath s)"
  by (rule escape_free; simp add: should_escape_def is_alnum_def in_range_def)+

lemma escape_host_free [simp]:
  "CHR ''?'' \<notin> set (escape EncodeHost s)"
  "CHR ''#'' \<notin> set (escape EncodeHost s)"
  "CHR ''@'' \<notin> set (escape EncodeHost s)"
  "CHR ''/'' \<notin> set (escape EncodeHost s)"
  by (rule escape_free; simp add: should_escape_def is_alnum_def in_range_def host_chars_def)+

lemma escape_query_free [simp]:
  "CHR ''?'' \<notin> set (escape EncodeQueryComponent s)"
  "CHR ''#'' \<notin> set (escape EncodeQueryComponent s)"
  "CHR ''&'' \<notin> set (escape EncodeQueryComponent s)"
  "CHR ''='' \<notin> set (escape EncodeQueryComponent s)"
  by (rule escape_free; simp add: should_escape_def is_alnum_def in_range_def)+

lemma escape_redacted [simp]: "escape EncodeQueryComponent ''REDACTED'' = ''REDACTED''"
  by (simp add: escape_def escape_char_def should_escape_def is_alnum_def in_range_def)

section \<open>The query is overwritten\<close>

lemma fold_values_set:
  "fold (\<lambda>k m. values_set k v m) ks m
     = map (\<lambda>(k, vs). if k \<in> set ks then (k, [v]) else (k, vs)) m"
  by (induction ks arbitrary: m) (auto simp: values_set_def comp_def split: prod.splits)

lemma redact_query_eq: "redact_query q = map (\<lambda>(k, _). (k, [''REDACTED''])) q"
  by (force simp: redact_query_def fold_values_set)

definition redacted_pairs :: "string list \<Rightarrow> string list" where
  "redacted_pairs ks = map (\<lambda>k. escape EncodeQueryComponent k @ ''=REDACTED'') ks"

lemma insort_key_map_fst:
  "insort_key fst (k, v) (map (\<lambda>k. (k, v)) ks) = map (\<lambda>k. (k, v)) (insort k ks)"
  by (induction ks) auto

lemma sort_key_map_fst:
  "sort_key fst (map (\<lambda>(k, _). (k, v)) q) = map (\<lambda>k. (k, v)) (sort (map fst q))"
  by (induction q) (auto simp: insort_key_map_fst split: prod.splits)

lemma values_encode_redacted:
  "values_encode (redact_query q) = join_with ''&'' (redacted_pairs (sort (map fst q)))"
  by (simp add: values_encode_def redact_query_eq sort_key_map_fst redacted_pairs_def comp_def)

lemma split_join:
  "ps \<noteq> [] \<Longrightarrow> \<forall>p \<in> set ps. c \<notin> set p \<Longrightarrow> split_on c (join_with [c] ps) = ps"
proof (induction "[c]" ps rule: join_with.induct)
  case (3 x y zs)
  then show ?case by (simp add: split_on_append)
qed (auto simp: split_on_no_sep)

lemma redacted_pairs_free:
  "p \<in> set (redacted_pairs ks) \<Longrightarrow> CHR ''&'' \<notin> set p \<and> CHR ''#'' \<notin> set p \<and> CHR ''?'' \<notin> set p"
  by (auto simp: redacted_pairs_def)

lemma join_with_chars:
  "d \<in> set (join_with sep ps) \<Longrightarrow> d \<in> set sep \<or> (\<exists>p \<in> set ps. d \<in> set p)"
  by (induction sep ps rule: join_with.induct) auto

section \<open>Where the parts of a parsed URL come from\<close>

definition scheme_char :: "char \<Rightarrow> bool" where
  "scheme_char c \<longleftrightarrow> is_alnum c \<or> c \<in> set ''+-.''"

lemma scan_scheme_parts:
  assumes "scan_scheme i raw cs = Some (s, rest)"
    and "raw = pre @ cs" and "length pre = i" and "\<forall>c \<in> set pre. scheme_char c"
  shows "(\<forall>c \<in> set s. scheme_char c) \<and> set rest \<subseteq> set raw"
  using assms
proof (induction i raw cs arbitrary: pre rule: scan_scheme.induct)
  case (2 i raw c cs)
  show ?case
  proof (cases "scheme_char c")
    case True
    have step: "raw = (pre @ [c]) @ cs" "length (pre @ [c]) = Suc i" "\<forall>x \<in> set (pre @ [c]). scheme_char x"
      using "2.prems" True by auto
    show ?thesis
      using "2.prems"(1) True "2.IH"(1) [OF _ _ step] "2.IH"(2) [OF _ _ _ _ step]
      by (auto simp: scheme_char_def is_alnum_def split: if_splits)
  next
    case False
    then show ?thesis
      using "2.prems"
      by (auto simp: scheme_char_def is_alnum_def split: if_splits)
  qed
qed auto

lemma get_scheme_parts:
  "get_scheme raw = Some (s, rest) \<Longrightarrow> (\<forall>c \<in> set s. scheme_char c) \<and> set rest \<subseteq> set raw"
  unfolding get_scheme_def by (erule scan_scheme_parts [where pre = "[]"]) auto

lemma scheme_char_lower: "scheme_char c \<Longrightarrow> scheme_char (lower_char c) \<and> ord c < 128"
  by (auto simp: scheme_char_def lower_char_def is_alnum_def in_range_def)

lemma to_lower_scheme:
  assumes "\<forall>c \<in> set s. scheme_char c"
  shows "\<forall>c \<in> set (to_lower s). scheme_char c"
proof -
  have "is_ascii s"
    using assms scheme_char_lower by (auto simp: is_ascii_def list_all_iff)
  then show ?thesis
    using assms scheme_char_lower by (auto simp: to_lower_ascii)
qed

text \<open>No part of the URL that \<open>String\<close> copies verbatim holds a question mark or a hash.\<close>

definition free_of_marks :: "string \<Rightarrow> bool" where
  "free_of_marks s \<longleftrightarrow> CHR ''?'' \<notin> set s \<and> CHR ''#'' \<notin> set s"

definition clean_url :: "url \<Rightarrow> bool" where
  "clean_url u \<longleftrightarrow> free_of_marks (u_scheme u) \<and> free_of_marks (u_opaque u) \<and> free_of_marks (u_raw_path u)"

lemma free_of_marks_subset: "set s \<subseteq> set t \<Longrightarrow> free_of_marks t \<Longrightarrow> free_of_marks s"
  by (auto simp: free_of_marks_def)

lemma free_of_marks_simps [simp]:
  "free_of_marks []"
  "free_of_marks (s @ t) \<longleftrightarrow> free_of_marks s \<and> free_of_marks t"
  "free_of_marks (c # s) \<longleftrightarrow> c \<noteq> CHR ''?'' \<and> c \<noteq> CHR ''#'' \<and> free_of_marks s"
  by (auto simp: free_of_marks_def)

lemma escape_marks [simp]:
  "free_of_marks (escape EncodePath s)"
  "free_of_marks (escape EncodeHost s)"
  by (simp_all add: free_of_marks_def)

lemma set_path_fields:
  "set_path p u = Some v \<Longrightarrow>
     u_scheme v = u_scheme u \<and> u_opaque v = u_opaque u \<and> (u_raw_path v = [] \<or> u_raw_path v = p)"
  by (auto simp: set_path_def split: option.splits if_splits)

lemma parse_hier_clean:
  assumes "parse_hier rest u = Some v" and "clean_url u" and "free_of_marks rest"
  shows "clean_url v"
proof -
  have "free_of_marks (dropWhile (\<lambda>c. c \<noteq> CHR ''/'') (drop 2 rest))"
    using assms(3) by (rule free_of_marks_subset [rotated]) (meson set_dropWhileD set_drop_subset subsetD subsetI)
  with assms show ?thesis
    by (auto simp: parse_hier_def Let_def clean_url_def dest!: set_path_fields
        split: if_splits option.splits)
qed

lemma split_query_free:
  assumes "split_query rest u = (r, v)" and "CHR ''#'' \<notin> set rest"
  shows "free_of_marks r"
proof -
  have *: "set r \<subseteq> set rest"
    using assms(1) by (auto simp: split_query_def cut_on_def dest: in_set_takeD set_takeWhileD
        split: if_splits)
  have "CHR ''?'' \<notin> set r"
  proof (cases "has_suffix rest ''?'' \<and> length (filter (\<lambda>c. c = CHR ''?'') rest) = 1")
    case True
    then obtain t where t: "rest = t @ ''?''"
      by (metis append_take_drop_id has_suffix_def)
    then have "filter (\<lambda>c. c = CHR ''?'') t = []"
      using True by simp
    then have "CHR ''?'' \<notin> set t" by (auto simp: filter_empty_conv)
    then show ?thesis
      using assms(1) True t by (auto simp: split_query_def)
  next
    case False
    then show ?thesis
      using assms(1) by (auto simp: split_query_def cut_on_def dest: set_takeWhileD split: if_splits)
  qed
  with * assms(2) show ?thesis by (auto simp: free_of_marks_def)
qed

lemma split_query_fields:
  "split_query rest u = (r, v) \<Longrightarrow>
     u_scheme v = u_scheme u \<and> u_opaque v = u_opaque u \<and> u_raw_path v = u_raw_path u"
  by (auto simp: split_query_def split: if_splits prod.splits)

lemma parse_no_fragment_clean:
  assumes "parse_no_fragment raw = Some u" and "CHR ''#'' \<notin> set raw"
  shows "clean_url u"
proof (cases "raw = ''*''")
  case True
  with assms(1) show ?thesis
    by (auto simp: parse_no_fragment_def clean_url_def empty_url_def split: if_splits)
next
  case False
  obtain scheme rest0 where sch: "get_scheme raw = Some (scheme, rest0)"
    using assms(1) False by (auto simp: parse_no_fragment_def split: if_splits option.splits)
  obtain rest v where q: "split_query rest0 (empty_url\<lparr>u_scheme := to_lower scheme\<rparr>) = (rest, v)"
    by fastforce
  have rest: "free_of_marks rest"
    using split_query_free [OF q] get_scheme_parts [OF sch] assms(2) by blast
  have "free_of_marks (to_lower scheme)"
    using to_lower_scheme get_scheme_parts [OF sch]
    by (fastforce simp: free_of_marks_def scheme_char_def is_alnum_def in_range_def)
  then have v: "clean_url v"
    using split_query_fields [OF q] by (simp add: clean_url_def empty_url_def)
  show ?thesis
    using assms(1) False sch q v rest parse_hier_clean [OF _ v rest]
    by (auto simp: parse_no_fragment_def clean_url_def split: if_splits)
qed

lemma url_parse_clean:
  assumes "url_parse raw = Some u"
  shows "clean_url u"
proof -
  have "CHR ''#'' \<notin> set (fst (cut_on (CHR ''#'') raw))"
    by (auto simp: cut_on_def dest: set_takeWhileD)
  then have "clean_url v" if "parse_no_fragment (fst (cut_on (CHR ''#'') raw)) = Some v" for v
    using parse_no_fragment_clean [OF that] by simp
  then show ?thesis
    using assms
    by (auto simp: url_parse_def set_fragment_def clean_url_def split: prod.splits option.splits if_splits)
qed

lemma redact_unparsed_free: "free_of_marks (redact_unparsed raw)"
proof -
  define clean where "clean = fst (cut_on (CHR ''?'') (fst (cut_on (CHR ''#'') raw)))"
  have clean: "free_of_marks clean"
    by (auto simp: clean_def free_of_marks_def cut_on_def dest: set_takeWhileD)
  have cut: "cut_scheme_sep s = Some (a, b) \<Longrightarrow> s = a @ b" for s a b
    by (induction s arbitrary: a b)
      (auto split: if_splits, metis append_Cons append_Nil append_take_drop_id)
  have last: "cut_last c s = Some (a, b) \<Longrightarrow> set b \<subseteq> set s" for c s a b
    by (auto simp: cut_last_def split: if_splits) (metis set_rev set_takeWhileD)
  show ?thesis
    unfolding redact_unparsed_def Let_def clean_def [symmetric]
    using clean by (auto split: option.splits prod.splits dest!: cut last simp: free_of_marks_def)
qed

lemma url_string_sanitized:
  assumes "clean_url u"
  shows "\<exists>body. free_of_marks body
           \<and> (url_string (sanitize_url u) = body \<and> url_query u = []
              \<or> url_string (sanitize_url u)
                  = body @ CHR ''?'' # join_with ''&'' (redacted_pairs (sort (map fst (url_query u)))))"
proof -
  define q where "q = join_with ''&'' (redacted_pairs (sort (map fst (url_query u))))"
  define v where "v = sanitize_url u"
  have v: "u_user v = None" "u_fragment v = []" "u_raw_query v = q" "clean_url v"
    using assms by (simp_all add: v_def sanitize_url_def q_def values_encode_redacted clean_url_def)
  have path: "free_of_marks (escaped_path v)"
    using v(4) by (auto simp: escaped_path_def clean_url_def)
  have auth: "free_of_marks (authority_string v)"
    using v(1) by (simp add: authority_string_def)
  have body: "free_of_marks (url_body v)"
    using v(4) path auth by (simp add: url_body_def Let_def clean_url_def)
  have str: "url_string v
      = url_body v @ (if u_force_query v \<or> u_raw_query v \<noteq> [] then ''?'' @ u_raw_query v else [])"
    using v(2) by (simp add: url_string_def)
  have "url_query u = []" if "q = []"
  proof (rule ccontr)
    assume "url_query u \<noteq> []"
    then have "sort (map fst (url_query u)) \<noteq> []" by (metis map_is_Nil_conv set_empty set_sort)
    then obtain k ks where "sort (map fst (url_query u)) = k # ks" by (meson neq_Nil_conv)
    with that show False by (cases ks) (auto simp: q_def redacted_pairs_def)
  qed
  then show ?thesis
    using body str unfolding v(3) q_def [symmetric] v_def [symmetric]
    by (intro exI [of _ "url_body v"]) auto
qed

section \<open>What the redacted text holds\<close>

definition query_text :: "string \<Rightarrow> string" where
  "query_text s = fst (snd (cut_on (CHR ''?'') s))"

lemma cut_on_first: "c \<notin> set a \<Longrightarrow> cut_on c (a @ c # b) = (a, b, True)"
  by (induction a) (auto simp: cut_on_def)

lemma cut_on_absent: "c \<notin> set a \<Longrightarrow> cut_on c a = (a, [], False)"
  by (simp add: cut_on_def)

lemma redact_url_shape:
  "\<exists>body. free_of_marks body
     \<and> (redact_url raw = body \<or> (\<exists>ks. redact_url raw = body @ CHR ''?'' # join_with ''&'' (redacted_pairs ks)))"
proof (cases "url_parse raw")
  case None
  then show ?thesis
    using redact_unparsed_free [of raw] by (auto simp: redact_url_def)
next
  case (Some u)
  then show ?thesis
    using url_string_sanitized [OF url_parse_clean [OF Some]] by (auto simp: redact_url_def)
qed

text \<open>C9: in the output of redactURL, whatever the input, every query pair reads key=REDACTED.\<close>
theorem redact_url_values:
  assumes "query_text (redact_url raw) \<noteq> []"
    and "pair \<in> set (split_on (CHR ''&'') (query_text (redact_url raw)))"
  shows "\<exists>k. pair = escape EncodeQueryComponent k @ ''=REDACTED''"
proof -
  obtain body ks where "free_of_marks body"
      and "redact_url raw = body \<or> redact_url raw = body @ CHR ''?'' # join_with ''&'' (redacted_pairs ks)"
    using redact_url_shape [of raw] by blast
  then have q: "query_text (redact_url raw) = join_with ''&'' (redacted_pairs ks)"
    using assms(1) by (auto simp: query_text_def cut_on_first cut_on_absent free_of_marks_def)
  have "redacted_pairs ks \<noteq> []"
    using assms(1) q by auto
  then have "split_on (CHR ''&'') (query_text (redact_url raw)) = redacted_pairs ks"
    unfolding q using redacted_pairs_free by (intro split_join) auto
  with assms(2) show ?thesis
    by (auto simp: redacted_pairs_def)
qed

lemma redact_url_values_witness:
  "''b=REDACTED'' \<in> set (split_on (CHR ''&'') (query_text (redact_url ''/x?a=1&b=s3cret'')))
   \<and> (\<exists>k. ''b=REDACTED'' = escape EncodeQueryComponent k @ ''=REDACTED'')"
proof -
  have r: "redact_url ''/x?a=1&b=s3cret'' = ''/x?a=REDACTED&b=REDACTED''"
    by code_simp
  have q: "query_text (redact_url ''/x?a=1&b=s3cret'') = ''a=REDACTED&b=REDACTED''"
    unfolding r by code_simp
  have m: "''b=REDACTED'' \<in> set (split_on (CHR ''&'') (query_text (redact_url ''/x?a=1&b=s3cret'')))"
    unfolding q by code_simp
  show ?thesis
    using m redact_url_values [OF _ m] by (simp add: q)
qed

text \<open>The output of redactURL holds no fragment, whatever the input.\<close>
theorem redact_url_no_fragment: "CHR ''#'' \<notin> set (redact_url raw)"
proof -
  obtain body ks where "free_of_marks body"
      and "redact_url raw = body \<or> redact_url raw = body @ CHR ''?'' # join_with ''&'' (redacted_pairs ks)"
    using redact_url_shape [of raw] by blast
  moreover have "CHR ''#'' \<notin> set (join_with ''&'' (redacted_pairs ks))"
    using join_with_chars redacted_pairs_free by fastforce
  ultimately show ?thesis
    by (auto simp: free_of_marks_def)
qed

section \<open>Credentials have no influence\<close>

definition valid_scheme :: "string \<Rightarrow> bool" where
  "valid_scheme s \<longleftrightarrow> s \<noteq> [] \<and> (in_range 97 122 (ord (hd s)) \<or> in_range 65 90 (ord (hd s)))
                   \<and> list_all scheme_char s"

lemma scan_scheme_tail:
  assumes "list_all scheme_char cs" and "0 < i" and "take (i + length cs) raw = pre @ cs"
    and "drop (i + length cs) raw = CHR '':'' # rest"
  shows "scan_scheme i raw (cs @ CHR '':'' # rest) = Some (take (i + length cs) raw, rest)"
  using assms
proof (induction cs arbitrary: i pre)
  case Nil
  then show ?case
    by (simp add: in_range_def) (metis drop_Suc tl_drop list.sel(3))
next
  case (Cons c cs)
  have "scan_scheme (Suc i) raw (cs @ CHR '':'' # rest) = Some (take (Suc i + length cs) raw, rest)"
    using Cons.prems by (intro Cons.IH [where pre = "pre @ [c]"]) auto
  then show ?case
    using Cons.prems by (auto simp: scheme_char_def is_alnum_def)
qed

lemma get_scheme_valid:
  assumes "valid_scheme s"
  shows "get_scheme (s @ CHR '':'' # rest) = Some (s, rest)"
proof -
  obtain c cs where s: "s = c # cs" "list_all scheme_char cs"
      and c: "in_range 97 122 (ord c) \<or> in_range 65 90 (ord c)"
    using assms by (cases s) (auto simp: valid_scheme_def)
  have "scan_scheme 1 (s @ CHR '':'' # rest) (cs @ CHR '':'' # rest)
      = Some (take (1 + length cs) (s @ CHR '':'' # rest), rest)"
    using s by (intro scan_scheme_tail [where pre = "[c]"]) auto
  then show ?thesis
    using s c by (simp add: get_scheme_def)
qed

lemma scheme_char_free: "list_all scheme_char s \<Longrightarrow> c \<in> set s \<Longrightarrow> scheme_char c"
  by (simp add: list_all_iff)

lemma valid_scheme_free:
  assumes "valid_scheme s"
  shows "CHR ''#'' \<notin> set s" "CHR ''?'' \<notin> set s" "\<not> has_ctl_byte s"
  using assms
  by (auto simp: valid_scheme_def has_ctl_byte_def list_ex_iff scheme_char_def is_alnum_def in_range_def
      dest!: scheme_char_free)

lemma userinfo_free:
  assumes "valid_userinfo ui" and "c \<in> set ui"
  shows "c \<noteq> CHR ''#'' \<and> c \<noteq> CHR ''?'' \<and> c \<noteq> CHR ''/'' \<and> \<not> (ord c < 32 \<or> ord c = 127)"
  using assms by (auto simp: valid_userinfo_def list_all_iff is_alnum_def in_range_def)

lemma has_suffix_last: "has_suffix s [c] \<longleftrightarrow> s \<noteq> [] \<and> last s = c"
  by (cases s rule: rev_cases) (auto simp: has_suffix_def)

lemma split_query_alt:
  "split_query rest u =
     (if rest \<noteq> [] \<and> last rest = CHR ''?'' \<and> length (filter (\<lambda>c. c = CHR ''?'') rest) = 1
      then (butlast rest, u\<lparr>u_force_query := True\<rparr>)
      else (takeWhile (\<lambda>c. c \<noteq> CHR ''?'') rest,
            u\<lparr>u_raw_query := tl (dropWhile (\<lambda>c. c \<noteq> CHR ''?'') rest)\<rparr>))"
proof (cases "CHR ''?'' \<in> set rest")
  case True
  then show ?thesis
    by (simp add: split_query_def has_suffix_last cut_on_def butlast_conv_take)
next
  case False
  then have "filter (\<lambda>c. c = CHR ''?'') rest = []"
    by (auto simp: filter_empty_conv)
  then show ?thesis
    using False by (simp add: split_query_def cut_on_def)
qed

lemma split_query_prefix:
  assumes "CHR ''?'' \<notin> set a" and "hp \<noteq> []"
  shows "split_query (a @ hp) u = map_prod (\<lambda>r. a @ r) id (split_query hp u)"
proof -
  have "filter (\<lambda>c. c = CHR ''?'') a = []"
    using assms(1) by (auto simp: filter_empty_conv)
  moreover have "takeWhile (\<lambda>c. c \<noteq> CHR ''?'') (a @ hp) = a @ takeWhile (\<lambda>c. c \<noteq> CHR ''?'') hp"
    and "dropWhile (\<lambda>c. c \<noteq> CHR ''?'') (a @ hp) = dropWhile (\<lambda>c. c \<noteq> CHR ''?'') hp"
    using assms(1) by simp_all
  ultimately show ?thesis
    using assms(2) by (simp add: split_query_alt butlast_append)
qed

lemma cut_last_append: "c \<notin> set b \<Longrightarrow> cut_last c (a @ c # b) = Some (a, b)"
  by (simp add: cut_last_def)

lemma set_path_user:
  "set_path p (u\<lparr>u_user := x\<rparr>) = map_option (\<lambda>v. v\<lparr>u_user := x\<rparr>) (set_path p u)"
  by (simp add: set_path_def split: option.splits)

lemma parse_authority_user:
  assumes "parse_authority a = Some (None, h)" and "valid_userinfo ui" and "parse_userinfo ui = Some x"
  shows "parse_authority (ui @ CHR ''@'' # a) = Some (Some x, h)"
proof -
  have "CHR ''@'' \<notin> set a" and "parse_host a = Some h"
    using assms(1) by (auto simp: parse_authority_def cut_last_def split: if_splits option.splits)
  then show ?thesis
    using assms(2,3) by (simp add: parse_authority_def cut_last_append)
qed

lemma parse_hier_user:
  assumes "parse_hier (''//'' @ r) u = Some v" and "u_user v = None" and "u_scheme u \<noteq> []"
    and "valid_userinfo ui" and "parse_userinfo ui = Some x"
  shows "parse_hier (''//'' @ ui @ CHR ''@'' # r) u = Some (v\<lparr>u_user := Some x\<rparr>)"
proof -
  let ?a = "takeWhile (\<lambda>c. c \<noteq> CHR ''/'') r" and ?p = "dropWhile (\<lambda>c. c \<noteq> CHR ''/'') r"
  obtain user h where auth: "parse_authority ?a = Some (user, h)"
      and v: "set_path ?p (u\<lparr>u_user := user, u_host := h\<rparr>) = Some v"
    using assms(1,3) by (auto simp: parse_hier_def has_prefix_def split: option.splits prod.splits)
  have "user = None"
    using v assms(2) by (auto simp: set_path_def split: option.splits)
  have sl: "CHR ''/'' \<notin> set ui"
    using userinfo_free [OF assms(4)] by blast
  have "takeWhile (\<lambda>c. c \<noteq> CHR ''/'') (ui @ CHR ''@'' # r) = ui @ CHR ''@'' # ?a"
    and "dropWhile (\<lambda>c. c \<noteq> CHR ''/'') (ui @ CHR ''@'' # r) = ?p"
    using sl by simp_all
  moreover have "set_path ?p (u\<lparr>u_user := Some x, u_host := h\<rparr>) = Some (v\<lparr>u_user := Some x\<rparr>)"
    using v by (auto simp: set_path_def split: option.splits)
  ultimately show ?thesis
    using assms(3) parse_authority_user [OF auth [unfolded \<open>user = None\<close>] assms(4,5)]
    by (simp add: parse_hier_def has_prefix_def Let_def)
qed

lemma takeWhile_hash_free: "CHR ''#'' \<notin> set (takeWhile (\<lambda>c. c \<noteq> CHR ''#'') hp)"
  by (auto dest: set_takeWhileD)

lemma cut_on_prefix:
  "c \<notin> set a \<Longrightarrow> cut_on c (a @ b) = map_prod (\<lambda>x. a @ x) id (cut_on c b)"
  by (auto simp: cut_on_def)

lemma has_ctl_byte_append [simp]: "has_ctl_byte (s @ t) \<longleftrightarrow> has_ctl_byte s \<or> has_ctl_byte t"
  by (simp add: has_ctl_byte_def)

lemma parse_no_fragment_user:
  assumes "valid_scheme s" and "valid_userinfo ui" and "parse_userinfo ui = Some x"
    and "parse_no_fragment (s @ ''://'' @ hp) = Some u" and "u_user u = None"
  shows "parse_no_fragment (s @ ''://'' @ ui @ CHR ''@'' # hp) = Some (u\<lparr>u_user := Some x\<rparr>)"
proof -
  let ?e = "empty_url\<lparr>u_scheme := to_lower s\<rparr>"
  have star: "s @ ''://'' @ t \<noteq> ''*''" for t
    using assms(1) by (cases s) (auto simp: valid_scheme_def)
  have sch: "get_scheme (s @ ''://'' @ t) = Some (s, ''//'' @ t)" for t
    using get_scheme_valid [OF assms(1), of "''//'' @ t"] by simp
  have ctl: "\<not> has_ctl_byte ui"
    using userinfo_free [OF assms(2)] by (auto simp: has_ctl_byte_def list_ex_iff)
  have ne: "u_scheme v \<noteq> []" if "split_query r ?e = (r', v)" for r r' v
  proof -
    have "map lower_char s \<noteq> []" and "is_ascii s"
      using assms(1) scheme_char_lower by (auto simp: valid_scheme_def is_ascii_def list_all_iff)
    then show ?thesis
      using split_query_fields [OF that] by (simp add: to_lower_ascii)
  qed
  obtain r v where q: "split_query (''//'' @ hp) ?e = (''//'' @ r, v)"
      and q': "split_query (''//'' @ ui @ CHR ''@'' # hp) ?e = (''//'' @ ui @ CHR ''@'' # r, v)"
  proof (cases "hp = []")
    case True
    have "CHR ''?'' \<notin> set ui"
      using userinfo_free [OF assms(2)] by blast
    then have "takeWhile (\<lambda>c. c \<noteq> CHR ''?'') (ui @ ''@'') = ui @ ''@''"
      and "dropWhile (\<lambda>c. c \<noteq> CHR ''?'') (ui @ ''@'') = []"
      and "filter (\<lambda>c. c = CHR ''?'') ui = []"
      by (auto simp: filter_empty_conv)
    with True show ?thesis
      by (intro that [of "[]" ?e]) (simp_all add: split_query_alt empty_url_def)
  next
    case False
    obtain r v where hp: "split_query hp ?e = (r, v)" by fastforce
    have "CHR ''?'' \<notin> set (''//'' @ ui @ ''@'')" and "CHR ''?'' \<notin> set ''//''"
      using userinfo_free [OF assms(2)] by auto
    from this [THEN split_query_prefix, OF False, of ?e] show ?thesis
      using that [of r v] hp by simp
  qed
  have "parse_hier (''//'' @ r) v = Some u"
    using assms(4) q ne [OF q] star [of hp]
    by (auto simp: parse_no_fragment_def sch [of hp, simplified] has_prefix_def split: if_splits)
  then have "parse_hier (''//'' @ ui @ CHR ''@'' # r) v = Some (u\<lparr>u_user := Some x\<rparr>)"
    using assms(5) ne [OF q] assms(2,3) by (rule parse_hier_user)
  then show ?thesis
    using assms(4) q' ctl valid_scheme_free(3) [OF assms(1)]
    by (auto simp: parse_no_fragment_def sch [of "ui @ CHR ''@'' # hp", simplified]
        star [of "ui @ CHR ''@'' # hp", simplified] has_prefix_def has_ctl_byte_def split: if_splits)
qed

text \<open>
  Credentials have no influence on what redactURL exports: a URL with a userinfo part is
  exported exactly as the same URL without it.
\<close>
theorem redact_url_ignores_credentials:
  assumes "valid_scheme s" and "valid_userinfo ui" and "parse_userinfo ui = Some x"
    and "url_parse (s @ ''://'' @ hp) = Some u" and "u_user u = None"
  shows "redact_url (s @ ''://'' @ ui @ CHR ''@'' # hp) = redact_url (s @ ''://'' @ hp)"
proof -
  obtain h f b where cut: "cut_on (CHR ''#'') hp = (h, f, b)" by (metis prod_cases3)
  have free: "CHR ''#'' \<notin> set (s @ ''://'')" "CHR ''#'' \<notin> set (s @ ''://'' @ ui @ ''@'')"
    using valid_scheme_free [OF assms(1)] userinfo_free [OF assms(2)] by auto
  have cuts: "cut_on (CHR ''#'') (s @ ''://'' @ hp) = (s @ ''://'' @ h, f, b)"
    "cut_on (CHR ''#'') (s @ ''://'' @ ui @ CHR ''@'' # hp) = (s @ ''://'' @ ui @ CHR ''@'' # h, f, b)"
    using free [THEN cut_on_prefix, of hp] cut by simp_all
  obtain v where v: "parse_no_fragment (s @ ''://'' @ h) = Some v"
      and u: "u = v \<and> f = [] \<or> f \<noteq> [] \<and> set_fragment f v = Some u"
    using assms(4) cuts by (auto simp: url_parse_def split: option.splits if_splits)
  have "u_user v = None"
    using u assms(5) by (auto simp: set_fragment_def split: option.splits)
  then have "parse_no_fragment (s @ ''://'' @ ui @ CHR ''@'' # h) = Some (v\<lparr>u_user := Some x\<rparr>)"
    using parse_no_fragment_user [OF assms(1-3) v] by simp
  then have "url_parse (s @ ''://'' @ ui @ CHR ''@'' # hp) = Some (u\<lparr>u_user := Some x\<rparr>)"
    using u by (auto simp: url_parse_def cuts(2) [simplified] set_fragment_def split: option.splits)
  moreover have "sanitize_url (u\<lparr>u_user := Some x\<rparr>) = sanitize_url u"
    by (simp add: sanitize_url_def url_query_def)
  ultimately show ?thesis
    using assms(4) by (simp add: redact_url_def)
qed

lemma redact_url_ignores_credentials_witness:
  "redact_url ''https://alice:pw@ex.com/a?t=1#f'' = redact_url ''https://ex.com/a?t=1#f''"
proof -
  have s: "valid_scheme ''https''" and ui: "valid_userinfo ''alice:pw''"
    and x: "parse_userinfo ''alice:pw'' = Some (''alice'', Some ''pw'')"
    by code_simp+
  have u: "url_parse (''https'' @ ''://'' @ ''ex.com/a?t=1#f'')
      = Some (empty_url\<lparr>u_scheme := ''https'', u_host := ''ex.com'', u_path := ''/a'',
                u_raw_query := ''t=1'', u_fragment := ''f''\<rparr>)"
    by code_simp
  show ?thesis
    using redact_url_ignores_credentials [OF s ui x u] by (simp add: empty_url_def)
qed

text \<open>
  The one form in which credentials survive: a URL with a scheme and no slashes is opaque
  to the parser, and redactURL copies its opaque part.
\<close>
theorem redact_url_opaque_keeps_credentials:
  "redact_url ''https:alice:secret@example.com/path?token=1'' = ''https:alice:secret@example.com/path?token=REDACTED''"
  by code_simp

end
