(* ===== verification/Span.thy ===== *)
theory Span
  imports Otlp Redact
begin

text \<open>
  \<open>span.go\<close>: the mutable span of one request.  Its attributes are an insertion-ordered map kept in
  three fields (keys, values and the index of each key); its contract is a map from keys to values
  that refuses sensitive keys, and \<open>set_attr\<close> refines it.
\<close>

section \<open>The span\<close>

record span =
  sp_trace_id :: string
  sp_span_id :: string
  sp_parent_span_id :: string
  sp_name :: string
  sp_kind :: int
  sp_start :: int64
  sp_end :: int64
  sp_keys :: "string list"
  sp_values :: "any_value list"
  sp_index :: "string \<rightharpoonup> nat"
  sp_status_code :: int
  sp_status_message :: string
  sp_links :: "span_link list"

definition new_span ::
  "string \<Rightarrow> string \<Rightarrow> string \<Rightarrow> string \<Rightarrow> int \<Rightarrow> int64 \<Rightarrow> int64 \<Rightarrow> span" where
  "new_span trace_id span_id parent_span_id name kind start end_ns =
     \<lparr>sp_trace_id = trace_id, sp_span_id = span_id, sp_parent_span_id = parent_span_id,
      sp_name = name, sp_kind = kind, sp_start = start, sp_end = end_ns,
      sp_keys = [], sp_values = [], sp_index = Map.empty,
      sp_status_code = status_unset, sp_status_message = [], sp_links = []\<rparr>"

definition set_name :: "string \<Rightarrow> span \<Rightarrow> span" where
  "set_name name s = s\<lparr>sp_name := name\<rparr>"

definition set_end :: "int64 \<Rightarrow> span \<Rightarrow> span" where
  "set_end end_ns s = s\<lparr>sp_end := end_ns\<rparr>"

definition set_attr :: "string \<Rightarrow> any_value \<Rightarrow> span \<Rightarrow> span" where
  "set_attr key v s =
     (if is_sensitive_attribute_key key then s
      else case sp_index s key of
             Some i \<Rightarrow> s\<lparr>sp_values := (sp_values s)[i := v]\<rparr>
           | None \<Rightarrow> s\<lparr>sp_index := (sp_index s)(key \<mapsto> length (sp_keys s)),
                       sp_keys := sp_keys s @ [key],
                       sp_values := sp_values s @ [v]\<rparr>)"

definition set_string :: "string \<Rightarrow> string \<Rightarrow> span \<Rightarrow> span" where
  "set_string key val s =
     (let val' = (if equal_fold key attr_url_full then redact_url val else val)
      in set_attr key (string_value val') s)"

definition set_int :: "string \<Rightarrow> int64 \<Rightarrow> span \<Rightarrow> span" where
  "set_int key val s = set_attr key (int_value val) s"

definition set_double :: "string \<Rightarrow> f64 \<Rightarrow> span \<Rightarrow> span" where
  "set_double key val s = set_attr key (double_value val) s"

definition set_bool :: "string \<Rightarrow> bool \<Rightarrow> span \<Rightarrow> span" where
  "set_bool key val s = set_attr key (bool_value val) s"

definition set_status :: "int \<Rightarrow> string \<Rightarrow> span \<Rightarrow> span" where
  "set_status code _ s = s\<lparr>sp_status_code := code, sp_status_message := []\<rparr>"

definition add_link :: "string \<Rightarrow> string \<Rightarrow> string \<Rightarrow> span \<Rightarrow> span" where
  "add_link trace_id span_id kind s =
     s\<lparr>sp_links := sp_links s @
         [\<lparr>ln_trace_id = trace_id, ln_span_id = span_id,
           ln_attributes = [\<lparr>kv_key = ''restlytics.link.kind'', kv_value = string_value kind\<rparr>]\<rparr>]\<rparr>"

text \<open>The value recorded for a key (Go reads \<open>s.values[i]\<close> after the index lookup).\<close>

definition get_attr :: "span \<Rightarrow> string \<Rightarrow> any_value option" where
  "get_attr s key = map_option (\<lambda>i. sp_values s ! i) (sp_index s key)"

definition span_categories :: "string list" where
  "span_categories = [category_db, category_http, category_cache, category_queue, category_app]"

definition category :: "span \<Rightarrow> string" where
  "category s =
     (case get_attr s attr_category of
        Some v \<Rightarrow> (case av_string v of
                     Some c \<Rightarrow> if c \<in> set span_categories then c else category_app
                   | None \<Rightarrow> category_app)
      | None \<Rightarrow> category_app)"

definition duration_ns :: "span \<Rightarrow> int64" where
  "duration_ns s = (let d = sub64 (sp_end s) (sp_start s) in if d < 0 then 0 else d)"

definition to_data :: "span \<Rightarrow> span_data" where
  "to_data s =
     \<lparr>sd_trace_id = sp_trace_id s, sd_span_id = sp_span_id s,
      sd_parent_span_id = (if sp_parent_span_id s \<noteq> [] then sp_parent_span_id s else []),
      sd_name = sp_name s, sd_kind = sp_kind s,
      sd_start = format_int (sp_start s), sd_end = format_int (sp_end s),
      sd_attributes = map (\<lambda>i. \<lparr>kv_key = sp_keys s ! i, kv_value = sp_values s ! i\<rparr>) [0..<length (sp_keys s)],
      sd_links = sp_links s,
      sd_status = (if sp_status_code s \<noteq> status_unset
                   then Some \<lparr>st_code = sp_status_code s, st_message = sp_status_message s\<rparr> else None)\<rparr>"

section \<open>Well-formed spans\<close>

text \<open>
  The three fields of the attribute store agree, no sensitive key is in it, every value sets
  exactly one field, and no status message is kept.
\<close>

definition span_wf :: "span \<Rightarrow> bool" where
  "span_wf s \<longleftrightarrow>
     length (sp_values s) = length (sp_keys s) \<and> distinct (sp_keys s)
     \<and> (\<forall>k i. sp_index s k = Some i \<longleftrightarrow> i < length (sp_keys s) \<and> sp_keys s ! i = k)
     \<and> (\<forall>k \<in> set (sp_keys s). \<not> is_sensitive_attribute_key k)
     \<and> (\<forall>v \<in> set (sp_values s). one_field v)
     \<and> sp_status_message s = []"

named_theorems span_defs "the operations on a span"

lemmas [span_defs] =
  set_name_def set_end_def set_string_def set_int_def set_double_def set_bool_def set_status_def
  add_link_def Let_def

lemma index_none: "span_wf s \<Longrightarrow> sp_index s k = None \<longleftrightarrow> k \<notin> set (sp_keys s)"
  by (metis in_set_conv_nth not_Some_eq span_wf_def)

lemma new_span_wf [simp]: "span_wf (new_span t i p n k a b)"
  by (simp add: span_wf_def new_span_def)

lemma set_attr_cases:
  "is_sensitive_attribute_key k \<Longrightarrow> set_attr k v s = s"
  "\<not> is_sensitive_attribute_key k \<Longrightarrow> sp_index s k = Some i \<Longrightarrow>
     set_attr k v s = s\<lparr>sp_values := (sp_values s)[i := v]\<rparr>"
  "\<not> is_sensitive_attribute_key k \<Longrightarrow> sp_index s k = None \<Longrightarrow>
     set_attr k v s = s\<lparr>sp_index := (sp_index s)(k \<mapsto> length (sp_keys s)),
                       sp_keys := sp_keys s @ [k], sp_values := sp_values s @ [v]\<rparr>"
  by (simp_all add: set_attr_def)

lemma index_some: "span_wf s \<Longrightarrow> sp_index s k = Some i \<Longrightarrow> i < length (sp_keys s) \<and> sp_keys s ! i = k"
  by (simp add: span_wf_def)

lemma set_attr_wf:
  assumes "span_wf s" and "one_field v"
  shows "span_wf (set_attr k v s)"
proof (cases "is_sensitive_attribute_key k")
  case True
  with assms show ?thesis by (simp add: set_attr_cases)
next
  case False
  show ?thesis
  proof (cases "sp_index s k")
    case None
    then have "k \<notin> set (sp_keys s)" using index_none [OF assms(1)] by simp
    then show ?thesis
      using assms None False
      by (auto simp: set_attr_cases(3) span_wf_def nth_append less_Suc_eq)
  next
    case (Some i)
    then show ?thesis
      using assms set_update_subset_insert [of "sp_values s" i v] False
      unfolding set_attr_cases(2) [OF False Some] span_wf_def by auto
  qed
qed

lemma span_ops_wf [intro]:
  assumes "span_wf s"
  shows "span_wf (set_name n s)" "span_wf (set_end e s)" "span_wf (set_string k x s)"
    "span_wf (set_int k i s)" "span_wf (set_double k d s)" "span_wf (set_bool k b s)"
    "span_wf (set_status c m s)" "span_wf (add_link t sid l s)"
  using assms by (auto simp: span_defs intro!: set_attr_wf) (auto simp: span_wf_def)

section \<open>The attribute store as a map\<close>

text \<open>
  The contract of an attribute store: looking a key up after a put finds what was written,
  refused keys leave the store as it is, and a put never moves a key.
\<close>

locale attr_store =
  fixes put :: "'k \<Rightarrow> 'v \<Rightarrow> 's \<Rightarrow> 's"
    and look :: "'s \<Rightarrow> 'k \<Rightarrow> 'v option"
    and ks :: "'s \<Rightarrow> 'k list"
    and refused :: "'k \<Rightarrow> bool"
    and ok :: "'s \<Rightarrow> bool"
    and ok_val :: "'v \<Rightarrow> bool"
  assumes put_ok: "ok s \<Longrightarrow> ok_val v \<Longrightarrow> ok (put k v s)"
    and look_put: "ok s \<Longrightarrow> look (put k v s) = (if refused k then look s else (look s)(k \<mapsto> v))"
    and ks_put: "ok s \<Longrightarrow> ks (put k v s) = (if refused k \<or> k \<in> set (ks s) then ks s else ks s @ [k])"
    and look_dom: "ok s \<Longrightarrow> dom (look s) = set (ks s)"
begin

definition put_all :: "('k \<times> 'v) list \<Rightarrow> 's \<Rightarrow> 's" where
  "put_all kvs s = fold (\<lambda>(k, v). put k v) kvs s"

lemma put_all_ok: "ok s \<Longrightarrow> \<forall>(k, v) \<in> set kvs. ok_val v \<Longrightarrow> ok (put_all kvs s)"
  by (induction kvs arbitrary: s) (auto simp: put_all_def put_ok)

lemma look_put_all:
  "ok s \<Longrightarrow> \<forall>(k, v) \<in> set kvs. ok_val v \<Longrightarrow>
     look (put_all kvs s) = look s ++ map_of (rev (filter (\<lambda>(k, v). \<not> refused k) kvs))"
proof (induction kvs arbitrary: s)
  case (Cons kv kvs)
  obtain k v where kv: "kv = (k, v)" by fastforce
  have "look (put_all kvs (put k v s))
      = look (put k v s) ++ map_of (rev (filter (\<lambda>(k, v). \<not> refused k) kvs))"
    using Cons.prems kv by (intro Cons.IH) (auto simp: put_ok)
  then show ?case
    using Cons.prems kv by (simp add: put_all_def look_put map_add_assoc [symmetric])
qed (simp add: put_all_def)

lemma ks_prefix: "ok s \<Longrightarrow> \<forall>(k, v) \<in> set kvs. ok_val v \<Longrightarrow> \<exists>new. ks (put_all kvs s) = ks s @ new"
proof (induction kvs arbitrary: s)
  case (Cons kv kvs)
  obtain k v where kv: "kv = (k, v)" by fastforce
  obtain new where "ks (put_all kvs (put k v s)) = ks (put k v s) @ new"
    using Cons.prems kv Cons.IH [of "put k v s"] by (auto simp: put_ok)
  then show ?case
    using Cons.prems kv by (auto simp: put_all_def ks_put)
qed (simp add: put_all_def)

end

lemma get_attr_set_attr:
  assumes "span_wf s"
  shows "get_attr (set_attr k v s)
           = (if is_sensitive_attribute_key k then get_attr s else (get_attr s)(k \<mapsto> v))"
proof (cases "is_sensitive_attribute_key k")
  case False
  have len: "length (sp_values s) = length (sp_keys s)"
    using assms by (simp add: span_wf_def)
  show ?thesis
  proof (cases "sp_index s k")
    case None
    show ?thesis
      unfolding set_attr_cases(3) [OF False None]
      using False len index_some [OF assms] by (fastforce simp: get_attr_def nth_append map_option_case split: option.splits)
  next
    case (Some i)
    have "(sp_values s)[i := v] ! j = sp_values s ! j" if "sp_index s k' = Some j" "k' \<noteq> k" for k' j
      using index_some [OF assms that(1)] index_some [OF assms Some] that(2) by (cases "i = j") auto
    then show ?thesis
      unfolding set_attr_cases(2) [OF False Some]
      using False Some len index_some [OF assms Some]
      by (auto simp: get_attr_def fun_eq_iff map_option_case split: option.splits)
  qed
qed (simp add: set_attr_cases)

interpretation attrs: attr_store set_attr get_attr sp_keys is_sensitive_attribute_key span_wf one_field
proof unfold_locales
  fix s k v
  assume s: "span_wf s"
  show "one_field v \<Longrightarrow> span_wf (set_attr k v s)" using s by (rule set_attr_wf)
  show "get_attr (set_attr k v s)
      = (if is_sensitive_attribute_key k then get_attr s else (get_attr s)(k \<mapsto> v))"
    using s by (rule get_attr_set_attr)
  show "sp_keys (set_attr k v s)
      = (if is_sensitive_attribute_key k \<or> k \<in> set (sp_keys s) then sp_keys s else sp_keys s @ [k])"
    using index_none [OF s, of k] by (cases "sp_index s k") (auto simp: set_attr_def)
  show "dom (get_attr s) = set (sp_keys s)"
    by (auto simp: dom_def get_attr_def index_none [OF s] simp del: not_None_eq)
qed

section \<open>What reaches the wire\<close>

text \<open>Every call an instrumentation can make on a span, and a whole life of a span.\<close>

datatype span_op =
  SetName string | SetEnd int64 | SetString string string | SetInt string int64
| SetDouble string f64 | SetBool string bool | SetStatus int string
| AddLink string string string

fun apply_op :: "span_op \<Rightarrow> span \<Rightarrow> span" where
  "apply_op (SetName n) s = set_name n s"
| "apply_op (SetEnd e) s = set_end e s"
| "apply_op (SetString k v) s = set_string k v s"
| "apply_op (SetInt k v) s = set_int k v s"
| "apply_op (SetDouble k v) s = set_double k v s"
| "apply_op (SetBool k v) s = set_bool k v s"
| "apply_op (SetStatus c m) s = set_status c m s"
| "apply_op (AddLink t i k) s = add_link t i k s"

definition run_ops :: "span_op list \<Rightarrow> span \<Rightarrow> span" where
  "run_ops ops s = fold apply_op ops s"

lemma apply_op_wf: "span_wf s \<Longrightarrow> span_wf (apply_op x s)"
  by (cases x) (auto intro: span_ops_wf)

lemma run_ops_wf: "span_wf s \<Longrightarrow> span_wf (run_ops ops s)"
  by (induction ops arbitrary: s) (auto simp: run_ops_def apply_op_wf)

definition wire_attrs :: "span_data \<Rightarrow> string \<rightharpoonup> any_value" where
  "wire_attrs d = map_of (map (\<lambda>kv. (kv_key kv, kv_value kv)) (sd_attributes d))"

lemma wire_keys [simp]: "map kv_key (sd_attributes (to_data s)) = sp_keys s"
  by (simp add: to_data_def comp_def map_nth)

lemma wire_values: "span_wf s \<Longrightarrow> map kv_value (sd_attributes (to_data s)) = sp_values s"
  by (simp add: to_data_def comp_def span_wf_def) (metis map_nth)

lemma wire_attrs_to_data:
  assumes "span_wf s"
  shows "wire_attrs (to_data s) = get_attr s"
proof
  fix k
  have "map (\<lambda>kv. (kv_key kv, kv_value kv)) kvs = zip (map kv_key kvs) (map kv_value kvs)" for kvs
    by (induction kvs) auto
  then have ps: "map (\<lambda>kv. (kv_key kv, kv_value kv)) (sd_attributes (to_data s)) = zip (sp_keys s) (sp_values s)"
    by (metis wire_keys wire_values [OF assms])
  show "wire_attrs (to_data s) k = get_attr s k"
  proof (cases "sp_index s k")
    case None
    then have "k \<notin> set (sp_keys s)" using index_none [OF assms] by simp
    moreover have "length (sp_keys s) = length (sp_values s)" using assms by (simp add: span_wf_def)
    ultimately show ?thesis
      using None by (simp add: wire_attrs_def ps get_attr_def map_of_zip_is_None)
  next
    case (Some i)
    have "distinct (sp_keys s)" "length (sp_keys s) = length (sp_values s)"
      using assms by (simp_all add: span_wf_def)
    then show ?thesis
      using index_some [OF assms Some] map_of_zip_nth [of "sp_keys s" "sp_values s" i]
      by (simp add: wire_attrs_def ps get_attr_def Some)
  qed
qed

text \<open>What a receiver may rely on in the attributes and the status of a span.\<close>

definition export_safe :: "span_data \<Rightarrow> bool" where
  "export_safe d \<longleftrightarrow>
     distinct (map kv_key (sd_attributes d))
     \<and> list_all (\<lambda>kv. \<not> is_sensitive_attribute_key (kv_key kv) \<and> one_field (kv_value kv)) (sd_attributes d)
     \<and> (case sd_status d of None \<Rightarrow> True | Some st \<Rightarrow> st_message st = [])"

lemma to_data_safe:
  assumes "span_wf s"
  shows "export_safe (to_data s)"
proof -
  have "kv_key kv \<in> set (sp_keys s) \<and> kv_value kv \<in> set (sp_values s)"
    if "kv \<in> set (sd_attributes (to_data s))" for kv
    using imageI [OF that, of kv_key] imageI [OF that, of kv_value]
    by (simp flip: set_map add: wire_values [OF assms])
  then show ?thesis
    using assms by (auto simp: export_safe_def list_all_iff span_wf_def) (auto simp: to_data_def)
qed

text \<open>
  C16: whatever instrumentation does to a span, its exported form has no attribute under a sensitive
  key, no key twice, no value with other than one field set, and no status message.
\<close>
theorem span_export_safe:
  "export_safe (to_data (run_ops ops (new_span t i p n k a b)))"
  by (simp add: to_data_safe run_ops_wf)

end
