(* ===== verification/Ids.thy ===== *)
theory Ids
  imports GoStrings
begin

text \<open>
  \<open>ids.go\<close>: random trace and span ids and the W3C \<open>traceparent\<close> header.  Entropy is an
  infinite byte stream read from a position on; \<open>crypto/rand.Read\<close> takes the next block.  The
  retry loop of \<open>randomHex\<close> has no bound, so its model is a partial function, \<^const>\<open>None\<close>
  being a run that never ends.
\<close>

section \<open>Random ids\<close>

type_synonym entropy = "nat \<Rightarrow> char"

definition rand_read :: "entropy \<Rightarrow> nat \<Rightarrow> nat \<Rightarrow> string" where
  "rand_read rng pos n = map (\<lambda>k. rng (pos + k)) [0..<n]"

fun all_zero :: "string \<Rightarrow> bool" where
  "all_zero [] = True"
| "all_zero (x # b) = (if ord x \<noteq> 0 then False else all_zero b)"

partial_function (option) random_hex :: "entropy \<Rightarrow> nat \<Rightarrow> nat \<Rightarrow> (string \<times> nat) option" where
  "random_hex rng n pos =
     (let b = rand_read rng pos n in
      if \<not> all_zero b then Some (hex_encode b, pos + n)
      else random_hex rng n (pos + n))"

declare random_hex.simps [code]

definition new_trace_id :: "entropy \<Rightarrow> nat \<Rightarrow> (string \<times> nat) option" where
  "new_trace_id rng pos = random_hex rng 16 pos"

definition new_span_id :: "entropy \<Rightarrow> nat \<Rightarrow> (string \<times> nat) option" where
  "new_span_id rng pos = random_hex rng 8 pos"

section \<open>Validity checks\<close>

definition is_all_zero_hex :: "string \<Rightarrow> bool" where
  "is_all_zero_hex s \<longleftrightarrow> (if s = [] then True else list_all (\<lambda>c. c = CHR ''0'') s)"

definition is_hex :: "string \<Rightarrow> bool" where
  "is_hex s \<longleftrightarrow>
     list_all (\<lambda>c. \<not> ((ord c < ord CHR ''0'' \<or> ord c > ord CHR ''9'')
                      \<and> (ord c < ord CHR ''a'' \<or> ord c > ord CHR ''f''))) s"

definition valid_id :: "nat \<Rightarrow> string \<Rightarrow> bool" where
  "valid_id n s \<longleftrightarrow> length s = n \<and> is_hex s \<and> \<not> is_all_zero_hex s"

section \<open>traceparent\<close>

record traceparent =
  tp_trace_id :: string
  tp_parent_span_id :: string
  tp_sampled :: bool

definition parse_traceparent :: "string \<Rightarrow> traceparent option" where
  "parse_traceparent header =
     (let h = to_lower (trim_space header) in
      if h = [] then None
      else case split_on (CHR ''-'') h of
        [version, trace_id, span_id, flags] \<Rightarrow>
          if length version \<noteq> 2 \<or> length trace_id \<noteq> 32 \<or> length span_id \<noteq> 16 \<or> length flags \<noteq> 2
          then None
          else if \<not> is_hex version \<or> \<not> is_hex trace_id \<or> \<not> is_hex span_id \<or> \<not> is_hex flags
          then None
          else if is_all_zero_hex trace_id \<or> is_all_zero_hex span_id
          then None
          else (case parse_uint 16 8 flags of
                  None \<Rightarrow> None
                | Some flags_byte \<Rightarrow>
                    Some \<lparr>tp_trace_id = trace_id, tp_parent_span_id = span_id,
                          tp_sampled = (flags_byte mod 2 = 1)\<rparr>)
      | _ \<Rightarrow> None)"

definition format_traceparent :: "string \<Rightarrow> string \<Rightarrow> bool \<Rightarrow> string" where
  "format_traceparent trace_id span_id sampled =
     (let flags = (if sampled then ''01'' else ''00'')
      in ''00-'' @ trace_id @ ''-'' @ span_id @ ''-'' @ flags)"

definition valid_traceparent :: "traceparent \<Rightarrow> bool" where
  "valid_traceparent tp \<longleftrightarrow> valid_id 32 (tp_trace_id tp) \<and> valid_id 16 (tp_parent_span_id tp)"

section \<open>Lemmas on hex text\<close>

lemma is_hex_Cons [simp]:
  "is_hex (c # s) \<longleftrightarrow> (in_range 48 57 (ord c) \<or> in_range 97 102 (ord c)) \<and> is_hex s"
  by (auto simp: is_hex_def in_range_def)

lemma is_hex_simps [simp]:
  "is_hex []"
  "is_hex (s @ t) \<longleftrightarrow> is_hex s \<and> is_hex t"
  by (auto simp: is_hex_def)

lemma hex_chars: "is_hex s \<Longrightarrow> c \<in> set s \<Longrightarrow> in_range 48 57 (ord c) \<or> in_range 97 102 (ord c)"
  by (induction s) auto

lemma hex_ascii: "is_hex s \<Longrightarrow> is_ascii s"
  by (induction s) (auto simp: is_ascii_def in_range_def)

lemma hex_no_dash: "is_hex s \<Longrightarrow> CHR ''-'' \<notin> set s"
  by (auto dest!: hex_chars simp: in_range_def)

lemma hex_lower: "is_hex s \<Longrightarrow> map lower_char s = s"
  by (induction s) (auto simp: lower_char_def in_range_def)

lemma hex_not_space: "is_hex s \<Longrightarrow> c \<in> set s \<Longrightarrow> \<not> is_space (ord c)"
  by (drule hex_chars, assumption) (auto simp: is_space_def in_range_def)

lemma digit_char_hex: "d < 16 \<Longrightarrow> in_range 48 57 (ord (digit_char d)) \<or> in_range 97 102 (ord (digit_char d))"
  by (auto simp: digit_char_def in_range_def)

lemma digit_char_zero: "d < 16 \<Longrightarrow> digit_char d = CHR ''0'' \<longleftrightarrow> d = 0"
proof -
  assume d: "d < 16"
  have "digit_char d = CHR ''0'' \<longleftrightarrow> ord (digit_char d) = ord CHR ''0''"
    by (simp only: ord_inject)
  also have "\<dots> \<longleftrightarrow> d = 0"
    using d by (auto simp: digit_char_def)
  finally show ?thesis .
qed

lemma hex_encode_Cons [simp]: "hex_encode (c # b) = hex_byte c @ hex_encode b"
  by (simp add: hex_encode_def)

lemma hex_encode_Nil [simp]: "hex_encode [] = []"
  by (simp add: hex_encode_def)

lemma hex_encode_is_hex [simp]: "is_hex (hex_encode b)"
  by (induction b) (auto simp: hex_byte_def digit_char_hex)

lemma length_hex_encode [simp]: "length (hex_encode b) = 2 * length b"
  by (induction b) (simp_all add: hex_byte_def)

lemma hex_byte_zero: "list_all (\<lambda>c. c = CHR ''0'') (hex_byte c) \<longleftrightarrow> ord c = 0"
proof -
  have "ord c mod 16 < 16" by simp
  then show ?thesis
    using div_mult_mod_eq [of "ord c" 16] by (auto simp: hex_byte_def digit_char_zero)
qed

lemma hex_encode_zero: "list_all (\<lambda>c. c = CHR ''0'') (hex_encode b) \<longleftrightarrow> all_zero b"
proof (induction b)
  case (Cons c b)
  then show ?case
    using hex_byte_zero [of c] by simp
qed simp

lemma hex_encode_valid:
  "b \<noteq> [] \<Longrightarrow> \<not> all_zero b \<Longrightarrow> valid_id (2 * length b) (hex_encode b)"
  by (auto simp: valid_id_def is_all_zero_hex_def hex_encode_zero dest: arg_cong [where f = length])

section \<open>Random ids are valid, and the retry loop ends\<close>

lemma length_rand_read [simp]: "length (rand_read rng pos n) = n"
  by (simp add: rand_read_def)

lemma all_zero_iff: "all_zero b \<longleftrightarrow> (\<forall>x \<in> set b. ord x = 0)"
  by (induction b) auto

lemma random_hex_at:
  assumes "\<forall>j < k. all_zero (rand_read rng (pos + j * n) n)"
    and "\<not> all_zero (rand_read rng (pos + k * n) n)"
  shows "random_hex rng n pos = Some (hex_encode (rand_read rng (pos + k * n) n), pos + k * n + n)"
  using assms
proof (induction k arbitrary: pos)
  case 0
  then show ?case by (simp add: random_hex.simps)
next
  case (Suc k)
  have "all_zero (rand_read rng pos n)"
    using Suc.prems(1) by fastforce
  moreover have "\<forall>j < k. all_zero (rand_read rng (pos + n + j * n) n)"
  proof (intro allI impI)
    fix j assume "j < k"
    then show "all_zero (rand_read rng (pos + n + j * n) n)"
      using Suc.prems(1) [rule_format, of "Suc j"] by (simp add: algebra_simps)
  qed
  ultimately show ?case
    using Suc.IH [of "pos + n"] Suc.prems(2) by (simp add: random_hex.simps [of rng n pos] algebra_simps)
qed

lemma random_hex_block:
  assumes "random_hex rng n pos = Some r"
  shows "\<exists>k. r = (hex_encode (rand_read rng (pos + k * n) n), pos + k * n + n)
             \<and> \<not> all_zero (rand_read rng (pos + k * n) n)"
proof (rule random_hex.raw_induct
    [where P = "\<lambda>rng n pos r. \<exists>k. r = (hex_encode (rand_read rng (pos + k * n) n), pos + k * n + n)
             \<and> \<not> all_zero (rand_read rng (pos + k * n) n)", OF _ assms])
  fix f :: "entropy \<Rightarrow> nat \<Rightarrow> nat \<Rightarrow> (string \<times> nat) option" and rng n pos r
  assume IH: "\<And>rng n pos r. f rng n pos = Some r \<Longrightarrow>
      \<exists>k. r = (hex_encode (rand_read rng (pos + k * n) n), pos + k * n + n)
             \<and> \<not> all_zero (rand_read rng (pos + k * n) n)"
    and eq: "(let b = rand_read rng pos n in if \<not> all_zero b then Some (hex_encode b, pos + n)
                else f rng n (pos + n)) = Some r"
  show "\<exists>k. r = (hex_encode (rand_read rng (pos + k * n) n), pos + k * n + n)
             \<and> \<not> all_zero (rand_read rng (pos + k * n) n)"
  proof (cases "all_zero (rand_read rng pos n)")
    case True
    with eq have "f rng n (pos + n) = Some r" by simp
    then obtain k where "r = (hex_encode (rand_read rng (pos + n + k * n) n), pos + n + k * n + n)"
        and "\<not> all_zero (rand_read rng (pos + n + k * n) n)"
      using IH by blast
    then show ?thesis by (intro exI [of _ "Suc k"]) (simp add: algebra_simps)
  next
    case False
    with eq show ?thesis by (intro exI [of _ 0]) simp
  qed
qed

lemma random_hex_valid:
  assumes "random_hex rng n pos = Some (s, pos')" and "0 < n"
  shows "valid_id (2 * n) s" and "pos < pos'"
proof -
  obtain k where s: "s = hex_encode (rand_read rng (pos + k * n) n)" and p: "pos' = pos + k * n + n"
      and nz: "\<not> all_zero (rand_read rng (pos + k * n) n)"
    using random_hex_block [OF assms(1)] by auto
  show "valid_id (2 * n) s"
    using hex_encode_valid [OF _ nz] assms(2) s by (simp add: rand_read_def)
  show "pos < pos'"
    using p assms(2) by simp
qed

lemma nonzero_block:
  assumes "pos \<le> i" and "ord (rng i) \<noteq> 0" and "0 < n"
  shows "\<not> all_zero (rand_read rng (pos + (i - pos) div n * n) n)"
proof -
  let ?k = "(i - pos) div n" and ?r = "(i - pos) mod n"
  have "i = pos + ?k * n + ?r"
    using assms(1) div_mult_mod_eq [of "i - pos" n] by linarith
  moreover have "?r < n" using assms(3) by simp
  ultimately have "rng i \<in> set (rand_read rng (pos + ?k * n) n)"
    by (auto simp: rand_read_def intro!: image_eqI [of _ _ ?r])
  with assms(2) show ?thesis
    by (auto simp: all_zero_iff)
qed

lemma random_hex_returns:
  assumes "pos \<le> i" and "ord (rng i) \<noteq> 0" and "0 < n"
  shows "\<exists>s pos'. random_hex rng n pos = Some (s, pos')"
proof -
  let ?P = "\<lambda>k. \<not> all_zero (rand_read rng (pos + k * n) n)"
  define k where "k = (LEAST k. ?P k)"
  have "?P k"
    unfolding k_def by (rule LeastI [of ?P, OF nonzero_block [of pos i rng n, OF assms]])
  moreover have "\<forall>j < k. \<not> ?P j"
    unfolding k_def using not_less_Least by blast
  ultimately show ?thesis
    using random_hex_at [of k rng pos n] by blast
qed

section \<open>traceparent: printing and parsing\<close>

lemma trim_func_none:
  assumes "s = [] \<or> (\<not> f (fst (hd (segments s))) \<and> \<not> f (fst (last (segments s))))"
  shows "trim_func f s = s"
proof (cases "segments s = []")
  case True
  have "bytes_of (segments s) = s" by simp
  with True show ?thesis by (simp add: trim_func_def)
next
  case False
  then have "s \<noteq> []" by auto
  then have "dropWhile (\<lambda>(r, _). f r) (segments s) = segments s"
    and "dropWhile (\<lambda>(r, _). f r) (rev (segments s)) = rev (segments s)"
    using assms False by (auto intro!: dropWhile_none simp: hd_rev split: prod.splits)
  then show ?thesis by (simp add: trim_func_def)
qed

lemma trim_space_ascii:
  assumes "is_ascii s" and "s = [] \<or> (\<not> is_space (ord (hd s)) \<and> \<not> is_space (ord (last s)))"
  shows "trim_space s = s"
  using assms
  by (auto simp: trim_space_def segments_ascii hd_map last_map intro!: trim_func_none)

definition dashed :: "string \<Rightarrow> string \<Rightarrow> string \<Rightarrow> string \<Rightarrow> string" where
  "dashed v t s f = v @ ''-'' @ t @ ''-'' @ s @ ''-'' @ f"

lemma split_dashed:
  assumes "is_hex v" "is_hex t" "is_hex s" "is_hex f"
  shows "split_on (CHR ''-'') (dashed v t s f) = [v, t, s, f]"
  using assms by (simp add: dashed_def split_on_append split_on_no_sep hex_no_dash)

lemma split_four:
  assumes "split_on (CHR ''-'') h = [v, t, s, f]"
  shows "h = dashed v t s f"
proof -
  have "h = join_with ''-'' (split_on (CHR ''-'') h)" by simp
  then show ?thesis unfolding assms by (simp add: dashed_def)
qed

lemma digit_val_hex:
  "in_range 48 57 (ord c) \<or> in_range 97 102 (ord c) \<Longrightarrow> \<exists>d. digit_val c = Some d \<and> d < 16"
  by (auto simp: digit_val_def in_range_def Let_def)

lemma parse_uint_two_hex:
  assumes "is_hex f" and "length f = 2"
  shows "\<exists>n. parse_uint 16 8 f = Some n \<and> n < 256"
proof -
  obtain a b where f: "f = [a, b]"
    using assms(2) by (auto simp: length_Suc_conv numeral_2_eq_2)
  obtain x y where "digit_val a = Some x" "x < 16" "digit_val b = Some y" "y < 16"
    using assms(1) f digit_val_hex by (metis is_hex_Cons)
  then show ?thesis
    by (auto simp: f parse_uint_def)
qed

text \<open>The parser accepts exactly the texts of the W3C shape, and reads the sampled bit off the flags.\<close>

lemma parse_traceparent_dashed:
  assumes "to_lower (trim_space header) = dashed v t s f"
    and "length v = 2" "is_hex v" "valid_id 32 t" "valid_id 16 s" "length f = 2" "is_hex f"
    and "parse_uint 16 8 f = Some n"
  shows "parse_traceparent header
           = Some \<lparr>tp_trace_id = t, tp_parent_span_id = s, tp_sampled = (n mod 2 = 1)\<rparr>"
proof -
  have "split_on (CHR ''-'') (dashed v t s f) = [v, t, s, f]"
    using assms by (intro split_dashed) (auto simp: valid_id_def)
  moreover have "dashed v t s f \<noteq> []" by (simp add: dashed_def)
  ultimately show ?thesis
    using assms by (simp add: parse_traceparent_def valid_id_def)
qed

lemma parse_traceparent_shape:
  assumes "parse_traceparent header = Some tp"
  shows "\<exists>v f n. to_lower (trim_space header) = dashed v (tp_trace_id tp) (tp_parent_span_id tp) f
           \<and> length v = 2 \<and> is_hex v \<and> length f = 2 \<and> is_hex f \<and> parse_uint 16 8 f = Some n
           \<and> valid_traceparent tp \<and> tp_sampled tp = (n mod 2 = 1)"
  using assms
  by (auto simp: parse_traceparent_def Let_def valid_traceparent_def valid_id_def
      dest!: split_four split: if_splits list.splits option.splits) blast+

lemma format_traceparent_dashed:
  "format_traceparent t s b = dashed ''00'' t s (if b then ''01'' else ''00'')"
  by (simp add: format_traceparent_def dashed_def)

lemma dashed_canonical:
  assumes "is_hex v" "is_hex t" "is_hex s" "is_hex f" "v \<noteq> []" "f \<noteq> []"
  shows "to_lower (trim_space (dashed v t s f)) = dashed v t s f"
proof -
  have "is_ascii (dashed v t s f)"
    using assms(1-4)[THEN hex_ascii] by (simp add: dashed_def is_ascii_def)
  moreover have "hd (dashed v t s f) \<in> set v" "last (dashed v t s f) \<in> set f"
    using assms(5,6) by (simp_all add: dashed_def hd_append)
  then have "\<not> is_space (ord (hd (dashed v t s f)))" "\<not> is_space (ord (last (dashed v t s f)))"
    using assms hex_not_space by blast+
  moreover have "map lower_char (dashed v t s f) = dashed v t s f"
    using assms by (simp add: dashed_def hex_lower lower_char_def in_range_def)
  ultimately show ?thesis
    by (simp add: trim_space_ascii to_lower_ascii)
qed

lemma parse_format_traceparent:
  assumes "valid_id 32 t" "valid_id 16 s"
  shows "parse_traceparent (format_traceparent t s b)
           = Some \<lparr>tp_trace_id = t, tp_parent_span_id = s, tp_sampled = b\<rparr>"
proof -
  have hex: "is_hex t" "is_hex s"
    using assms by (simp_all add: valid_id_def)
  have canon: "to_lower (trim_space (dashed ''00'' t s f)) = dashed ''00'' t s f"
    if "f \<in> {''00'', ''01''}" for f
    using hex that by (intro dashed_canonical) (auto simp: in_range_def)
  show ?thesis
    unfolding format_traceparent_dashed
    using assms canon parse_traceparent_dashed [of _ "''00''" t s "if b then ''01'' else ''00''" "if b then 1 else 0"]
    by (cases b) (auto simp: in_range_def parse_uint_def digit_val_def)
qed

definition print_traceparent :: "traceparent \<Rightarrow> string" where
  "print_traceparent tp = format_traceparent (tp_trace_id tp) (tp_parent_span_id tp) (tp_sampled tp)"

interpretation tpc: codec print_traceparent parse_traceparent valid_traceparent
  by unfold_locales (simp add: print_traceparent_def valid_traceparent_def parse_format_traceparent)

section \<open>Properties\<close>

text \<open>
  C18: \<open>ParseTraceparent\<close> accepts exactly the headers that, trimmed and lowercased, are four hex
  fields of lengths 2, 32, 16 and 2 joined by dashes with neither id all zero; it returns those two
  ids and the lowest bit of the flags.
\<close>
theorem traceparent_accepts_exactly:
  "parse_traceparent header = Some tp \<longleftrightarrow>
     (\<exists>v f n. to_lower (trim_space header) = dashed v (tp_trace_id tp) (tp_parent_span_id tp) f
        \<and> length v = 2 \<and> is_hex v \<and> length f = 2 \<and> is_hex f \<and> parse_uint 16 8 f = Some n
        \<and> valid_id 32 (tp_trace_id tp) \<and> valid_id 16 (tp_parent_span_id tp)
        \<and> tp_sampled tp = (n mod 2 = 1))"
  (is "_ \<longleftrightarrow> ?shape")
proof
  show "parse_traceparent header = Some tp \<Longrightarrow> ?shape"
    by (drule parse_traceparent_shape) (auto simp: valid_traceparent_def)
  assume ?shape
  then show "parse_traceparent header = Some tp"
    using parse_traceparent_dashed by (cases tp) fastforce
qed

text \<open>
  C19: \<open>FormatTraceparent\<close> and \<open>ParseTraceparent\<close> round-trip: a header built from valid ids is
  parsed back to the same ids and flag.
\<close>
theorem traceparent_round_trip:
  assumes "valid_traceparent tp"
  shows "parse_traceparent (format_traceparent (tp_trace_id tp) (tp_parent_span_id tp) (tp_sampled tp)) = Some tp"
  using tpc.dec_enc [OF assms] by (simp add: print_traceparent_def)

lemma traceparent_round_trip_witness:
  "parse_traceparent (''00-0af7651916cd43dd8448eb211c80319c-b7ad6b7169203331-01'')
     = Some \<lparr>tp_trace_id = ''0af7651916cd43dd8448eb211c80319c'', tp_parent_span_id = ''b7ad6b7169203331'',
             tp_sampled = True\<rparr>"
proof -
  let ?tp = "\<lparr>tp_trace_id = ''0af7651916cd43dd8448eb211c80319c'', tp_parent_span_id = ''b7ad6b7169203331'',
             tp_sampled = True\<rparr>"
  have "valid_traceparent ?tp" by code_simp
  from traceparent_round_trip [OF this] show ?thesis by (simp add: format_traceparent_def)
qed

lemma random_hex_facts:
  assumes "0 < n"
  shows "(\<exists>s pos'. random_hex rng n pos = Some (s, pos')) \<longleftrightarrow> (\<exists>i \<ge> pos. ord (rng i) \<noteq> 0)"
    and "\<forall>s pos'. random_hex rng n pos = Some (s, pos') \<longrightarrow> valid_id (2 * n) s \<and> pos < pos'"
proof -
  show "\<forall>s pos'. random_hex rng n pos = Some (s, pos') \<longrightarrow> valid_id (2 * n) s \<and> pos < pos'"
    using random_hex_valid assms by blast
  have "\<exists>i \<ge> pos. ord (rng i) \<noteq> 0" if r: "random_hex rng n pos = Some (s, pos')" for s pos'
  proof -
    obtain k where "\<not> all_zero (rand_read rng (pos + k * n) n)"
      using random_hex_block [OF r] by auto
    then obtain j where "ord (rng (pos + k * n + j)) \<noteq> 0"
      by (auto simp: all_zero_iff rand_read_def)
    then show ?thesis by (intro exI [of _ "pos + k * n + j"]) simp
  qed
  then show "(\<exists>s pos'. random_hex rng n pos = Some (s, pos')) \<longleftrightarrow> (\<exists>i \<ge> pos. ord (rng i) \<noteq> 0)"
    using random_hex_returns assms by blast
qed

text \<open>
  \<open>randomHex\<close> returns exactly when the entropy source has a nonzero byte ahead, and what it
  returns is a valid id of twice as many hex digits, read from fresh entropy.
\<close>
theorem random_hex_returns_valid:
  assumes "0 < n"
  shows "((\<exists>s pos'. random_hex rng n pos = Some (s, pos')) \<longleftrightarrow> (\<exists>i \<ge> pos. ord (rng i) \<noteq> 0))
    \<and> (\<forall>s pos'. random_hex rng n pos = Some (s, pos') \<longrightarrow> valid_id (2 * n) s \<and> pos < pos')"
  using random_hex_facts [OF assms] by blast

lemma random_hex_returns_valid_witness:
  "(0::nat) < 8 \<and> (\<exists>s pos'. random_hex (\<lambda>i. if i = 20 then CHR ''x'' else CHR 0x00) 8 3 = Some (s, pos'))"
proof -
  have "\<exists>i \<ge> (3::nat). ord (if i = 20 then CHR ''x'' else CHR 0x00) \<noteq> 0"
    by (rule exI [of _ 20]) simp
  then show ?thesis using random_hex_returns_valid [of 8] by simp
qed

end
