(* ===== verification/Runtime.thy ===== *)
theory Runtime
  imports Span Ids "HOL-Library.Monad_Syntax"
begin

text \<open>
  What the request path shares: the configuration record (\<open>config.go\<close>), contexts, the state of one
  request (\<open>requestState\<close> of \<open>tracer.go\<close>) and the world the SDK runs in.  The world holds the
  entropy and the clock, both read in order, the heap of request states that contexts point into,
  and the payloads handed to \<open>Transport.Send\<close>, oldest first.  An operation that draws random ids
  is partial: \<^const>\<open>None\<close> is an entropy source that stays all-zero for ever.
\<close>

section \<open>Configuration\<close>

text \<open>
  Interface values (a customer's exporter, a custom transport) are opaque: an identity, or
  \<^const>\<open>None\<close> for nil.
\<close>

type_synonym iface = nat

record config =
  cf_key :: string
  cf_ingest_url :: string
  cf_service_name :: string
  cf_environment :: string
  cf_sample_rate :: f64
  cf_transport :: string
  cf_timeout_ms :: int
  cf_capture_sql :: bool
  cf_max_spans :: int
  cf_logs :: bool
  cf_logs_min_severity :: int
  cf_instrument_db :: "bool option"
  cf_instrument_http :: "bool option"
  cf_instrument_cache :: "bool option"
  cf_ignore_paths :: "string list option"
  cf_redaction_query_keys :: "string list option"
  cf_custom_exporter :: "iface option"
  cf_custom_transport :: "iface option"
  cf_custom_logs_transport :: "iface option"

definition config_enabled :: "config \<Rightarrow> bool" where
  "config_enabled c \<longleftrightarrow>
     cf_key c \<noteq> [] \<or> cf_custom_exporter c \<noteq> None \<or> cf_custom_transport c \<noteq> None
     \<or> cf_custom_logs_transport c \<noteq> None \<or> equal_fold (cf_transport c) ''preview''"

section \<open>Contexts and request states\<close>

text \<open>
  A context is the list of the values it carries, innermost first; a nil context is
  \<^const>\<open>None\<close>.  The request state is carried by pointer: an index into the heap.
\<close>

datatype ctx_entry = CtxState nat | CtxRoute string

type_synonym ctx = "ctx_entry list"

record request_state =
  rs_enabled :: bool
  rs_sampled :: bool
  rs_trace_id :: string
  rs_root_span_id :: string
  rs_root_span :: "span option"
  rs_raw_spans :: "span list"
  rs_db_query_count :: int64
  rs_root_category :: string
  rs_max_spans :: int
  rs_cfg :: config
  rs_transport :: iface

record world =
  w_rng :: entropy
  w_pos :: nat
  w_clock :: "nat \<Rightarrow> int64"
  w_tick :: nat
  w_requests :: "request_state list"
  w_sent :: "(iface \<times> trace_request) list"

fun ctx_state :: "ctx \<Rightarrow> nat option" where
  "ctx_state [] = None"
| "ctx_state (CtxState a # _) = Some a"
| "ctx_state (CtxRoute _ # ctx) = ctx_state ctx"

fun ctx_route :: "ctx \<Rightarrow> string option" where
  "ctx_route [] = None"
| "ctx_route (CtxRoute r # _) = Some r"
| "ctx_route (CtxState _ # ctx) = ctx_route ctx"

text \<open>\<open>fromContext\<close>: the address of the request state, if the context carries one.\<close>

definition from_context :: "ctx option \<Rightarrow> nat option" where
  "from_context c = (case c of None \<Rightarrow> None | Some ctx \<Rightarrow> ctx_state ctx)"

definition request_at :: "world \<Rightarrow> nat \<Rightarrow> request_state option" where
  "request_at w a = (if a < length (w_requests w) then Some (w_requests w ! a) else None)"

definition request_of :: "ctx option \<Rightarrow> world \<Rightarrow> (nat \<times> request_state) option" where
  "request_of c w =
     (case from_context c of
        None \<Rightarrow> None
      | Some a \<Rightarrow> map_option (\<lambda>st. (a, st)) (request_at w a))"

definition put_request :: "nat \<Rightarrow> request_state \<Rightarrow> world \<Rightarrow> world" where
  "put_request a st w = w\<lparr>w_requests := (w_requests w)[a := st]\<rparr>"

section \<open>Entropy and clock\<close>

definition fresh_trace_id :: "world \<Rightarrow> (string \<times> world) option" where
  "fresh_trace_id w = map_option (\<lambda>(i, pos). (i, w\<lparr>w_pos := pos\<rparr>)) (new_trace_id (w_rng w) (w_pos w))"

definition fresh_span_id :: "world \<Rightarrow> (string \<times> world) option" where
  "fresh_span_id w = map_option (\<lambda>(i, pos). (i, w\<lparr>w_pos := pos\<rparr>)) (new_span_id (w_rng w) (w_pos w))"

definition now_ns :: "world \<Rightarrow> int64 \<times> world" where
  "now_ns w = (wrap64 (w_clock w (w_tick w)), w\<lparr>w_tick := Suc (w_tick w)\<rparr>)"

section \<open>Lemmas\<close>

lemma fresh_trace_id_SomeD:
  "fresh_trace_id w = Some (i, w') \<Longrightarrow>
     valid_id 32 i \<and> (\<exists>pos. w' = w\<lparr>w_pos := pos\<rparr>)"
  using random_hex_valid [of _ 16]
  by (fastforce simp: fresh_trace_id_def new_trace_id_def)

lemma fresh_span_id_SomeD:
  "fresh_span_id w = Some (i, w') \<Longrightarrow>
     valid_id 16 i \<and> (\<exists>pos. w' = w\<lparr>w_pos := pos\<rparr>)"
  using random_hex_valid [of _ 8]
  by (fastforce simp: fresh_span_id_def new_span_id_def)

text \<open>An entropy source with nonzero bytes for ever never makes an operation hang.\<close>

definition lively :: "world \<Rightarrow> bool" where
  "lively w \<longleftrightarrow> (\<forall>n. \<exists>i \<ge> n. ord (w_rng w i) \<noteq> 0)"

lemma fresh_ids_return:
  assumes "lively w"
  shows "\<exists>i w'. fresh_trace_id w = Some (i, w')" and "\<exists>i w'. fresh_span_id w = Some (i, w')"
proof -
  obtain i where i: "w_pos w \<le> i" "ord (w_rng w i) \<noteq> 0"
    using assms unfolding lively_def by blast
  show "\<exists>i w'. fresh_trace_id w = Some (i, w')" and "\<exists>i w'. fresh_span_id w = Some (i, w')"
    using random_hex_returns [of "w_pos w" i "w_rng w" 16, OF i] random_hex_returns [of "w_pos w" i "w_rng w" 8, OF i]
    by (auto simp: fresh_trace_id_def fresh_span_id_def new_trace_id_def new_span_id_def)
qed

lemma request_of_SomeD:
  "request_of c w = Some (a, st) \<Longrightarrow>
     from_context c = Some a \<and> a < length (w_requests w) \<and> w_requests w ! a = st"
  by (auto simp: request_of_def request_at_def split: option.splits if_splits)

lemma put_request_simps [simp]:
  "w_sent (put_request a st w) = w_sent w"
  "w_rng (put_request a st w) = w_rng w"
  "w_pos (put_request a st w) = w_pos w"
  "w_clock (put_request a st w) = w_clock w"
  "w_tick (put_request a st w) = w_tick w"
  "length (w_requests (put_request a st w)) = length (w_requests w)"
  by (simp_all add: put_request_def)

lemma put_request_nth:
  "b < length (w_requests w) \<Longrightarrow>
     w_requests (put_request a st w) ! b = (if b = a then st else w_requests w ! b)"
  by (simp add: put_request_def nth_list_update)

lemma now_ns_simps [simp]:
  "w_requests (snd (now_ns w)) = w_requests w"
  "w_sent (snd (now_ns w)) = w_sent w"
  "w_rng (snd (now_ns w)) = w_rng w"
  "in64 (fst (now_ns w))"
  by (simp_all add: now_ns_def wrap64_in64)

end
