(* ===== verification/Intervals.thy ===== *)
theory Intervals
  imports Prelude "HOL-Library.Multiset"
begin

text \<open>
  \<open>intervals.go\<close>: the length of a union of time intervals by a sweep over the intervals in the
  order of their starts.  The specification is the number of nanosecond instants the intervals
  cover.  \<open>sort.Slice\<close> promises an order by start and nothing about ties; the sweep is modelled
  as a function of the sorted slice, so that every order the sort may produce is covered.
\<close>

section \<open>The sweep\<close>

record interval =
  iv_start :: int64
  iv_end :: int64

fun sweep :: "int64 \<Rightarrow> int64 \<Rightarrow> int64 \<Rightarrow> interval list \<Rightarrow> int64" where
  "sweep tot cur_start cur_end [] = add64 tot (sub64 cur_end cur_start)"
| "sweep tot cur_start cur_end (iv # rest) =
     (let s = iv_start iv; e = iv_end iv in
      if s > cur_end then sweep (add64 tot (sub64 cur_end cur_start)) s e rest
      else if e > cur_end then sweep tot cur_start e rest
      else sweep tot cur_start cur_end rest)"

fun sweep_sorted :: "interval list \<Rightarrow> int64" where
  "sweep_sorted [] = 0"
| "sweep_sorted (iv # rest) = sweep 0 (iv_start iv) (iv_end iv) rest"

definition union_length :: "interval list \<Rightarrow> int64" where
  "union_length intervals = sweep_sorted (sort_key iv_start intervals)"

section \<open>What it measures\<close>

definition instants :: "interval \<Rightarrow> int set" where
  "instants iv = {iv_start iv ..< iv_end iv}"

definition covered :: "interval list \<Rightarrow> int set" where
  "covered ivs = (\<Union>iv \<in> set ivs. instants iv)"

definition fits :: "int \<Rightarrow> int \<Rightarrow> interval list \<Rightarrow> bool" where
  "fits lo hi ivs \<longleftrightarrow>
     list_all (\<lambda>iv. lo \<le> iv_start iv \<and> iv_start iv \<le> iv_end iv \<and> iv_end iv \<le> hi) ivs"

lemma covered_simps [simp]:
  "covered [] = {}"
  "covered (iv # ivs) = instants iv \<union> covered ivs"
  "covered (xs @ ys) = covered xs \<union> covered ys"
  by (auto simp: covered_def)

lemma finite_covered [simp]: "finite (covered ivs)"
  by (simp add: covered_def instants_def)

lemma fits_simps [simp]:
  "fits lo hi []"
  "fits lo hi (iv # ivs) \<longleftrightarrow>
     lo \<le> iv_start iv \<and> iv_start iv \<le> iv_end iv \<and> iv_end iv \<le> hi \<and> fits lo hi ivs"
  "fits lo hi (xs @ ys) \<longleftrightarrow> fits lo hi xs \<and> fits lo hi ys"
  by (simp_all add: fits_def)

lemma fits_set: "fits lo hi xs \<Longrightarrow> set ys \<subseteq> set xs \<Longrightarrow> fits lo hi ys"
  by (auto simp: fits_def list_all_iff)

lemma covered_window: "fits lo hi ivs \<Longrightarrow> covered ivs \<subseteq> {lo ..< hi}"
  by (fastforce simp: covered_def instants_def fits_def list_all_iff)

lemma card_covered_window:
  assumes "fits lo hi ivs" and "lo \<le> hi"
  shows "int (card (covered ivs)) \<le> hi - lo"
proof -
  have "card (covered ivs) \<le> card {lo ..< hi}"
    using covered_window [OF assms(1)] by (intro card_mono) auto
  with assms(2) show ?thesis by simp
qed

lemma covered_from: "\<forall>iv \<in> set ivs. a \<le> iv_start iv \<Longrightarrow> covered ivs \<subseteq> {a ..}"
  by (fastforce simp: covered_def instants_def)

lemma add64_bounded: "0 \<le> a \<Longrightarrow> 0 \<le> b \<Longrightarrow> a + b \<le> max_int64 \<Longrightarrow> add64 a b = a + b"
  by (rule add64_exact) (simp add: in64_def min_int64_def)

lemma sub64_bounded: "b \<le> a \<Longrightarrow> a - b \<le> max_int64 \<Longrightarrow> sub64 a b = a - b"
  by (rule sub64_exact) (simp add: in64_def min_int64_def)

lemma sweep_measures:
  assumes "sorted (map iv_start rest)" and "\<forall>iv \<in> set rest. cs \<le> iv_start iv"
    and "fits cs hi rest" and "cs \<le> ce" and "ce \<le> hi"
    and "0 \<le> tot" and "tot + (hi - cs) \<le> max_int64"
  shows "sweep tot cs ce rest = tot + int (card ({cs ..< ce} \<union> covered rest))"
  using assms
proof (induction rest arbitrary: tot cs ce)
  case Nil
  then show ?case by (simp add: sub64_bounded add64_bounded)
next
  case (Cons iv rest)
  let ?s = "iv_start iv" and ?e = "iv_end iv"
  have iv: "cs \<le> ?s" "?s \<le> ?e" "?e \<le> hi" and rest: "fits cs hi rest"
    and later: "\<forall>x \<in> set rest. ?s \<le> iv_start x" and sorted: "sorted (map iv_start rest)"
    using Cons.prems by auto
  show ?case
  proof (cases "?s > ce")
    case True
    have "fits ?s hi rest"
      using rest later by (auto simp: fits_def list_all_iff)
    then have "sweep (tot + (ce - cs)) ?s ?e rest
        = tot + (ce - cs) + int (card ({?s ..< ?e} \<union> covered rest))"
      using Cons.prems iv later sorted True by (intro Cons.IH) auto
    moreover have "{cs ..< ce} \<inter> ({?s ..< ?e} \<union> covered rest) = {}"
      using covered_from [OF later] True by fastforce
    then have "int (card ({cs ..< ce} \<union> ({?s ..< ?e} \<union> covered rest)))
        = (ce - cs) + int (card ({?s ..< ?e} \<union> covered rest))"
      using Cons.prems by (subst card_Un_disjoint) auto
    moreover have "add64 tot (sub64 ce cs) = tot + (ce - cs)"
      using Cons.prems by (simp add: sub64_bounded add64_bounded)
    ultimately show ?thesis
      using True by (simp add: instants_def Un_assoc Un_left_commute)
  next
    case False
    let ?m = "max ce ?e"
    have "{cs ..< ce} \<union> {?s ..< ?e} = {cs ..< ?m}"
      using False iv Cons.prems by auto
    moreover have "sweep tot cs ?m rest = tot + int (card ({cs ..< ?m} \<union> covered rest))"
      using Cons.prems iv sorted by (intro Cons.IH) auto
    ultimately show ?thesis
      using False
      by (cases "?e > ce") (simp_all add: instants_def Un_assoc [symmetric] max_def Let_def)
  qed
qed

lemma sweep_sorted_measures:
  assumes "sorted (map iv_start ivs)" and "fits lo hi ivs" and "hi - lo \<le> max_int64"
  shows "sweep_sorted ivs = int (card (covered ivs))"
proof (cases ivs)
  case (Cons iv rest)
  have "fits (iv_start iv) hi rest"
    using assms Cons by (auto simp: fits_def list_all_iff)
  with Cons assms show ?thesis
    using sweep_measures [of rest "iv_start iv" hi "iv_end iv" 0] by (simp add: instants_def)
qed simp

lemma covered_set: "set xs = set ys \<Longrightarrow> covered xs = covered ys"
  by (simp add: covered_def)

lemma union_length_measures:
  assumes "fits lo hi ivs" and "hi - lo \<le> max_int64"
  shows "union_length ivs = int (card (covered ivs))"
proof -
  have "fits lo hi (sort_key iv_start ivs)"
    using assms(1) by (rule fits_set) simp
  moreover have "covered (sort_key iv_start ivs) = covered ivs"
    by (rule covered_set) simp
  ultimately show ?thesis
    using sweep_sorted_measures [of "sort_key iv_start ivs"] assms(2) by (simp add: union_length_def)
qed

lemma union_length_append_le:
  assumes "fits lo hi (xs @ ys)" and "hi - lo \<le> max_int64"
  shows "union_length (xs @ ys) \<le> union_length xs + union_length ys"
proof -
  have "union_length zs = int (card (covered zs))" if "set zs \<subseteq> set (xs @ ys)" for zs
    using fits_set [OF assms(1) that] assms(2) by (rule union_length_measures)
  then show ?thesis
    using card_Un_le [of "covered xs" "covered ys"] by simp
qed

lemma union_length_range:
  assumes "fits lo hi ivs" and "lo \<le> hi" and "hi - lo \<le> max_int64"
  shows "0 \<le> union_length ivs" and "union_length ivs \<le> hi - lo"
  using assms card_covered_window by (simp_all add: union_length_measures)

section \<open>Properties\<close>

text \<open>
  The sweep counts every covered nanosecond once: for any order by start that the sort may
  leave (its treatment of ties is unspecified), the result is the number of instants covered by the
  intervals, overlaps, duplicates, touching and empty intervals included.
\<close>
theorem union_length_any_order:
  assumes "mset sorted_ivs = mset ivs" and "sorted (map iv_start sorted_ivs)"
    and "fits lo hi ivs" and "hi - lo \<le> max_int64"
  shows "sweep_sorted sorted_ivs = int (card (covered ivs))"
proof -
  have s: "set sorted_ivs = set ivs" using assms(1) by (rule mset_eq_setD)
  then have "fits lo hi sorted_ivs" using fits_set [OF assms(3)] by simp
  then show ?thesis
    using sweep_sorted_measures assms(2,4) covered_set [OF s] by metis
qed

definition demo_intervals :: "interval list" where
  "demo_intervals =
     [\<lparr>iv_start = 0, iv_end = 5\<rparr>, \<lparr>iv_start = 3, iv_end = 9\<rparr>, \<lparr>iv_start = 20, iv_end = 21\<rparr>]"

lemma demo_intervals_fit: "fits 0 100 demo_intervals"
  by (simp add: demo_intervals_def)

lemma union_length_any_order_witness:
  "sweep_sorted demo_intervals = 10 \<and> card (covered demo_intervals) = 10"
proof -
  have "sweep_sorted demo_intervals = 10" by code_simp
  then show ?thesis
    using union_length_any_order [of demo_intervals demo_intervals, OF _ _ demo_intervals_fit]
    by (simp add: demo_intervals_def max_int64_def)
qed

text \<open>
  A union is never longer than its parts together or than the window it lies in, never
  negative, and adding intervals never shortens it.
\<close>
theorem union_length_bounds:
  assumes "fits lo hi (xs @ ys)" and "lo \<le> hi" and "hi - lo \<le> max_int64"
  shows "union_length (xs @ ys) \<le> union_length xs + union_length ys
    \<and> union_length xs \<le> union_length (xs @ ys) \<and> 0 \<le> union_length xs \<and> union_length (xs @ ys) \<le> hi - lo"
proof -
  have "fits lo hi xs" using assms(1) by simp
  moreover have "card (covered xs) \<le> card (covered (xs @ ys))" by (intro card_mono) auto
  ultimately show ?thesis
    using union_length_append_le [OF assms(1,3)] union_length_range [OF _ assms(2,3), of xs]
      union_length_range [OF assms] assms by (simp add: union_length_measures)
qed

lemma union_length_bounds_witness:
  "union_length demo_intervals \<le> 100 \<and> union_length (tl demo_intervals) \<le> 100"
  using union_length_bounds [of 0 100 demo_intervals "[]"] union_length_bounds [of 0 100 "tl demo_intervals" "[]"]
  by (simp add: demo_intervals_def max_int64_def)

end
