(* ===== verification/SelfTime.thy ===== *)
theory SelfTime
  imports Span Intervals
begin

text \<open>
  \<open>attachSelfTime\<close> of \<open>tracer.go\<close>: the time a request spends in each category, as interval unions
  over its child spans, and the root's own uncovered time.
\<close>

section \<open>The computation\<close>

definition child_interval :: "int64 \<Rightarrow> span \<Rightarrow> interval" where
  "child_interval root_start sp =
     (let start = sub64 (sp_start sp) root_start;
          end_ns = sub64 (sp_end sp) root_start
      in \<lparr>iv_start = start, iv_end = (if end_ns < start then start else end_ns)\<rparr>)"

definition by_cat :: "int64 \<Rightarrow> span list \<Rightarrow> string \<Rightarrow> interval list" where
  "by_cat root_start raw cat =
     map (child_interval root_start) (filter (\<lambda>sp. category sp = cat) raw)"

record self_times =
  self_db :: int64
  self_http :: int64
  self_cache :: int64
  self_queue :: int64
  self_app :: int64

definition self_times_of :: "span \<Rightarrow> span list \<Rightarrow> self_times" where
  "self_times_of rt raw =
     (let root_start = sp_start rt;
          root_dur = duration_ns rt;
          cats = by_cat root_start raw;
          all_ivs = map (child_interval root_start) raw;
          rest = sub64 root_dur (union_length all_ivs);
          app_exclusive = (if rest < 0 then 0 else rest)
      in \<lparr>self_db = union_length (cats category_db),
          self_http = union_length (cats category_http),
          self_cache = union_length (cats category_cache),
          self_queue = union_length (cats category_queue),
          self_app = add64 (union_length (cats category_app)) app_exclusive\<rparr>)"

definition attach_self_time :: "span list \<Rightarrow> span \<Rightarrow> span" where
  "attach_self_time raw rt =
     (let t = self_times_of rt raw
      in set_int attr_self_ns_app (self_app t)
           (set_int attr_self_ns_queue (self_queue t)
             (set_int attr_self_ns_cache (self_cache t)
               (set_int attr_self_ns_http (self_http t)
                 (set_int attr_self_ns_db (self_db t) rt)))))"

section \<open>Requests whose clock readings fit one window\<close>

text \<open>
  All timestamps of the request lie between two readings less than 292 years apart, so that no
  difference of two of them wraps.
\<close>

definition in_window :: "int \<Rightarrow> int \<Rightarrow> span \<Rightarrow> bool" where
  "in_window lo hi s \<longleftrightarrow> lo \<le> sp_start s \<and> sp_start s \<le> hi \<and> lo \<le> sp_end s \<and> sp_end s \<le> hi"

definition request_window :: "int \<Rightarrow> int \<Rightarrow> span \<Rightarrow> span list \<Rightarrow> bool" where
  "request_window lo hi rt raw \<longleftrightarrow>
     lo \<le> hi \<and> hi - lo \<le> max_int64 \<and> in_window lo hi rt \<and> list_all (in_window lo hi) raw"

definition child_instants :: "span \<Rightarrow> span list \<Rightarrow> int set" where
  "child_instants rt sps = covered (map (child_interval (sp_start rt)) sps)"

lemma sub64_window:
  assumes "lo \<le> a" "a \<le> hi" "lo \<le> b" "b \<le> hi" "hi - lo \<le> max_int64"
  shows "sub64 a b = a - b"
  using assms by (intro sub64_exact) (simp add: in64_def min_int64_def max_int64_def)

lemma child_interval_window:
  assumes "request_window lo hi rt raw" and "sp \<in> set raw"
  shows "child_interval (sp_start rt) sp
           = \<lparr>iv_start = sp_start sp - sp_start rt,
              iv_end = max (sp_start sp) (sp_end sp) - sp_start rt\<rparr>"
proof -
  have "in_window lo hi sp" "in_window lo hi rt" "hi - lo \<le> max_int64"
    using assms by (auto simp: request_window_def list_all_iff)
  then have "sub64 (sp_start sp) (sp_start rt) = sp_start sp - sp_start rt"
    and "sub64 (sp_end sp) (sp_start rt) = sp_end sp - sp_start rt"
    by (auto simp: in_window_def intro: sub64_window)
  then show ?thesis
    by (simp add: child_interval_def Let_def max_def)
qed

lemma children_fit:
  assumes "request_window lo hi rt raw" and "set sps \<subseteq> set raw"
  shows "fits (lo - sp_start rt) (hi - sp_start rt) (map (child_interval (sp_start rt)) sps)"
proof -
  have "lo \<le> sp_start sp \<and> max (sp_start sp) (sp_end sp) \<le> hi" if "sp \<in> set sps" for sp
    using assms that by (auto simp: request_window_def list_all_iff in_window_def)
  then show ?thesis
    using assms child_interval_window [OF assms(1)]
    by (auto simp: fits_def list_all_iff)
qed

lemma union_children:
  assumes "request_window lo hi rt raw" and "set sps \<subseteq> set raw"
  shows "union_length (map (child_interval (sp_start rt)) sps) = int (card (child_instants rt sps))"
    and "int (card (child_instants rt sps)) \<le> hi - lo"
  using union_length_measures [OF children_fit [OF assms]] card_covered_window [OF children_fit [OF assms]] assms(1)
  by (simp_all add: child_instants_def request_window_def)

lemma duration_window:
  assumes "request_window lo hi rt raw"
  shows "duration_ns rt = max 0 (sp_end rt - sp_start rt)"
proof -
  have "sub64 (sp_end rt) (sp_start rt) = sp_end rt - sp_start rt"
    using assms by (auto simp: request_window_def in_window_def intro: sub64_window)
  then show ?thesis by (simp add: duration_ns_def Let_def max_def)
qed

lemma child_instants_mono:
  "set xs \<subseteq> set ys \<Longrightarrow> child_instants rt xs \<subseteq> child_instants rt ys"
  by (auto simp: child_instants_def covered_def)

lemma finite_child_instants [simp]: "finite (child_instants rt sps)"
  by (simp add: child_instants_def)

definition of_cat :: "string \<Rightarrow> span list \<Rightarrow> span list" where
  "of_cat cat raw = filter (\<lambda>sp. category sp = cat) raw"

lemma of_cat_subset [simp]: "set (of_cat cat raw) \<subseteq> set raw"
  by (auto simp: of_cat_def)

lemma of_cat_card_le: "card (child_instants rt (of_cat cat raw)) \<le> card (child_instants rt raw)"
  by (intro card_mono child_instants_mono) simp_all

lemma category_cases:
  "category sp \<in> {category_db, category_http, category_cache, category_queue, category_app}"
  by (auto simp: category_def span_categories_def split: option.splits)

lemma self_times_window:
  assumes "request_window lo hi rt raw"
  defines "n \<equiv> \<lambda>cat. int (card (child_instants rt (of_cat cat raw)))"
    and "covered_ns \<equiv> int (card (child_instants rt raw))"
  shows "self_times_of rt raw =
     \<lparr>self_db = n category_db, self_http = n category_http, self_cache = n category_cache,
      self_queue = n category_queue,
      self_app = n category_app + max 0 (duration_ns rt - covered_ns)\<rparr>"
proof -
  have cats: "union_length (by_cat (sp_start rt) raw cat) = n cat" for cat
    using union_children(1) [OF assms(1) of_cat_subset, of cat] by (simp add: by_cat_def n_def of_cat_def)
  have all: "union_length (map (child_interval (sp_start rt)) raw) = covered_ns"
    using union_children(1) [OF assms(1), of raw] by (simp add: covered_ns_def)
  have bounds: "0 \<le> duration_ns rt" "duration_ns rt \<le> hi - lo" "covered_ns \<le> hi - lo"
      "0 \<le> covered_ns" "n category_app \<le> covered_ns" "0 \<le> n category_app"
    using assms(1) duration_window [OF assms(1)] union_children(2) [OF assms(1), of raw] of_cat_card_le
    by (auto simp: request_window_def in_window_def covered_ns_def n_def)
  then have "in64 (duration_ns rt - covered_ns)"
    and "in64 (n category_app + max 0 (duration_ns rt - covered_ns))"
    using assms(1) by (auto simp: in64_def min_int64_def max_int64_def request_window_def max_def)
  then have "sub64 (duration_ns rt) covered_ns = duration_ns rt - covered_ns"
    and "add64 (n category_app) (max 0 (duration_ns rt - covered_ns))
       = n category_app + max 0 (duration_ns rt - covered_ns)"
    by (simp_all add: sub64_exact add64_exact)
  then show ?thesis
    by (auto simp: self_times_of_def Let_def cats all max_def split: if_splits)
qed

text \<open>
  C20: each self-time is the number of nanoseconds covered by the children of its category, and the
  app category gets the root's duration that no child covers on top.
\<close>
theorem self_times_measure:
  assumes "request_window lo hi rt raw"
  shows "self_times_of rt raw =
     \<lparr>self_db = int (card (child_instants rt (of_cat category_db raw))),
      self_http = int (card (child_instants rt (of_cat category_http raw))),
      self_cache = int (card (child_instants rt (of_cat category_cache raw))),
      self_queue = int (card (child_instants rt (of_cat category_queue raw))),
      self_app = int (card (child_instants rt (of_cat category_app raw)))
                 + max 0 (duration_ns rt - int (card (child_instants rt raw)))\<rparr>"
  by (rule self_times_window [OF assms])

lemma cats_distinct:
  "distinct [category_db, category_http, category_cache, category_queue, category_app]"
  by (simp add: const_defs)

text \<open>A request from 100 to 200 with an overlapping database and HTTP call, for the witnesses.\<close>

definition demo_root :: span where
  "demo_root = new_span ''t'' ''r'' [] ''GET /x'' kind_server 100 200"

definition demo_child :: "string \<Rightarrow> int64 \<Rightarrow> int64 \<Rightarrow> span" where
  "demo_child cat a b = set_string attr_category cat (new_span ''t'' ''c'' ''r'' ''call'' kind_client a b)"

definition demo_raw :: "span list" where
  "demo_raw = [demo_child category_db 110 130, demo_child category_http 120 150]"

lemma demo_category:
  "category (demo_child category_db a b) = category_db"
  "category (demo_child category_http a b) = category_http"
proof -
  have k: "\<not> is_sensitive_attribute_key attr_category" "\<not> equal_fold attr_category attr_url_full"
    by code_simp+
  show "category (demo_child category_db a b) = category_db"
    and "category (demo_child category_http a b) = category_http"
    using k by (simp_all add: demo_child_def set_string_def set_attr_def new_span_def category_def
        get_attr_def string_value_def empty_value_def span_categories_def)
qed

lemma demo_child_times [simp]: "sp_start (demo_child c a b) = a" "sp_end (demo_child c a b) = b"
  by (simp_all add: demo_child_def set_string_def set_attr_def new_span_def Let_def)

lemma demo_window: "request_window 0 1000 demo_root demo_raw"
  by (simp add: request_window_def in_window_def demo_root_def demo_raw_def new_span_def max_int64_def)

lemma demo_instants:
  "child_instants demo_root [demo_child category_db 110 130] = {10 ..< 30}"
  by (simp add: child_instants_def instants_def child_interval_def demo_root_def new_span_def
      sub64_def wrap64_def Let_def)

lemma self_times_measure_witness:
  "request_window 0 1000 demo_root demo_raw
   \<and> self_db (self_times_of demo_root demo_raw) = 20"
proof -
  have "of_cat category_db demo_raw = [demo_child category_db 110 130]"
    using cats_distinct by (auto simp: of_cat_def demo_raw_def demo_category)
  then show ?thesis
    using self_times_measure [OF demo_window] demo_instants demo_window by simp
qed

definition total_self_time :: "self_times \<Rightarrow> int" where
  "total_self_time t = self_db t + self_http t + self_cache t + self_queue t + self_app t"

lemma child_instants_union:
  "child_instants rt raw =
     child_instants rt (of_cat category_db raw) \<union> child_instants rt (of_cat category_http raw)
     \<union> child_instants rt (of_cat category_cache raw) \<union> child_instants rt (of_cat category_queue raw)
     \<union> child_instants rt (of_cat category_app raw)"
  using category_cases by (fastforce simp: child_instants_def covered_def of_cat_def)

text \<open>No time of the request is lost: the self-times add up to at least its duration.\<close>
theorem self_times_cover_root:
  assumes "request_window lo hi rt raw"
  shows "duration_ns rt \<le> total_self_time (self_times_of rt raw)"
proof -
  have "card (child_instants rt raw) \<le>
      card (child_instants rt (of_cat category_db raw)) + card (child_instants rt (of_cat category_http raw))
      + card (child_instants rt (of_cat category_cache raw)) + card (child_instants rt (of_cat category_queue raw))
      + card (child_instants rt (of_cat category_app raw))"
    unfolding child_instants_union [of rt raw]
    by (intro order_trans [OF card_Un_le] add_mono) simp_all
  then show ?thesis
    unfolding self_times_window [OF assms] total_self_time_def by simp
qed

lemma self_times_cover_root_witness:
  "request_window 0 1000 demo_root demo_raw
   \<and> 100 \<le> total_self_time (self_times_of demo_root demo_raw)"
proof -
  have "duration_ns demo_root = 100"
    by (simp add: duration_window [OF demo_window]) (simp add: demo_root_def new_span_def)
  then show ?thesis
    using self_times_cover_root [OF demo_window] demo_window by simp
qed

text \<open>Categories that never run at the same time.\<close>

definition cats_disjoint :: "span \<Rightarrow> span list \<Rightarrow> bool" where
  "cats_disjoint rt raw \<longleftrightarrow>
     (\<forall>c d. c \<noteq> d \<longrightarrow> child_instants rt (of_cat c raw) \<inter> child_instants rt (of_cat d raw) = {})"

text \<open>
  When the children run inside the root and no two categories overlap, the self-times split the
  root's duration exactly.
\<close>
theorem self_times_split_root:
  assumes "request_window lo hi rt raw"
    and "cats_disjoint rt raw"
    and "int (card (child_instants rt raw)) \<le> duration_ns rt"
  shows "total_self_time (self_times_of rt raw) = duration_ns rt"
proof -
  let ?n = "\<lambda>c. child_instants rt (of_cat c raw)"
  have dis: "?n c \<inter> ?n d = {}" if "c \<noteq> d" for c d
    using assms(2) that unfolding cats_disjoint_def by blast
  have "card (child_instants rt raw) = card (?n category_db) + card (?n category_http)
      + card (?n category_cache) + card (?n category_queue) + card (?n category_app)"
    unfolding child_instants_union [of rt raw]
    using cats_distinct dis by (subst card_Un_disjoint; simp add: Int_Un_distrib2)+
  with assms(3) show ?thesis
    unfolding self_times_window [OF assms(1)] total_self_time_def by simp
qed

lemma self_times_split_root_witness:
  "total_self_time (self_times_of demo_root [demo_child category_db 110 130]) = 100"
proof -
  let ?raw = "[demo_child category_db 110 130]"
  have w: "request_window 0 1000 demo_root ?raw"
    using demo_window by (simp add: request_window_def demo_raw_def)
  have d: "cats_disjoint demo_root ?raw"
    by (auto simp: cats_disjoint_def of_cat_def child_instants_def)
  have dur: "duration_ns demo_root = 100"
    by (simp add: duration_window [OF demo_window]) (simp add: demo_root_def new_span_def)
  show ?thesis
    using self_times_split_root [OF w d] dur demo_instants by simp
qed

end
