(* ===== verification/Tracer.thy ===== *)
theory Tracer
  imports Runtime SelfTime
begin

text \<open>
  \<open>tracer.go\<close>: starting a request (the head-based sampling decision), recording child spans under
  the buffer cap, finishing a request, and the accessors logs and instrumentation read.  Each
  operation takes the mutex for its whole body, so it is one step on the world.
\<close>

section \<open>Sampling\<close>

definition sample_decision :: "string \<Rightarrow> f64 \<Rightarrow> bool" where
  "sample_decision trace_id rate =
     (if Fin 1 \<le> rate then True
      else if rate \<le> Fin 0 then False
      else
        let tail = (if 8 < length trace_id then drop (length trace_id - 8) trace_id else trace_id)
        in case parse_uint 16 64 tail of
             None \<Rightarrow> False
           | Some bucket \<Rightarrow> Fin (round_quot bucket 4294967295) < rate)"

section \<open>Starting a request\<close>

record tracer =
  tc_cfg :: config
  tc_transport :: iface

definition new_tracer :: "config \<Rightarrow> iface \<Rightarrow> tracer" where
  [simp]: "new_tracer cfg transport = \<lparr>tc_cfg = cfg, tc_transport = transport\<rparr>"

definition trace_head :: "tracer \<Rightarrow> string \<Rightarrow> world \<Rightarrow> ((string \<times> string \<times> bool) \<times> world) option" where
  "trace_head t traceparent w =
     (let enabled = config_enabled (tc_cfg t) in
      case parse_traceparent traceparent of
        Some tp \<Rightarrow> Some ((tp_trace_id tp, tp_parent_span_id tp, enabled \<and> tp_sampled tp), w)
      | None \<Rightarrow> do {
          (trace_id, w1) \<leftarrow> fresh_trace_id w;
          Some ((trace_id, [], enabled \<and> sample_decision trace_id (cf_sample_rate (tc_cfg t))), w1)
        })"

definition root_span_of ::
  "string \<Rightarrow> string \<Rightarrow> string \<Rightarrow> string \<Rightarrow> int \<Rightarrow> string \<Rightarrow> bool \<Rightarrow> int64 \<Rightarrow> span" where
  "root_span_of trace_id span_id root_parent name kind cat link_parent now =
     (let sp = set_string attr_category cat (new_span trace_id span_id root_parent name kind now now)
      in if link_parent \<and> root_parent \<noteq> [] then add_link trace_id root_parent ''enqueue'' sp else sp)"

definition start_root ::
  "tracer \<Rightarrow> ctx \<Rightarrow> string \<Rightarrow> string \<Rightarrow> int \<Rightarrow> string \<Rightarrow> bool \<Rightarrow> world \<Rightarrow> (ctx \<times> world) option" where
  "start_root t c name traceparent kind cat link_parent w = do {
     ((trace_id, root_parent, sampled), w1) \<leftarrow> trace_head t traceparent w;
     (root_span_id, w2) \<leftarrow> fresh_span_id w1;
     let (root_span, w3) =
       (if sampled
        then (Some (root_span_of trace_id root_span_id root_parent name kind cat link_parent
                      (fst (now_ns w2))), snd (now_ns w2))
        else (None, w2));
     let st = \<lparr>rs_enabled = config_enabled (tc_cfg t), rs_sampled = sampled, rs_trace_id = trace_id,
               rs_root_span_id = root_span_id, rs_root_span = root_span, rs_raw_spans = [],
               rs_db_query_count = 0, rs_root_category = cat, rs_max_spans = cf_max_spans (tc_cfg t),
               rs_cfg = tc_cfg t, rs_transport = tc_transport t\<rparr>;
     Some (CtxState (length (w_requests w3)) # c, w3\<lparr>w_requests := w_requests w3 @ [st]\<rparr>)
   }"

definition start :: "tracer \<Rightarrow> ctx \<Rightarrow> string \<Rightarrow> string \<Rightarrow> world \<Rightarrow> (ctx \<times> world) option" where
  "start t c name traceparent w = start_root t c name traceparent kind_server category_app False w"

section \<open>Child spans\<close>

text \<open>A \<open>*Span\<close> the SDK hands out: the root of a request or one of its recorded children.\<close>

datatype span_ref = RootRef nat | ChildRef nat nat

definition span_id_or_fresh :: "string \<Rightarrow> world \<Rightarrow> (string \<times> world) option" where
  "span_id_or_fresh span_id w = (if span_id = [] then fresh_span_id w else Some (span_id, w))"

definition append_child :: "nat \<Rightarrow> request_state \<Rightarrow> span \<Rightarrow> world \<Rightarrow> span_ref \<times> world" where
  "append_child a st sp w =
     (ChildRef a (length (rs_raw_spans st)),
      put_request a (st\<lparr>rs_raw_spans := rs_raw_spans st @ [sp]\<rparr>) w)"

definition start_child_span ::
  "ctx option \<Rightarrow> string \<Rightarrow> string \<Rightarrow> int \<Rightarrow> string \<Rightarrow> world \<Rightarrow> (span_ref option \<times> world) option" where
  "start_child_span c name cat kind span_id w =
     (case request_of c w of
        None \<Rightarrow> Some (None, w)
      | Some (a, st) \<Rightarrow>
          (case rs_root_span st of
             None \<Rightarrow> Some (None, w)
           | Some root_sp \<Rightarrow>
               if \<not> rs_sampled st then Some (None, w)
               else if int (length (rs_raw_spans st)) \<ge> rs_max_spans st then Some (None, w)
               else do {
                 let (now, w1) = now_ns w;
                 (sid, w2) \<leftarrow> span_id_or_fresh span_id w1;
                 let sp = set_string attr_category cat
                   (new_span (rs_trace_id st) sid (sp_span_id root_sp) name kind now now);
                 let (r, w3) = append_child a st sp w2;
                 Some (Some r, w3)
               }))"

definition add_child_span_with_id ::
  "ctx option \<Rightarrow> string \<Rightarrow> int64 \<Rightarrow> int64 \<Rightarrow> string \<Rightarrow> (span \<Rightarrow> span) \<Rightarrow> world
   \<Rightarrow> (span_ref option \<times> world) option" where
  "add_child_span_with_id c name start_ns end_ns span_id decorate w =
     (case request_of c w of
        None \<Rightarrow> Some (None, w)
      | Some (a, st) \<Rightarrow>
          (case rs_root_span st of
             None \<Rightarrow> Some (None, w)
           | Some root_sp \<Rightarrow>
               if \<not> rs_sampled st then Some (None, w)
               else if int (length (rs_raw_spans st)) \<ge> rs_max_spans st then Some (None, w)
               else do {
                 (sid, w1) \<leftarrow> span_id_or_fresh span_id w;
                 let sp = decorate
                   (new_span (rs_trace_id st) sid (sp_span_id root_sp) name kind_client start_ns end_ns);
                 let (r, w2) = append_child a st sp w1;
                 Some (Some r, w2)
               }))"

definition add_child_span ::
  "ctx option \<Rightarrow> string \<Rightarrow> int64 \<Rightarrow> int64 \<Rightarrow> world \<Rightarrow> (span_ref option \<times> world) option" where
  "add_child_span c name start_ns end_ns w = add_child_span_with_id c name start_ns end_ns [] id w"

text \<open>A call through a span pointer: \<open>f\<close> is one of the span's methods.\<close>

definition update_span :: "span_ref \<Rightarrow> (span \<Rightarrow> span) \<Rightarrow> world \<Rightarrow> world" where
  "update_span r f w =
     (case r of
        RootRef a \<Rightarrow>
          (case request_at w a of
             None \<Rightarrow> w
           | Some st \<Rightarrow> put_request a (st\<lparr>rs_root_span := map_option f (rs_root_span st)\<rparr>) w)
      | ChildRef a i \<Rightarrow>
          (case request_at w a of
             None \<Rightarrow> w
           | Some st \<Rightarrow>
               if i < length (rs_raw_spans st)
               then put_request a (st\<lparr>rs_raw_spans := (rs_raw_spans st)[i := f (rs_raw_spans st ! i)]\<rparr>) w
               else w))"

definition increment_db_query_count :: "ctx option \<Rightarrow> world \<Rightarrow> world" where
  "increment_db_query_count c w =
     (case request_of c w of
        None \<Rightarrow> w
      | Some (a, st) \<Rightarrow> put_request a (st\<lparr>rs_db_query_count := add64 (rs_db_query_count st) 1\<rparr>) w)"

section \<open>Reading the trace off a context\<close>

definition outbound_context :: "ctx option \<Rightarrow> world \<Rightarrow> ((string \<times> string) option \<times> world) option" where
  "outbound_context c w =
     (case request_of c w of
        None \<Rightarrow> Some (None, w)
      | Some (a, st) \<Rightarrow>
          if \<not> rs_enabled st \<or> rs_trace_id st = [] then Some (None, w)
          else do {
            (span_id, w1) \<leftarrow> fresh_span_id w;
            Some (Some (format_traceparent (rs_trace_id st) span_id (rs_sampled st), span_id), w1)
          })"

definition is_sampled :: "ctx option \<Rightarrow> world \<Rightarrow> bool" where
  "is_sampled c w =
     (case request_of c w of
        None \<Rightarrow> False
      | Some (a, st) \<Rightarrow> rs_enabled st \<and> rs_sampled st \<and> rs_root_span st \<noteq> None)"

definition root_span :: "ctx option \<Rightarrow> world \<Rightarrow> span_ref option" where
  "root_span c w =
     (case request_of c w of
        None \<Rightarrow> None
      | Some (a, st) \<Rightarrow> if rs_root_span st \<noteq> None then Some (RootRef a) else None)"

definition trace_id_of :: "ctx option \<Rightarrow> world \<Rightarrow> string" where
  "trace_id_of c w = (case request_of c w of None \<Rightarrow> [] | Some (a, st) \<Rightarrow> rs_trace_id st)"

definition current_trace_id :: "ctx option \<Rightarrow> world \<Rightarrow> string" where
  "current_trace_id c w =
     (case request_of c w of
        None \<Rightarrow> []
      | Some (a, st) \<Rightarrow> if \<not> rs_enabled st then [] else rs_trace_id st)"

definition current_span_id :: "ctx option \<Rightarrow> world \<Rightarrow> string" where
  "current_span_id c w =
     (case request_of c w of
        None \<Rightarrow> []
      | Some (a, st) \<Rightarrow> if \<not> rs_enabled st then [] else rs_root_span_id st)"

definition current_trace_flags :: "ctx option \<Rightarrow> world \<Rightarrow> int \<times> bool" where
  "current_trace_flags c w =
     (case request_of c w of
        None \<Rightarrow> (0, False)
      | Some (a, st) \<Rightarrow>
          if \<not> rs_enabled st then (0, False) else if rs_sampled st then (1, True) else (0, True))"

section \<open>Finishing a request\<close>

definition finish_root :: "request_state \<Rightarrow> int64 \<Rightarrow> span \<Rightarrow> span" where
  "finish_root st now root_sp =
     (let s1 = set_end now root_sp;
          s2 = attach_self_time (rs_raw_spans st) s1;
          s3 = set_int attr_db_query_count (rs_db_query_count st) s2;
          s4 = set_string attr_category (rs_root_category st) s3
      in if sp_status_code s4 = status_unset then set_status status_ok [] s4 else s4)"

definition finish_payload :: "request_state \<Rightarrow> span \<Rightarrow> trace_request" where
  "finish_payload st root_sp =
     build_payload (cf_service_name (rs_cfg st)) (cf_environment (rs_cfg st))
       (to_data root_sp # map to_data (rs_raw_spans st))"

text \<open>
  A panic of the transport is recovered and discarded: the state stays as it was when \<open>Send\<close> was
  called, which is the state after the call here.
\<close>

definition finish :: "ctx option \<Rightarrow> world \<Rightarrow> world" where
  "finish c w =
     (case request_of c w of
        None \<Rightarrow> w
      | Some (a, st) \<Rightarrow>
          (case rs_root_span st of
             None \<Rightarrow> w
           | Some root_sp \<Rightarrow>
               if \<not> rs_sampled st then w
               else
                 let (now, w1) = now_ns w;
                     root' = finish_root st now root_sp;
                     w2 = put_request a (st\<lparr>rs_root_span := Some root'\<rparr>) w1
                 in w2\<lparr>w_sent := w_sent w2 @ [(rs_transport st, finish_payload st root')]\<rparr>))"

end
