(* ===== verification/Requests.thy ===== *)
theory Requests
  imports Tracer
begin

text \<open>
  The life of a request, end to end: any sequence of the operations of \<open>tracer.go\<close>, by any number
  of requests interleaved in any order, keeps every request state consistent, keeps the requests
  apart, and sends only well-formed batches.
\<close>

section \<open>The request invariant\<close>

definition child_ok :: "string \<Rightarrow> string \<Rightarrow> span \<Rightarrow> bool" where
  "child_ok trace_id parent sp \<longleftrightarrow>
     span_wf sp \<and> sp_trace_id sp = trace_id \<and> sp_parent_span_id sp = parent
     \<and> valid_id 16 (sp_span_id sp)"

definition root_ok :: "string \<Rightarrow> string \<Rightarrow> span \<Rightarrow> bool" where
  "root_ok trace_id span_id sp \<longleftrightarrow>
     span_wf sp \<and> sp_trace_id sp = trace_id \<and> sp_span_id sp = span_id
     \<and> (sp_parent_span_id sp = [] \<or> valid_id 16 (sp_parent_span_id sp))"

definition request_ok :: "request_state \<Rightarrow> bool" where
  "request_ok st \<longleftrightarrow>
     valid_id 32 (rs_trace_id st) \<and> valid_id 16 (rs_root_span_id st)
     \<and> rs_enabled st = config_enabled (rs_cfg st)
     \<and> rs_max_spans st = cf_max_spans (rs_cfg st)
     \<and> (rs_sampled st \<longleftrightarrow> rs_root_span st \<noteq> None)
     \<and> (rs_sampled st \<longrightarrow> rs_enabled st)
     \<and> (\<forall>sp. rs_root_span st = Some sp \<longrightarrow> root_ok (rs_trace_id st) (rs_root_span_id st) sp)
     \<and> (\<forall>sp \<in> set (rs_raw_spans st). child_ok (rs_trace_id st) (rs_root_span_id st) sp)
     \<and> int (length (rs_raw_spans st)) \<le> max 0 (rs_max_spans st)
     \<and> (\<not> rs_sampled st \<longrightarrow> rs_raw_spans st = [])"

text \<open>A batch a receiver can place in one trace: the root first, every other span a child of it.\<close>

definition batch_ok :: "trace_request \<Rightarrow> bool" where
  "batch_ok p \<longleftrightarrow>
     (case request_spans p of
        [] \<Rightarrow> False
      | rt # kids \<Rightarrow>
          valid_id 32 (sd_trace_id rt) \<and> valid_id 16 (sd_span_id rt)
          \<and> (sd_parent_span_id rt = [] \<or> valid_id 16 (sd_parent_span_id rt))
          \<and> sd_status rt \<noteq> None
          \<and> list_all (\<lambda>d. sd_trace_id d = sd_trace_id rt \<and> sd_parent_span_id d = sd_span_id rt
                         \<and> valid_id 16 (sd_span_id d)) kids
          \<and> list_all export_safe (rt # kids))"

definition world_ok :: "world \<Rightarrow> bool" where
  "world_ok w \<longleftrightarrow> list_all request_ok (w_requests w) \<and> list_all (\<lambda>(_, p). batch_ok p) (w_sent w)"

named_theorems ok_defs "the parts of the request invariant"

lemmas [ok_defs] = child_ok_def root_ok_def request_ok_def

lemma valid_id_nonempty [simp]: "\<not> valid_id 16 []" "\<not> valid_id 32 []"
  by (simp_all add: valid_id_def)

lemma world_request:
  "world_ok w \<Longrightarrow> request_of c w = Some (a, st) \<Longrightarrow> request_ok st \<and> a < length (w_requests w)"
  by (auto simp: world_ok_def list_all_length dest: request_of_SomeD)

lemma world_request_at: "world_ok w \<Longrightarrow> request_at w a = Some st \<Longrightarrow> request_ok st"
  by (auto simp: world_ok_def list_all_length request_at_def split: if_splits)

lemma put_request_ok: "world_ok w \<Longrightarrow> request_ok st \<Longrightarrow> world_ok (put_request a st w)"
  by (auto simp: world_ok_def put_request_def list_all_iff dest!: subsetD [OF set_update_subset_insert])

text \<open>The clock and the entropy may move under a world without touching what is recorded.\<close>

definition same_record :: "world \<Rightarrow> world \<Rightarrow> bool" where
  "same_record w w' \<longleftrightarrow> w_requests w' = w_requests w \<and> w_sent w' = w_sent w \<and> w_rng w' = w_rng w"

lemma same_record_refl [simp]: "same_record w w"
  by (simp add: same_record_def)

lemma same_record_trans: "same_record u v \<Longrightarrow> same_record v w \<Longrightarrow> same_record u w"
  by (simp add: same_record_def)

lemma same_record_ok: "same_record w w' \<Longrightarrow> world_ok w' = world_ok w"
  by (simp add: same_record_def world_ok_def)

lemma same_record_request: "same_record w w' \<Longrightarrow> request_of c w' = request_of c w"
  by (simp add: same_record_def request_of_def request_at_def split: option.splits)

lemma same_record_now [simp]: "same_record w (snd (now_ns w))"
  by (simp add: same_record_def)

lemma fresh_span_id_keeps: "fresh_span_id w = Some (i, w') \<Longrightarrow> same_record w w' \<and> valid_id 16 i"
  by (auto simp: same_record_def dest: fresh_span_id_SomeD)

lemma fresh_trace_id_keeps: "fresh_trace_id w = Some (i, w') \<Longrightarrow> same_record w w' \<and> valid_id 32 i"
  by (auto simp: same_record_def dest: fresh_trace_id_SomeD)

lemma span_id_or_fresh_keeps:
  "span_id_or_fresh s w = Some (i, w') \<Longrightarrow> s = [] \<or> valid_id 16 s \<Longrightarrow> same_record w w' \<and> valid_id 16 i"
  by (auto simp: span_id_or_fresh_def fresh_span_id_keeps split: if_splits)

section \<open>Span methods keep the identity of a span\<close>

definition same_identity :: "span \<Rightarrow> span \<Rightarrow> bool" where
  "same_identity s s' \<longleftrightarrow>
     sp_trace_id s' = sp_trace_id s \<and> sp_span_id s' = sp_span_id s
     \<and> sp_parent_span_id s' = sp_parent_span_id s"

lemma set_attr_identity [simp]:
  "sp_trace_id (set_attr k v s) = sp_trace_id s"
  "sp_span_id (set_attr k v s) = sp_span_id s"
  "sp_parent_span_id (set_attr k v s) = sp_parent_span_id s"
  by (simp_all add: set_attr_def split: option.splits)

lemma apply_op_identity: "same_identity s (apply_op x s)"
  by (cases x) (simp_all add: same_identity_def span_defs)

lemma run_ops_identity: "same_identity s (run_ops ops s)"
proof (induction ops arbitrary: s)
  case (Cons x ops)
  show ?case
    using Cons [of "apply_op x s"] apply_op_identity [of s x]
    by (simp add: run_ops_def same_identity_def)
qed (simp add: run_ops_def same_identity_def)

lemma run_ops_ok:
  "root_ok t i s \<Longrightarrow> root_ok t i (run_ops ops s)"
  "child_ok t p s \<Longrightarrow> child_ok t p (run_ops ops s)"
  using run_ops_identity [of s ops] by (auto simp: root_ok_def child_ok_def same_identity_def run_ops_wf)

text \<open>The finishing touches of a root span are span operations as well.\<close>

lemma finish_root_ops: "\<exists>ops. finish_root st now s = run_ops ops s"
proof -
  let ?t = "self_times_of (set_end now s) (rs_raw_spans st)"
  let ?ops = "[SetEnd now, SetInt attr_self_ns_db (self_db ?t), SetInt attr_self_ns_http (self_http ?t),
      SetInt attr_self_ns_cache (self_cache ?t), SetInt attr_self_ns_queue (self_queue ?t),
      SetInt attr_self_ns_app (self_app ?t), SetInt attr_db_query_count (rs_db_query_count st),
      SetString attr_category (rs_root_category st)]"
  show ?thesis
    by (rule exI [of _ "?ops @ (if sp_status_code (run_ops ?ops s) = status_unset then [SetStatus status_ok []] else [])"])
      (simp add: finish_root_def attach_self_time_def run_ops_def Let_def)
qed

lemma finish_root_status: "sp_status_code (finish_root st now s) \<noteq> status_unset"
  by (simp add: finish_root_def Let_def set_status_def const_defs)

lemma finish_root_ok: "root_ok t i s \<Longrightarrow> root_ok t i (finish_root st now s)"
  using finish_root_ops [of st now s] run_ops_ok(1) by fastforce

section \<open>Every operation keeps the invariant\<close>

lemma trace_head_keeps:
  assumes "trace_head t h w = Some ((trace_id, parent, sampled), w')"
  shows "same_record w w'" "valid_id 32 trace_id" "parent = [] \<or> valid_id 16 parent"
    "sampled \<longrightarrow> config_enabled (tc_cfg t)"
proof -
  show "same_record w w'" "valid_id 32 trace_id" "parent = [] \<or> valid_id 16 parent"
    "sampled \<longrightarrow> config_enabled (tc_cfg t)"
    using assms parse_traceparent_shape [of h]
    by (auto simp: trace_head_def Let_def valid_traceparent_def bind_eq_Some_conv
        dest!: fresh_trace_id_keeps split: option.splits)
qed

lemma root_span_of_ok:
  assumes "parent = [] \<or> valid_id 16 parent"
  shows "root_ok trace_id span_id (root_span_of trace_id span_id parent name kind cat link now)"
  using assms
  by (auto simp: root_ok_def root_span_of_def Let_def intro!: span_ops_wf)
     (simp_all add: span_defs new_span_def)

lemma start_root_shape:
  assumes "start_root t c name h kind cat link w = Some (c', w')"
  shows "\<exists>st. c' = CtxState (length (w_requests w)) # c \<and> w_requests w' = w_requests w @ [st]
     \<and> w_sent w' = w_sent w \<and> w_rng w' = w_rng w \<and> request_ok st
     \<and> rs_cfg st = tc_cfg t \<and> rs_transport st = tc_transport t \<and> rs_raw_spans st = []"
proof -
  obtain trace_id parent sampled w1 span_id w2 where
    h: "trace_head t h w = Some ((trace_id, parent, sampled), w1)"
    and s: "fresh_span_id w1 = Some (span_id, w2)"
    using assms by (auto simp: start_root_def bind_eq_Some_conv)
  note head = trace_head_keeps [OF h]
  have rec: "same_record w w2"
    using head(1) fresh_span_id_keeps [OF s] same_record_trans by blast
  then have req: "w_requests w2 = w_requests w" "w_sent w2 = w_sent w" "w_rng w2 = w_rng w"
    by (simp_all add: same_record_def)
  show ?thesis
    using assms h s req head fresh_span_id_keeps [OF s] root_span_of_ok
    by (auto simp: start_root_def request_ok_def Let_def split: if_splits)
qed

lemma start_root_keeps:
  "start_root t c name h kind cat link w = Some (c', w') \<Longrightarrow> world_ok w \<Longrightarrow> world_ok w'"
  by (auto dest!: start_root_shape simp: world_ok_def)

text \<open>The two ways to record a child share their shape: the request gets one more well-formed child.\<close>

definition child_added :: "ctx option \<Rightarrow> span_ref option \<Rightarrow> world \<Rightarrow> world \<Rightarrow> bool" where
  "child_added c r w w' \<longleftrightarrow>
     (case r of
        None \<Rightarrow> w' = w
      | Some ref \<Rightarrow> \<exists>a st sp w1.
          request_of c w = Some (a, st) \<and> rs_sampled st
          \<and> int (length (rs_raw_spans st)) < rs_max_spans st
          \<and> child_ok (rs_trace_id st) (rs_root_span_id st) sp
          \<and> same_record w w1 \<and> ref = ChildRef a (length (rs_raw_spans st))
          \<and> w' = put_request a (st\<lparr>rs_raw_spans := rs_raw_spans st @ [sp]\<rparr>) w1)"

lemma child_added_keeps:
  assumes "child_added c r w w'" and "world_ok w"
  shows "world_ok w'"
proof (cases r)
  case (Some ref)
  then obtain a st sp w1 where st: "request_of c w = Some (a, st)" "rs_sampled st"
      "int (length (rs_raw_spans st)) < rs_max_spans st"
      "child_ok (rs_trace_id st) (rs_root_span_id st) sp" and w1: "same_record w w1"
      and w': "w' = put_request a (st\<lparr>rs_raw_spans := rs_raw_spans st @ [sp]\<rparr>) w1"
    using assms(1) by (auto simp: child_added_def)
  have "request_ok (st\<lparr>rs_raw_spans := rs_raw_spans st @ [sp]\<rparr>)"
    using world_request [OF assms(2) st(1)] st(2-4) by (auto simp: request_ok_def)
  then show ?thesis
    using w' w1 assms(2) by (simp add: put_request_ok same_record_ok)
qed (use assms in \<open>simp add: child_added_def\<close>)

lemma new_child_ok:
  "valid_id 16 sid \<Longrightarrow> child_ok t p (run_ops ops (new_span t sid p name kind a b))"
  by (rule run_ops_ok) (simp add: child_ok_def, simp add: new_span_def)

lemma start_child_span_shape:
  assumes "start_child_span c name cat kind sid w = Some (r, w')"
    and "sid = [] \<or> valid_id 16 sid" and "world_ok w"
  shows "child_added c r w w'"
proof (cases "r")
  case None
  then show ?thesis
    using assms by (auto simp: start_child_span_def child_added_def append_child_def bind_eq_Some_conv Let_def
        split: option.splits if_splits prod.splits)
next
  case (Some ref)
  then obtain a st rt i w1 where st: "request_of c w = Some (a, st)" "rs_root_span st = Some rt"
      "rs_sampled st" "int (length (rs_raw_spans st)) < rs_max_spans st"
      and i: "span_id_or_fresh sid (snd (now_ns w)) = Some (i, w1)"
    using assms(1) by (auto simp: start_child_span_def append_child_def bind_eq_Some_conv split: option.splits if_splits prod.splits)
  have rt: "sp_span_id rt = rs_root_span_id st"
    using world_request [OF assms(3) st(1)] st(2) by (auto simp: request_ok_def root_ok_def)
  define sp where "sp = set_string attr_category cat
      (new_span (rs_trace_id st) i (rs_root_span_id st) name kind (fst (now_ns w)) (fst (now_ns w)))"
  have w1: "same_record w w1" "valid_id 16 i"
    using span_id_or_fresh_keeps [OF i assms(2)] same_record_now same_record_trans by blast+
  have "sp = run_ops [SetString attr_category cat]
      (new_span (rs_trace_id st) i (rs_root_span_id st) name kind (fst (now_ns w)) (fst (now_ns w)))"
    by (simp add: sp_def run_ops_def)
  then have "child_ok (rs_trace_id st) (rs_root_span_id st) sp"
    using new_child_ok w1(2) by metis
  moreover have "ref = ChildRef a (length (rs_raw_spans st))
      \<and> w' = put_request a (st\<lparr>rs_raw_spans := rs_raw_spans st @ [sp]\<rparr>) w1"
    using assms(1) st i Some rt
    by (auto simp: start_child_span_def append_child_def sp_def split_beta Let_def)
  ultimately show ?thesis
    unfolding child_added_def Some option.case using st w1 by blast
qed

lemma add_child_span_with_id_shape:
  assumes "add_child_span_with_id c name s e sid (run_ops ops) w = Some (r, w')"
    and "sid = [] \<or> valid_id 16 sid" and "world_ok w"
  shows "child_added c r w w'"
proof (cases "r")
  case None
  then show ?thesis
    using assms by (auto simp: add_child_span_with_id_def child_added_def append_child_def bind_eq_Some_conv Let_def
        split: option.splits if_splits prod.splits)
next
  case (Some ref)
  then obtain a st rt i w1 where st: "request_of c w = Some (a, st)" "rs_root_span st = Some rt"
      "rs_sampled st" "int (length (rs_raw_spans st)) < rs_max_spans st"
      and i: "span_id_or_fresh sid w = Some (i, w1)"
    using assms(1) by (auto simp: add_child_span_with_id_def append_child_def bind_eq_Some_conv split: option.splits if_splits prod.splits)
  have rt: "sp_span_id rt = rs_root_span_id st"
    using world_request [OF assms(3) st(1)] st(2) by (auto simp: request_ok_def root_ok_def)
  have w1: "same_record w w1" "valid_id 16 i"
    using span_id_or_fresh_keeps [OF i assms(2)] by blast+
  define sp where "sp = run_ops ops (new_span (rs_trace_id st) i (rs_root_span_id st) name kind_client s e)"
  have "child_ok (rs_trace_id st) (rs_root_span_id st) sp"
    using new_child_ok w1(2) by (simp add: sp_def)
  moreover have "ref = ChildRef a (length (rs_raw_spans st))
      \<and> w' = put_request a (st\<lparr>rs_raw_spans := rs_raw_spans st @ [sp]\<rparr>) w1"
    using assms(1) st i Some rt
    by (auto simp: add_child_span_with_id_def append_child_def sp_def)
  ultimately show ?thesis
    unfolding child_added_def Some option.case using st w1 by blast
qed

lemma update_span_keeps:
  assumes "world_ok w"
  shows "world_ok (update_span r (run_ops ops) w)"
proof (cases r)
  case (RootRef a)
  have "request_ok (st\<lparr>rs_root_span := map_option (run_ops ops) (rs_root_span st)\<rparr>)"
    if "request_at w a = Some st" for st
    using world_request_at [OF assms that] by (auto simp: request_ok_def run_ops_ok)
  then show ?thesis
    using RootRef assms by (auto simp: update_span_def put_request_ok split: option.splits)
next
  case (ChildRef a i)
  have "request_ok (st\<lparr>rs_raw_spans := (rs_raw_spans st)[i := run_ops ops (rs_raw_spans st ! i)]\<rparr>)"
    if "request_at w a = Some st" "i < length (rs_raw_spans st)" for st
    using world_request_at [OF assms that(1)] that(2)
    by (auto simp: request_ok_def run_ops_ok dest!: subsetD [OF set_update_subset_insert])
  then show ?thesis
    using ChildRef assms by (auto simp: update_span_def put_request_ok split: option.splits)
qed

lemma increment_keeps:
  assumes "world_ok w"
  shows "world_ok (increment_db_query_count c w)"
proof (cases "request_of c w")
  case (Some ast)
  then have "request_ok ((snd ast)\<lparr>rs_db_query_count := add64 (rs_db_query_count (snd ast)) 1\<rparr>)"
    using world_request [OF assms, of c "fst ast" "snd ast"] by (auto simp: request_ok_def)
  then show ?thesis
    using Some assms by (cases ast) (simp add: increment_db_query_count_def put_request_ok)
qed (simp add: increment_db_query_count_def assms)

lemma outbound_context_keeps:
  "outbound_context c w = Some (r, w') \<Longrightarrow>
     same_record w w' \<and> (\<forall>h sid. r = Some (h, sid) \<longrightarrow> valid_id 16 sid)"
  by (auto simp: outbound_context_def bind_eq_Some_conv split: option.splits if_splits
      dest!: fresh_span_id_keeps)

lemma to_data_fields [simp]:
  "sd_trace_id (to_data s) = sp_trace_id s" "sd_span_id (to_data s) = sp_span_id s"
  "sd_parent_span_id (to_data s) = sp_parent_span_id s"
  "sd_status (to_data s) = None \<longleftrightarrow> sp_status_code s = status_unset"
  by (simp_all add: to_data_def)

text \<open>A finish sends one well-formed batch, or nothing at all.\<close>

lemma finish_silent:
  assumes "request_of c w = None \<or> (\<exists>a st. request_of c w = Some (a, st) \<and> (\<not> rs_sampled st \<or> rs_root_span st = None))"
  shows "finish c w = w"
  using assms by (auto simp: finish_def split: option.splits)

lemma finish_sends:
  assumes "request_of c w = Some (a, st)" and "rs_sampled st" and "request_ok st"
  shows "\<exists>rt. request_ok (st\<lparr>rs_root_span := Some rt\<rparr>)
     \<and> w_requests (finish c w) = (w_requests w)[a := st\<lparr>rs_root_span := Some rt\<rparr>]
     \<and> w_sent (finish c w) = w_sent w @ [(rs_transport st, finish_payload st rt)]
     \<and> batch_ok (finish_payload st rt) \<and> w_rng (finish c w) = w_rng w"
proof -
  obtain sp where sp: "rs_root_span st = Some sp" and ok: "root_ok (rs_trace_id st) (rs_root_span_id st) sp"
    using assms(2,3) by (auto simp: request_ok_def)
  let ?rt = "finish_root st (fst (now_ns w)) sp"
  have rt: "root_ok (rs_trace_id st) (rs_root_span_id st) ?rt"
    using ok by (rule finish_root_ok)
  have "finish c w = (put_request a (st\<lparr>rs_root_span := Some ?rt\<rparr>) (snd (now_ns w)))
      \<lparr>w_sent := w_sent w @ [(rs_transport st, finish_payload st ?rt)]\<rparr>"
    using assms sp by (simp add: finish_def Let_def split_beta)
  moreover have "batch_ok (finish_payload st ?rt)"
    using assms(2,3) rt finish_root_status [of st "fst (now_ns w)" sp]
    by (auto simp: batch_ok_def finish_payload_def request_ok_def list_all_iff root_ok_def child_ok_def to_data_safe)
  moreover have "request_ok (st\<lparr>rs_root_span := Some ?rt\<rparr>)"
    using assms(2,3) rt by (auto simp: request_ok_def)
  ultimately show ?thesis
    by (auto simp: put_request_def)
qed

lemma finish_keeps:
  assumes "world_ok w"
  shows "world_ok (finish c w)"
proof (cases "\<exists>a st. request_of c w = Some (a, st) \<and> rs_sampled st")
  case True
  then obtain a st where st: "request_of c w = Some (a, st)" "rs_sampled st" by blast
  from finish_sends [OF st] world_request [OF assms st(1)] assms show ?thesis
    by (auto simp: world_ok_def list_all_iff dest!: subsetD [OF set_update_subset_insert])
next
  case False
  then have "finish c w = w" by (intro finish_silent) (cases "request_of c w", auto)
  with assms show ?thesis by simp
qed

section \<open>Runs of the SDK\<close>

text \<open>
  The calls instrumentation makes, in any order and on any contexts.  A span id passed in is one
  that an earlier \<open>outboundContext\<close> returned.
\<close>

datatype action =
  Begin tracer ctx string string int string bool
| OpenChild "ctx option" string string int string
| RecordChild "ctx option" string int64 int64 string "span_op list"
| OnSpan span_ref "span_op list"
| CountQuery "ctx option"
| Outbound "ctx option"
| Finish "ctx option"

record sdk =
  sdk_world :: world
  sdk_minted :: "string list"

definition known_id :: "sdk \<Rightarrow> string \<Rightarrow> bool" where
  "known_id s sid \<longleftrightarrow> sid = [] \<or> sid \<in> set (sdk_minted s)"

fun perform :: "action \<Rightarrow> sdk \<Rightarrow> sdk option" where
  "perform (Begin t c name h kind cat link) s =
     map_option (\<lambda>(_, w). s\<lparr>sdk_world := w\<rparr>) (start_root t c name h kind cat link (sdk_world s))"
| "perform (OpenChild c name cat kind sid) s =
     (if known_id s sid
      then map_option (\<lambda>(_, w). s\<lparr>sdk_world := w\<rparr>) (start_child_span c name cat kind sid (sdk_world s))
      else None)"
| "perform (RecordChild c name a b sid ops) s =
     (if known_id s sid
      then map_option (\<lambda>(_, w). s\<lparr>sdk_world := w\<rparr>)
             (add_child_span_with_id c name a b sid (run_ops ops) (sdk_world s))
      else None)"
| "perform (OnSpan r ops) s = Some (s\<lparr>sdk_world := update_span r (run_ops ops) (sdk_world s)\<rparr>)"
| "perform (CountQuery c) s = Some (s\<lparr>sdk_world := increment_db_query_count c (sdk_world s)\<rparr>)"
| "perform (Outbound c) s =
     map_option (\<lambda>(r, w). s\<lparr>sdk_world := w,
         sdk_minted := (case r of None \<Rightarrow> [] | Some (_, sid) \<Rightarrow> [sid]) @ sdk_minted s\<rparr>)
       (outbound_context c (sdk_world s))"
| "perform (Finish c) s = Some (s\<lparr>sdk_world := finish c (sdk_world s)\<rparr>)"

fun run :: "action list \<Rightarrow> sdk \<Rightarrow> sdk option" where
  "run [] s = Some s"
| "run (a # acts) s = Option.bind (perform a s) (run acts)"

definition fresh_sdk :: "entropy \<Rightarrow> (nat \<Rightarrow> int64) \<Rightarrow> sdk" where
  "fresh_sdk rng clock =
     \<lparr>sdk_world = \<lparr>w_rng = rng, w_pos = 0, w_clock = clock, w_tick = 0, w_requests = [], w_sent = []\<rparr>,
      sdk_minted = []\<rparr>"

definition sdk_ok :: "sdk \<Rightarrow> bool" where
  "sdk_ok s \<longleftrightarrow> world_ok (sdk_world s) \<and> list_all (valid_id 16) (sdk_minted s)"

lemma known_id_valid: "sdk_ok s \<Longrightarrow> known_id s sid \<Longrightarrow> sid = [] \<or> valid_id 16 sid"
  by (auto simp: sdk_ok_def known_id_def list_all_iff)

lemma perform_keeps:
  assumes "sdk_ok s" and "perform a s = Some s'"
  shows "sdk_ok s'"
proof -
  have w: "world_ok (sdk_world s)" using assms(1) by (simp add: sdk_ok_def)
  note known = known_id_valid [OF assms(1)]
  show ?thesis
  proof (cases a)
    case (OpenChild c name cat kind sid)
    then show ?thesis
      using assms known [of sid] w start_child_span_shape [of c name cat kind sid "sdk_world s"]
      by (auto simp: sdk_ok_def split: if_splits intro: child_added_keeps)
  next
    case (RecordChild c name x y sid ops)
    then show ?thesis
      using assms known [of sid] w add_child_span_with_id_shape [of c name x y sid ops "sdk_world s"]
      by (auto simp: sdk_ok_def split: if_splits intro: child_added_keeps)
  next
    case (Outbound c)
    then show ?thesis
      using assms w by (auto simp: sdk_ok_def dest!: outbound_context_keeps simp: same_record_ok split: option.splits)
  qed (use assms w in \<open>auto simp: sdk_ok_def update_span_keeps increment_keeps finish_keeps dest: start_root_keeps\<close>)
qed

lemma fresh_sdk_ok [simp]: "sdk_ok (fresh_sdk rng clock)"
  by (simp add: sdk_ok_def fresh_sdk_def world_ok_def)

interpretation sdk_system: step_system
  "\<lambda>s. \<exists>rng clock. s = fresh_sdk rng clock" "\<lambda>s s'. \<exists>a. perform a s = Some s'" sdk_ok
  by unfold_locales (auto intro: perform_keeps)

lemma run_steps: "run acts s = Some s' \<Longrightarrow> (\<lambda>s s'. \<exists>a. perform a s = Some s')\<^sup>*\<^sup>* s s'"
  by (induction acts arbitrary: s)
    (auto simp: bind_eq_Some_conv intro: converse_rtranclp_into_rtranclp)

lemma run_ok: "run acts (fresh_sdk rng clock) = Some s \<Longrightarrow> sdk_ok s"
  using sdk_system.inv_steps [OF run_steps fresh_sdk_ok] .

section \<open>A demonstration run, for the witnesses\<close>

text \<open>An entropy source that answers 0xAB for ever, and a clock that counts.\<close>

definition demo_rng :: entropy where "demo_rng _ = CHR 0xAB"

definition demo_clock :: "nat \<Rightarrow> int64" where "demo_clock n = 1000 + int n"

definition demo_cfg :: config where
  "demo_cfg = \<lparr>cf_key = ''k'', cf_ingest_url = [], cf_service_name = ''svc'', cf_environment = ''test'',
     cf_sample_rate = Fin 1, cf_transport = ''http'', cf_timeout_ms = 2000, cf_capture_sql = False,
     cf_max_spans = 2, cf_logs = False, cf_logs_min_severity = 9, cf_instrument_db = None,
     cf_instrument_http = None, cf_instrument_cache = None, cf_ignore_paths = None,
     cf_redaction_query_keys = None, cf_custom_exporter = None, cf_custom_transport = None,
     cf_custom_logs_transport = None\<rparr>"

definition demo_tracer :: tracer where "demo_tracer = \<lparr>tc_cfg = demo_cfg, tc_transport = 7\<rparr>"

definition demo_trace_id :: string where "demo_trace_id = concat (replicate 16 ''ab'')"

definition demo_span_id :: string where "demo_span_id = concat (replicate 8 ''ab'')"

definition demo_begin :: action where
  "demo_begin = Begin demo_tracer [] ''GET /'' [] kind_server category_app False"

definition demo_ctx :: "ctx option" where "demo_ctx = Some [CtxState 0]"

lemma demo_block: "rand_read demo_rng p n = replicate n (CHR 0xAB)"
  by (simp add: rand_read_def demo_rng_def map_replicate_const)

lemma demo_random: "0 < n \<Longrightarrow> random_hex demo_rng n p = Some (concat (replicate n ''ab''), p + n)"
proof -
  assume "0 < n"
  moreover have "hex_byte (CHR 0xAB) = ''ab''" by code_simp
  ultimately show ?thesis
    using random_hex_at [of 0 demo_rng p n] by (simp add: demo_block all_zero_iff hex_encode_def)
qed

definition demo_acts :: "action list" where
  "demo_acts = [demo_begin, OpenChild demo_ctx ''SELECT'' category_db kind_client [],
     OnSpan (ChildRef 0 0) [SetString ''db.query.text'' ''SELECT 1''], CountQuery demo_ctx]"

section \<open>Properties\<close>

text \<open>
  C3: whatever the application and its goroutines do, in whatever order, every batch the SDK hands
  to a transport is one trace: a root with valid ids and a status first, every other span a child of
  it under the same trace id, and nothing in it unsafe to export.
\<close>
theorem batches_well_formed:
  assumes "run acts (fresh_sdk rng clock) = Some s" and "(t, p) \<in> set (w_sent (sdk_world s))"
  shows "batch_ok p"
  using run_ok [OF assms(1)] assms(2) by (auto simp: sdk_ok_def world_ok_def list_all_iff)

lemma demo_sends:
  "\<exists>s p. run (demo_acts @ [Finish demo_ctx]) (fresh_sdk demo_rng demo_clock) = Some s
     \<and> w_sent (sdk_world s) = [(7, p)] \<and> length (request_spans p) = 2"
proof -
  have "map_option (\<lambda>s. map (\<lambda>(t, p). (t, length (request_spans p))) (w_sent (sdk_world s)))
      (run (demo_acts @ [Finish demo_ctx]) (fresh_sdk demo_rng demo_clock)) = Some [(7, 2)]"
    by code_simp
  then show ?thesis by (fastforce simp: map_eq_Cons_conv)
qed

lemma batches_well_formed_witness:
  "\<exists>s p. run (demo_acts @ [Finish demo_ctx]) (fresh_sdk demo_rng demo_clock) = Some s
     \<and> (7, p) \<in> set (w_sent (sdk_world s)) \<and> batch_ok p"
proof -
  obtain s p where r: "run (demo_acts @ [Finish demo_ctx]) (fresh_sdk demo_rng demo_clock) = Some s"
      and p: "(7, p) \<in> set (w_sent (sdk_world s))"
    using demo_sends by auto
  show ?thesis using batches_well_formed [OF r p] r p by blast
qed

text \<open>
  C17: finishing a sampled request sends exactly one batch, to its own transport: the root and the
  children recorded so far in their order, never more than the configured maximum of them.
\<close>
theorem finish_sends_once:
  assumes "run acts (fresh_sdk rng clock) = Some s"
    and "request_of c (sdk_world s) = Some (a, st)" and "rs_sampled st"
  shows "\<exists>rt. w_sent (finish c (sdk_world s)) =
             w_sent (sdk_world s) @ [(rs_transport st, finish_payload st rt)]
           \<and> request_spans (finish_payload st rt) = to_data rt # map to_data (rs_raw_spans st)
           \<and> int (length (rs_raw_spans st)) \<le> max 0 (cf_max_spans (rs_cfg st))
           \<and> sp_trace_id rt = rs_trace_id st \<and> sp_span_id rt = rs_root_span_id st"
proof -
  have ok: "request_ok st"
    using run_ok [OF assms(1)] world_request [OF _ assms(2)] by (simp add: sdk_ok_def)
  from finish_sends [OF assms(2,3) ok] show ?thesis
    by (auto simp: request_ok_def root_ok_def finish_payload_def)
qed

lemma demo_open:
  "\<exists>s st. run demo_acts (fresh_sdk demo_rng demo_clock) = Some s
     \<and> request_of demo_ctx (sdk_world s) = Some (0, st) \<and> rs_sampled st
     \<and> length (rs_raw_spans st) = 1 \<and> rs_trace_id st = demo_trace_id \<and> rs_root_span_id st = demo_span_id
     \<and> rs_transport st = 7 \<and> w_sent (sdk_world s) = []"
proof -
  have "map_option (\<lambda>s. (w_sent (sdk_world s) = [], map_option (\<lambda>(a, st). (a, rs_sampled st, length (rs_raw_spans st),
        rs_trace_id st, rs_root_span_id st, rs_transport st)) (request_of demo_ctx (sdk_world s))))
      (run demo_acts (fresh_sdk demo_rng demo_clock))
      = Some (True, Some (0, True, 1, demo_trace_id, demo_span_id, 7))"
    by code_simp
  then show ?thesis by (auto simp: map_option_eq_Some)
qed

lemma finish_sends_once_witness:
  "\<exists>s st. run demo_acts (fresh_sdk demo_rng demo_clock) = Some s
     \<and> request_of demo_ctx (sdk_world s) = Some (0, st) \<and> length (w_sent (finish demo_ctx (sdk_world s))) = 1"
proof -
  obtain s st where r: "run demo_acts (fresh_sdk demo_rng demo_clock) = Some s"
    and q: "request_of demo_ctx (sdk_world s) = Some (0, st)" "rs_sampled st" and e: "w_sent (sdk_world s) = []"
    using demo_open by blast
  show ?thesis using finish_sends_once [OF r q] r q e by auto
qed

lemma unsampled_silent:
  assumes "run acts (fresh_sdk rng clock) = Some s" and "\<not> is_sampled c (sdk_world s)"
  shows "finish c (sdk_world s) = sdk_world s"
    and "start_child_span c name cat kind sid (sdk_world s) = Some (None, sdk_world s)"
    and "add_child_span_with_id c name a b sid f (sdk_world s) = Some (None, sdk_world s)"
proof -
  have "request_of c (sdk_world s) = None
      \<or> (\<exists>a st. request_of c (sdk_world s) = Some (a, st) \<and> \<not> rs_sampled st \<and> rs_root_span st = None)"
    using run_ok [OF assms(1)] assms(2) world_request [of "sdk_world s" c]
    by (auto simp: is_sampled_def sdk_ok_def request_ok_def split: option.splits)
  then show "finish c (sdk_world s) = sdk_world s"
    and "start_child_span c name cat kind sid (sdk_world s) = Some (None, sdk_world s)"
    and "add_child_span_with_id c name a b sid f (sdk_world s) = Some (None, sdk_world s)"
    by (auto simp: finish_def start_child_span_def add_child_span_with_id_def)
qed

text \<open>
  An unsampled request (or a context without one) records nothing and sends nothing: opening a
  child, recording one and finishing all leave the world as it is.
\<close>
theorem unsampled_is_silent:
  assumes "run acts (fresh_sdk rng clock) = Some s" and "\<not> is_sampled c (sdk_world s)"
  shows "finish c (sdk_world s) = sdk_world s
    \<and> start_child_span c name cat kind sid (sdk_world s) = Some (None, sdk_world s)
    \<and> add_child_span_with_id c name a b sid f (sdk_world s) = Some (None, sdk_world s)"
  using unsampled_silent [OF assms] by blast

definition demo_unsampled :: action where
  "demo_unsampled = Begin (demo_tracer\<lparr>tc_cfg := demo_cfg\<lparr>cf_sample_rate := Fin 0\<rparr>\<rparr>) [] ''GET /'' []
     kind_server category_app False"

lemma unsampled_is_silent_witness:
  "\<exists>s. run [demo_unsampled] (fresh_sdk demo_rng demo_clock) = Some s
     \<and> length (w_requests (sdk_world s)) = 1 \<and> finish demo_ctx (sdk_world s) = sdk_world s"
proof -
  have "map_option (\<lambda>s. (length (w_requests (sdk_world s)), is_sampled demo_ctx (sdk_world s)))
      (run [demo_unsampled] (fresh_sdk demo_rng demo_clock)) = Some (1, False)"
    by code_simp
  then obtain s where r: "run [demo_unsampled] (fresh_sdk demo_rng demo_clock) = Some s"
      and l: "length (w_requests (sdk_world s)) = 1" and n: "\<not> is_sampled demo_ctx (sdk_world s)"
    by (auto simp: map_option_eq_Some)
  show ?thesis using unsampled_is_silent [OF r n] r l by blast
qed

text \<open>The request an action works on.\<close>

definition ref_request :: "span_ref \<Rightarrow> nat" where
  "ref_request r = (case r of RootRef a \<Rightarrow> a | ChildRef a _ \<Rightarrow> a)"

fun action_request :: "action \<Rightarrow> nat option" where
  "action_request (Begin _ _ _ _ _ _ _) = None"
| "action_request (OpenChild c _ _ _ _) = from_context c"
| "action_request (RecordChild c _ _ _ _ _) = from_context c"
| "action_request (OnSpan r _) = Some (ref_request r)"
| "action_request (CountQuery c) = from_context c"
| "action_request (Outbound _) = None"
| "action_request (Finish c) = from_context c"

definition keeps_request :: "nat \<Rightarrow> world \<Rightarrow> world \<Rightarrow> bool" where
  "keeps_request b w w' \<longleftrightarrow>
     (b < length (w_requests w) \<longrightarrow> b < length (w_requests w') \<and> w_requests w' ! b = w_requests w ! b)"

lemma keeps_put: "b \<noteq> a \<Longrightarrow> same_record w w1 \<Longrightarrow> keeps_request b w (put_request a st w1)"
  by (simp add: keeps_request_def same_record_def put_request_nth)

lemma keeps_same: "same_record w w' \<Longrightarrow> keeps_request b w w'"
  by (simp add: keeps_request_def same_record_def)

lemma request_of_address: "request_of c w = Some (a, st) \<Longrightarrow> from_context c = Some a"
  by (auto dest: request_of_SomeD)

lemma keeps_child_added:
  "child_added c r w w' \<Longrightarrow> from_context c \<noteq> Some b \<Longrightarrow> keeps_request b w w'"
  by (auto simp: child_added_def keeps_same split: option.splits intro!: keeps_put dest!: request_of_address)

lemma keeps_finish:
  assumes "from_context c \<noteq> Some b"
  shows "keeps_request b w (finish c w)"
proof (cases "\<exists>a st. request_of c w = Some (a, st) \<and> rs_sampled st \<and> rs_root_span st \<noteq> None")
  case True
  then obtain a st where "request_of c w = Some (a, st)" "rs_sampled st" "rs_root_span st \<noteq> None" by blast
  with assms request_of_address [of c w a st] show ?thesis
    by (auto simp: finish_def Let_def split_beta keeps_request_def put_request_nth)
next
  case False
  then have "finish c w = w"
    by (intro finish_silent) (cases "request_of c w", auto)
  then show ?thesis by (simp add: keeps_same)
qed

text \<open>
  Requests never leak into each other: an operation changes only the request its context or its
  span belongs to, so any other request in flight is exactly what it was.
\<close>
theorem requests_isolated:
  assumes "run acts (fresh_sdk rng clock) = Some s" and "perform a s = Some s'"
    and "b < length (w_requests (sdk_world s))" and "action_request a \<noteq> Some b"
  shows "w_requests (sdk_world s') ! b = w_requests (sdk_world s) ! b"
proof -
  note ok = run_ok [OF assms(1)]
  have "keeps_request b (sdk_world s) (sdk_world s')"
  proof (cases a)
    case (Begin t c name h kind cat link)
    then show ?thesis
      using assms(2) by (auto dest!: start_root_shape simp: keeps_request_def nth_append)
  next
    case (OpenChild c name cat kind sid)
    then show ?thesis
      using assms(2,4) ok known_id_valid [OF ok, of sid] start_child_span_shape [of c name cat kind sid "sdk_world s"]
      by (auto simp: sdk_ok_def split: if_splits intro: keeps_child_added)
  next
    case (RecordChild c name x y sid ops)
    then show ?thesis
      using assms(2,4) ok known_id_valid [OF ok, of sid] add_child_span_with_id_shape [of c name x y sid ops "sdk_world s"]
      by (auto simp: sdk_ok_def split: if_splits intro: keeps_child_added)
  next
    case (OnSpan r ops)
    then show ?thesis
      using assms(2,4)
      by (auto simp: update_span_def ref_request_def keeps_same split: span_ref.splits option.splits intro!: keeps_put)
  next
    case (CountQuery c)
    then show ?thesis
      using assms(2,4) request_of_address [of c "sdk_world s"]
      by (auto simp: increment_db_query_count_def keeps_same split: option.splits intro!: keeps_put)
  next
    case (Outbound c)
    then show ?thesis
      using assms(2) by (auto dest!: outbound_context_keeps intro: keeps_same)
  next
    case (Finish c)
    then show ?thesis
      using assms(2,4) keeps_finish by auto
  qed
  with assms(3) show ?thesis by (simp add: keeps_request_def)
qed

lemma requests_isolated_witness:
  "\<exists>s s'. run (demo_begin # demo_acts) (fresh_sdk demo_rng demo_clock) = Some s
     \<and> perform (Finish demo_ctx) s = Some s'
     \<and> w_requests (sdk_world s') ! 1 = w_requests (sdk_world s) ! 1"
proof -
  have "map_option (\<lambda>s. length (w_requests (sdk_world s)))
      (run (demo_begin # demo_acts) (fresh_sdk demo_rng demo_clock)) = Some 2"
    by code_simp
  then obtain s where r: "run (demo_begin # demo_acts) (fresh_sdk demo_rng demo_clock) = Some s"
      and l: "1 < length (w_requests (sdk_world s))"
    by (auto simp: map_option_eq_Some)
  have p: "perform (Finish demo_ctx) s = Some (s\<lparr>sdk_world := finish demo_ctx (sdk_world s)\<rparr>)" by simp
  show ?thesis
    using requests_isolated [OF r p l] r p by (auto simp: demo_ctx_def from_context_def)
qed



lemma continued_trace:
  assumes "parse_traceparent h = Some tp" and "start_root t c name h kind cat link w = Some (c', w')"
  shows "trace_id_of (Some c') w' = tp_trace_id tp"
    and "is_sampled (Some c') w' \<longleftrightarrow> config_enabled (tc_cfg t) \<and> tp_sampled tp"
    and "\<forall>a st sp. request_of (Some c') w' = Some (a, st) \<and> rs_root_span st = Some sp
           \<longrightarrow> sp_trace_id sp = tp_trace_id tp \<and> sp_parent_span_id sp = tp_parent_span_id tp"
proof -
  have h: "trace_head t h w = Some ((tp_trace_id tp, tp_parent_span_id tp,
      config_enabled (tc_cfg t) \<and> tp_sampled tp), w)"
    using assms(1) by (simp add: trace_head_def)
  obtain i w2 where i: "fresh_span_id w = Some (i, w2)"
    using assms(2) h by (auto simp: start_root_def bind_eq_Some_conv)
  have r: "request_of (Some (CtxState (length xs) # c)) (v\<lparr>w_requests := xs @ [st]\<rparr>)
      = Some (length xs, st)" for v xs st
    by (simp add: request_of_def from_context_def request_at_def)
  have sp: "sp_trace_id (root_span_of ti i p name kind cat link now) = ti
      \<and> sp_parent_span_id (root_span_of ti i p name kind cat link now) = p" for ti p now
    by (simp add: root_span_of_def span_defs new_span_def)
  show "trace_id_of (Some c') w' = tp_trace_id tp"
    and "is_sampled (Some c') w' \<longleftrightarrow> config_enabled (tc_cfg t) \<and> tp_sampled tp"
    and "\<forall>a st sp. request_of (Some c') w' = Some (a, st) \<and> rs_root_span st = Some sp
           \<longrightarrow> sp_trace_id sp = tp_trace_id tp \<and> sp_parent_span_id sp = tp_parent_span_id tp"
    using assms(2) h i sp
    by (auto simp: start_root_def Let_def trace_id_of_def is_sampled_def r split: if_splits)
qed

text \<open>
  A continued trace keeps its identity and its fate: a request that arrives with a valid
  \<open>traceparent\<close> gets the caller's trace id, is recorded exactly when the caller's flag says so (and
  the SDK is enabled), whatever the local sampling rate, and its root is a child of the caller's span.
\<close>
theorem continued_trace_inherits:
  assumes "parse_traceparent h = Some tp" and "start_root t c name h kind cat link w = Some (c', w')"
  shows "trace_id_of (Some c') w' = tp_trace_id tp
    \<and> (is_sampled (Some c') w' \<longleftrightarrow> config_enabled (tc_cfg t) \<and> tp_sampled tp)
    \<and> (\<forall>a st sp. request_of (Some c') w' = Some (a, st) \<and> rs_root_span st = Some sp
           \<longrightarrow> sp_trace_id sp = tp_trace_id tp \<and> sp_parent_span_id sp = tp_parent_span_id tp)"
  using continued_trace [OF assms] by blast

definition demo_header :: string where
  "demo_header = format_traceparent demo_trace_id demo_span_id True"

lemma demo_header_parses:
  "parse_traceparent demo_header
     = Some \<lparr>tp_trace_id = demo_trace_id, tp_parent_span_id = demo_span_id, tp_sampled = True\<rparr>"
  by code_simp

lemma continued_trace_inherits_witness:
  "\<exists>c' w'. start_root (demo_tracer\<lparr>tc_cfg := demo_cfg\<lparr>cf_sample_rate := Fin 0\<rparr>\<rparr>) [] ''x'' demo_header
       kind_server category_app False (sdk_world (fresh_sdk demo_rng demo_clock)) = Some (c', w')
     \<and> trace_id_of (Some c') w' = demo_trace_id \<and> is_sampled (Some c') w'"
proof -
  let ?t = "demo_tracer\<lparr>tc_cfg := demo_cfg\<lparr>cf_sample_rate := Fin 0\<rparr>\<rparr>"
  have "lively (sdk_world (fresh_sdk demo_rng demo_clock))"
    by (auto simp: lively_def fresh_sdk_def demo_rng_def)
  then obtain i w2 where "fresh_span_id (sdk_world (fresh_sdk demo_rng demo_clock)) = Some (i, w2)"
    using fresh_ids_return(2) by blast
  then obtain c' w' where s: "start_root ?t [] ''x'' demo_header kind_server category_app False
      (sdk_world (fresh_sdk demo_rng demo_clock)) = Some (c', w')"
    by (auto simp: start_root_def trace_head_def demo_header_parses Let_def split_beta)
  show ?thesis
    using continued_trace_inherits [OF demo_header_parses s] s
    by (simp add: demo_tracer_def demo_cfg_def config_enabled_def)
qed

lemma hop_keeps_trace:
  assumes "run acts (fresh_sdk rng clock) = Some s"
    and "outbound_context c (sdk_world s) = Some (Some (h, sid), w1)"
    and "start_root t c2 name h kind cat link w2 = Some (c', w')"
  shows "valid_id 16 sid"
    and "trace_id_of (Some c') w' = trace_id_of c (sdk_world s)"
    and "is_sampled (Some c') w' \<longleftrightarrow> config_enabled (tc_cfg t) \<and> is_sampled c (sdk_world s)"
proof -
  obtain a st where q: "request_of c (sdk_world s) = Some (a, st)" and en: "rs_enabled st"
      and h: "h = format_traceparent (rs_trace_id st) sid (rs_sampled st)"
    using assms(2) by (auto simp: outbound_context_def bind_eq_Some_conv split: option.splits if_splits)
  show sid: "valid_id 16 sid"
    using outbound_context_keeps [OF assms(2)] by simp
  have ok: "request_ok st"
    using run_ok [OF assms(1)] world_request [OF _ q] by (simp add: sdk_ok_def)
  then have p: "parse_traceparent h
      = Some \<lparr>tp_trace_id = rs_trace_id st, tp_parent_span_id = sid, tp_sampled = rs_sampled st\<rparr>"
    using parse_format_traceparent sid unfolding h request_ok_def by blast
  show "trace_id_of (Some c') w' = trace_id_of c (sdk_world s)"
    and "is_sampled (Some c') w' \<longleftrightarrow> config_enabled (tc_cfg t) \<and> is_sampled c (sdk_world s)"
    using continued_trace [OF p assms(3)] q en ok
    by (auto simp: trace_id_of_def is_sampled_def request_ok_def)
qed

text \<open>
  C33: a trace survives a hop: the header a request sends out makes the receiving service, if it is
  enabled, continue the same trace with the same sampling decision, under the announced span id.
\<close>
theorem trace_survives_hop:
  assumes "run acts (fresh_sdk rng clock) = Some s"
    and "outbound_context c (sdk_world s) = Some (Some (h, sid), w1)"
    and "start_root t c2 name h kind cat link w2 = Some (c', w')"
  shows "valid_id 16 sid
    \<and> trace_id_of (Some c') w' = trace_id_of c (sdk_world s)
    \<and> (is_sampled (Some c') w' \<longleftrightarrow> config_enabled (tc_cfg t) \<and> is_sampled c (sdk_world s))"
  using hop_keeps_trace [OF assms] by blast

lemma trace_survives_hop_witness:
  "\<exists>s h sid w1 c' w'. run [demo_begin] (fresh_sdk demo_rng demo_clock) = Some s
     \<and> outbound_context demo_ctx (sdk_world s) = Some (Some (h, sid), w1)
     \<and> start_root demo_tracer [] ''next'' h kind_server category_app False w1 = Some (c', w')
     \<and> trace_id_of (Some c') w' = trace_id_of demo_ctx (sdk_world s) \<and> is_sampled (Some c') w'"
proof -
  let ?hop = "\<lambda>s. Option.bind (outbound_context demo_ctx (sdk_world s)) (\<lambda>(r, w1).
      Option.bind r (\<lambda>(h, _). start_root demo_tracer [] ''next'' h kind_server category_app False w1))"
  have "map_option (\<lambda>s. (is_sampled demo_ctx (sdk_world s), ?hop s \<noteq> None))
      (run [demo_begin] (fresh_sdk demo_rng demo_clock)) = Some (True, True)"
    by code_simp
  then obtain s h sid w1 c' w' where r: "run [demo_begin] (fresh_sdk demo_rng demo_clock) = Some s"
      and o: "outbound_context demo_ctx (sdk_world s) = Some (Some (h, sid), w1)"
      and b: "start_root demo_tracer [] ''next'' h kind_server category_app False w1 = Some (c', w')"
      and i: "is_sampled demo_ctx (sdk_world s)"
    by (auto simp: map_option_eq_Some bind_eq_Some_conv)
  show ?thesis
    using trace_survives_hop [OF r o b] r o b i
    by (auto simp: demo_tracer_def demo_cfg_def config_enabled_def)
qed

end
