(* ===== verification/Sampling.thy ===== *)
theory Sampling
  imports Tracer
begin

text \<open>
  \<open>sampleDecision\<close> of \<open>tracer.go\<close>: which trace ids a rate keeps.  The decision is a function of the
  last four random bytes of the id, so its accuracy is a count over those bytes.
\<close>

section \<open>The decision\<close>

lemma hex_parse_bytes:
  "parse_digits 16 a (hex_encode bs) = Some (foldl (\<lambda>a c. a * 256 + ord c) a bs)"
proof (induction bs arbitrary: a)
  case (Cons c bs)
  have d: "digit_val (digit_char d) = Some d" if "d < 16" for d
    using that by (auto simp: digit_val_def digit_char_def in_range_def)
  have "(a * 16 + ord c div 16) * 16 + ord c mod 16 = a * 256 + ord c"
    by (simp add: algebra_simps)
  then show ?case
    using Cons [of "a * 256 + ord c"] d [of "ord c div 16"] d [of "ord c mod 16"]
    by (simp add: hex_encode_def hex_byte_def less_mult_imp_div_less ac_simps)
qed (simp add: hex_encode_def)

definition bucket_of :: "string \<Rightarrow> nat" where
  "bucket_of bs = foldl (\<lambda>a c. a * 256 + ord c) 0 bs"

lemma bucket_of_snoc [simp]: "bucket_of (bs @ [c]) = bucket_of bs * 256 + ord c"
  by (simp add: bucket_of_def)

lemma bucket_of_nil [simp]: "bucket_of [] = 0"
  by (simp add: bucket_of_def)

lemma bucket_of_less: "bucket_of bs < 256 ^ length bs"
proof (induction bs rule: rev_induct)
  case (snoc c bs)
  then have "bucket_of bs + 1 \<le> 256 ^ length bs" by simp
  then have "(bucket_of bs + 1) * 256 \<le> 256 ^ length bs * 256" by (rule mult_le_mono1)
  then show ?case by (simp add: less_le_trans [of _ "(bucket_of bs + 1) * 256"] algebra_simps)
qed simp

lemma bucket_of_inj: "length as = length bs \<Longrightarrow> bucket_of as = bucket_of bs \<Longrightarrow> as = bs"
proof (induction bs arbitrary: as rule: rev_induct)
  case (snoc c bs)
  obtain as' c' where as: "as = as' @ [c']"
    using snoc.prems(1) by (metis append_Nil length_0_conv length_append_singleton nat.distinct(1) rev_exhaust)
  have eq: "bucket_of as' * 256 + ord c' = bucket_of bs * 256 + ord c"
    using snoc.prems(2) as by simp
  have "bucket_of as' = bucket_of bs" "ord c' = ord c"
    using arg_cong [OF eq, of "\<lambda>n. n div 256"] arg_cong [OF eq, of "\<lambda>n. n mod 256"] by simp_all
  then show ?case
    using snoc as by (simp add: ord_inject)
qed simp

lemma bucket_of_bij: "bij_betw bucket_of {bs. length bs = n} {..< 256 ^ n}"
proof -
  let ?A = "{bs :: string. length bs = n}"
  have inj: "inj_on bucket_of ?A"
    by (auto simp: inj_on_def intro: bucket_of_inj)
  have "?A = {bs. set bs \<subseteq> UNIV \<and> length bs = n}" by simp
  then have "card ?A = 256 ^ n"
    using card_lists_length_eq [of "UNIV :: char set" n] card_UNIV_char by simp
  moreover have "bucket_of ` ?A \<subseteq> {..< 256 ^ n}"
    using bucket_of_less by fastforce
  ultimately have "bucket_of ` ?A = {..< 256 ^ n}"
    using card_image [OF inj] by (intro card_subset_eq) simp_all
  with inj show ?thesis by (simp add: bij_betw_def)
qed

lemma hex_encode_length: "length (hex_encode bs) = 2 * length bs"
  by (induction bs) (simp_all add: hex_encode_def hex_byte_def)

lemma sample_decision_bytes:
  assumes "length bs = 4" and "0 < r" and "r < 1"
  shows "sample_decision (prefix @ hex_encode bs) (Fin r)
           \<longleftrightarrow> round_quot (bucket_of bs) 4294967295 < r"
proof -
  have tail: "(if 8 < length (prefix @ hex_encode bs)
      then drop (length (prefix @ hex_encode bs) - 8) (prefix @ hex_encode bs)
      else prefix @ hex_encode bs) = hex_encode bs"
    using assms(1) by (auto simp: hex_encode_length)
  have "bucket_of bs < 2 ^ 64"
    using bucket_of_less [of bs] assms(1) by simp
  moreover have "length (hex_encode bs) = 8"
    using assms(1) by (simp add: hex_encode_length)
  then have "hex_encode bs \<noteq> []" by (metis list.size(3) zero_neq_numeral)
  ultimately have "parse_uint 16 64 (hex_encode bs) = Some (bucket_of bs)"
    by (simp add: parse_uint_def hex_parse_bytes bucket_of_def)
  then show ?thesis
    using assms(2,3) unfolding sample_decision_def Let_def tail by simp
qed

section \<open>Counting the ids a rate keeps\<close>

lemma kept_bounds:
  fixes x r :: rat
  assumes "\<bar>x - of_nat b / 4294967295\<bar> \<le> 1 / 2 ^ 53"
  shows "of_nat b < r * 4294967295 - 1 / 2 ^ 20 \<Longrightarrow> x < r"
    and "x < r \<Longrightarrow> of_nat b < r * 4294967295 + 1 / 2 ^ 20"
proof -
  have "x \<le> of_nat b / 4294967295 + 1 / 2 ^ 53" "of_nat b / 4294967295 \<le> x + 1 / 2 ^ 53"
    using assms by linarith+
  then have b: "x * 4294967295 \<le> of_nat b + 4294967295 / 2 ^ 53"
    "of_nat b \<le> x * 4294967295 + 4294967295 / 2 ^ 53"
    by (simp_all add: field_simps)
  show "of_nat b < r * 4294967295 - 1 / 2 ^ 20 \<Longrightarrow> x < r"
    and "x < r \<Longrightarrow> of_nat b < r * 4294967295 + 1 / 2 ^ 20"
    using b by simp_all
qed

lemma card_below:
  fixes x :: rat
  assumes "0 \<le> x"
  shows "x \<le> of_nat (card {b :: nat. of_nat b < x})" and "of_nat (card {b :: nat. of_nat b < x}) < x + 1"
    and "finite {b :: nat. of_nat b < x}"
proof -
  have "of_nat b < x \<longleftrightarrow> b < nat \<lceil>x\<rceil>" for b
    using assms by (metis less_ceiling_iff of_int_of_nat_eq zless_nat_eq_int_zless)
  then have eq: "{b :: nat. of_nat b < x} = {..< nat \<lceil>x\<rceil>}" by auto
  have "x \<le> of_int \<lceil>x\<rceil>" "of_int \<lceil>x\<rceil> < x + 1" "0 \<le> \<lceil>x\<rceil>"
    using assms by linarith+
  then show "x \<le> of_nat (card {b :: nat. of_nat b < x})" "of_nat (card {b :: nat. of_nat b < x}) < x + 1"
    "finite {b :: nat. of_nat b < x}"
    unfolding eq by simp_all
qed

definition kept :: "string \<Rightarrow> rat \<Rightarrow> string set" where
  "kept prefix r = {bs. length bs = 4 \<and> sample_decision (prefix @ hex_encode bs) (Fin r)}"

lemma kept_card:
  assumes "0 < r" and "r < 1"
  shows "card (kept prefix r) = card {b. b < 2 ^ 32 \<and> round_quot b 4294967295 < r}"
proof (rule bij_betw_same_card)
  have "bij_betw bucket_of {bs \<in> {bs. length bs = 4}. sample_decision (prefix @ hex_encode bs) (Fin r)}
      {b \<in> {..< 256 ^ 4}. round_quot b 4294967295 < r}"
    by (rule bij_betw_Collect [OF bucket_of_bij]) (simp add: sample_decision_bytes assms)
  then show "bij_betw bucket_of (kept prefix r) {b. b < 2 ^ 32 \<and> round_quot b 4294967295 < r}"
    by (simp add: kept_def)
qed

text \<open>
  C21: a sampling rate strictly between 0 and 1 keeps its share of the trace ids: of the 2^32 endings
  a random id can have, the number kept is within two of \<open>rate * 2^32\<close>, whatever the rest of the
  id, float rounding included.
\<close>
theorem sampling_rate_accurate:
  assumes "0 < r" and "r < 1"
  shows "\<bar>of_nat (card (kept prefix r)) - r * 2 ^ 32\<bar> \<le> (2 :: rat)"
proof -
  let ?K = "{b. b < 2 ^ 32 \<and> round_quot b 4294967295 < r}"
  let ?below = "\<lambda>x :: rat. {b :: nat. of_nat b < x}"
  define lo where "lo = max 0 (r * 4294967295 - 1 / 2 ^ 20)"
  define hi where "hi = r * 4294967295 + 1 / 2 ^ 20"
  have err: "\<bar>round_quot b 4294967295 - of_nat b / 4294967295\<bar> \<le> 1 / 2 ^ 53" for b
    using round_quot_error [of 4294967295 b] by simp
  have "?below lo \<subseteq> ?K"
  proof
    fix b assume "b \<in> ?below lo"
    then have b: "of_nat b < r * 4294967295 - 1 / 2 ^ 20" by (auto simp: lo_def)
    also have "\<dots> < of_nat (2 ^ 32)" using assms(2) by simp
    finally have "b < 2 ^ 32" unfolding of_nat_less_iff .
    with b kept_bounds(1) [OF err] show "b \<in> ?K" by simp
  qed
  moreover have "?K \<subseteq> ?below hi"
    using kept_bounds(2) [OF err] by (auto simp: hi_def)
  moreover have "0 \<le> lo" "0 \<le> hi" using assms by (simp_all add: lo_def hi_def)
  ultimately have "lo \<le> of_nat (card ?K)" and "of_nat (card ?K) < hi + 1"
    using card_below [of lo] card_below [of hi] card_mono [of ?K "?below lo"] card_mono [of "?below hi" ?K]
    by (meson finite_subset le_less_trans of_nat_mono order_trans)+
  then show ?thesis
    using assms unfolding kept_card [OF assms] lo_def hi_def abs_le_iff by (auto simp: max_def split: if_splits)
qed

lemma sampling_rate_accurate_witness:
  "0 < (1 / 4 :: rat) \<and> \<bar>of_nat (card (kept ''ab'' (1 / 4))) - (2 ^ 30 :: rat)\<bar> \<le> 2"
  using sampling_rate_accurate [of "1 / 4" "''ab''"] by simp

text \<open>
  Raising the rate never drops a trace that a lower rate keeps, so services that sample the same
  trace at different rates keep nested sets of traces.
\<close>
theorem sampling_monotone:
  assumes "r \<le> r'" and "sample_decision trace_id r"
  shows "sample_decision trace_id r'"
  using assms
  by (cases r; cases r') (auto simp: sample_decision_def Let_def split: if_splits option.splits)

lemma sampling_monotone_witness: "sample_decision (replicate 32 (CHR ''7'')) (Fin (3 / 4))"
proof -
  have "sample_decision (replicate 32 (CHR ''7'')) (Fin (1 / 2))" by code_simp
  then show ?thesis by (rule sampling_monotone [rotated]) simp
qed

text \<open>A rate of at least 1 keeps every trace; a rate of at most 0, or NaN, keeps none.\<close>
theorem sampling_extremes:
  "(Fin 1 \<le> r \<longrightarrow> sample_decision trace_id r)
   \<and> (r \<le> Fin 0 \<or> r = NaN \<longrightarrow> \<not> sample_decision trace_id r)"
  by (cases r) (auto simp: sample_decision_def Let_def split: option.splits)

lemma sampling_extremes_witness: "sample_decision [] PosInf \<and> \<not> sample_decision (replicate 32 (CHR ''0'')) NaN"
  using sampling_extremes [of PosInf "[]"] sampling_extremes [of NaN "replicate 32 (CHR ''0'')"] by simp

end
