(* ===== verification/Middleware.thy ===== *)
theory Middleware
  imports Requests
begin

text \<open>
  The SDK handle's request side: which paths are traced and which route template a request reports
  (\<open>restlytics.go\<close>), and the net/http middleware with its status-recording response writer
  (\<open>httpmiddleware.go\<close>).  A handler is what it does with the context it is given: the SDK calls it
  (and its goroutines) make, what it writes to the response, and how it ends.
\<close>

section \<open>Paths and routes\<close>

record restlytics =
  rl_tracer :: tracer
  rl_cfg :: config

definition match_path :: "string \<Rightarrow> string \<Rightarrow> bool" where
  "match_path pattern path =
     (if has_suffix pattern ''*'' then has_prefix path (trim_suffix pattern ''*'') else pattern = path)"

fun should_trace_paths :: "string list \<Rightarrow> string \<Rightarrow> bool" where
  "should_trace_paths [] p = True"
| "should_trace_paths (pattern # rest) p =
     (let pat = CHR ''/'' # trim_left (CHR ''/'') pattern
      in if match_path pat p then False else should_trace_paths rest p)"

definition ignore_paths :: "config \<Rightarrow> string list" where
  "ignore_paths cfg = (case cf_ignore_paths cfg of None \<Rightarrow> [] | Some ps \<Rightarrow> ps)"

definition should_trace :: "restlytics \<Rightarrow> string \<Rightarrow> bool" where
  "should_trace r path =
     (let p = CHR ''/'' # trim_left (CHR ''/'') path in should_trace_paths (ignore_paths (rl_cfg r)) p)"

definition with_route :: "ctx \<Rightarrow> string \<Rightarrow> ctx" where
  "with_route c template = CtxRoute template # c"

definition route_from_context :: "ctx option \<Rightarrow> string" where
  "route_from_context c =
     (case c of None \<Rightarrow> [] | Some ctx \<Rightarrow> (case ctx_route ctx of Some v \<Rightarrow> v | None \<Rightarrow> []))"

definition set_route :: "ctx option \<Rightarrow> string \<Rightarrow> world \<Rightarrow> world" where
  "set_route c template w =
     (case root_span c w of
        Some root_ref \<Rightarrow>
          if template \<noteq> [] then update_span root_ref (set_string attr_http_route template) w else w
      | None \<Rightarrow> w)"

section \<open>The response writer\<close>

datatype response_event = WriteHeader int | WriteBody string

record status_writer =
  sw_status :: int
  sw_wrote_header :: bool

fun sw_event :: "response_event \<Rightarrow> status_writer \<Rightarrow> status_writer" where
  "sw_event (WriteHeader code) w =
     (if \<not> sw_wrote_header w then w\<lparr>sw_status := code, sw_wrote_header := True\<rparr> else w)"
| "sw_event (WriteBody b) w = (if \<not> sw_wrote_header w then w\<lparr>sw_wrote_header := True\<rparr> else w)"

definition status_ok_code :: int where "status_ok_code = 200"

definition status_internal_error :: int where "status_internal_error = 500"

definition new_status_writer :: status_writer where
  "new_status_writer = \<lparr>sw_status = status_ok_code, sw_wrote_header = False\<rparr>"

definition recorded_status :: "response_event list \<Rightarrow> int" where
  "recorded_status evs = sw_status (fold sw_event evs new_status_writer)"

section \<open>The middleware\<close>

record http_in =
  rq_method :: string
  rq_path :: string
  rq_traceparent :: string
  rq_ctx :: ctx

record handler_run =
  hn_acts :: "action list"
  hn_events :: "response_event list"
  hn_result :: "unit outcome"

definition http_route :: "ctx option \<Rightarrow> string" where
  "http_route c = (let rt = route_from_context c in if rt \<noteq> [] then rt else ''/*'')"

definition http_outcome :: "bool \<Rightarrow> int \<Rightarrow> span \<Rightarrow> span" where
  "http_outcome panicked status s =
     (if panicked then
        set_int attr_http_response_status_code status_internal_error (set_status status_error ''panic'' s)
      else if status \<ge> 500 then
        (if sp_status_code s \<noteq> status_error then set_status status_error (''HTTP '' @ format_int status) s else s)
      else if sp_status_code s = status_unset then set_status status_ok [] s
      else s)"

definition http_stamp :: "string \<Rightarrow> string \<Rightarrow> int \<Rightarrow> bool \<Rightarrow> span \<Rightarrow> span" where
  "http_stamp meth route status panicked s =
     http_outcome panicked status
       (set_int attr_http_response_status_code status
         (set_string attr_http_route route
           (set_string attr_http_request_method meth
             (set_name (meth @ '' '' @ route) s))))"

definition finish_http :: "ctx \<Rightarrow> http_in \<Rightarrow> int \<Rightarrow> bool \<Rightarrow> world \<Rightarrow> world" where
  "finish_http c req status panicked w =
     (case root_span (Some c) w of
        None \<Rightarrow> w
      | Some root_ref \<Rightarrow>
          finish (Some c)
            (update_span root_ref (http_stamp (rq_method req) (http_route (Some c)) status panicked) w))"

definition on_world :: "(world \<Rightarrow> world) \<Rightarrow> sdk \<Rightarrow> sdk" where
  "on_world f s = s\<lparr>sdk_world := f (sdk_world s)\<rparr>"

definition middleware ::
  "restlytics \<Rightarrow> http_in \<Rightarrow> (ctx \<Rightarrow> handler_run) \<Rightarrow> sdk \<Rightarrow> ((response_event list \<times> unit outcome) \<times> sdk) option" where
  "middleware r req handler s =
     (if \<not> config_enabled (rl_cfg r) \<or> \<not> should_trace r (rq_path req) then
        (let h = handler (rq_ctx req)
         in map_option (\<lambda>s'. ((hn_events h, hn_result h), s')) (run (hn_acts h) s))
      else do {
        (c, w1) \<leftarrow> start (rl_tracer r) (rq_ctx req) (rq_method req @ '' '' @ rq_path req)
                     (rq_traceparent req) (sdk_world s);
        let h = handler c;
        s2 \<leftarrow> run (hn_acts h) (s\<lparr>sdk_world := w1\<rparr>);
        let s3 = on_world (finish_http c req (recorded_status (hn_events h)) (is_panic (hn_result h))) s2;
        Some ((hn_events h, hn_result h), s3)
      })"

section \<open>What a handler cannot change\<close>

text \<open>The parts of a request state that are decided at its start.\<close>

definition same_fixed :: "request_state \<Rightarrow> request_state \<Rightarrow> bool" where
  "same_fixed st st' \<longleftrightarrow>
     rs_enabled st' = rs_enabled st \<and> rs_sampled st' = rs_sampled st \<and> rs_trace_id st' = rs_trace_id st
     \<and> rs_root_span_id st' = rs_root_span_id st \<and> rs_cfg st' = rs_cfg st
     \<and> rs_transport st' = rs_transport st \<and> (rs_root_span st' = None \<longleftrightarrow> rs_root_span st = None)"

definition keeps_fixed :: "nat \<Rightarrow> world \<Rightarrow> world \<Rightarrow> bool" where
  "keeps_fixed b w w' \<longleftrightarrow>
     (b < length (w_requests w) \<longrightarrow>
        b < length (w_requests w') \<and> same_fixed (w_requests w ! b) (w_requests w' ! b))"

lemma same_fixed_refl [simp]: "same_fixed st st"
  by (simp add: same_fixed_def)

lemma keeps_fixed_refl [simp]: "keeps_fixed b w w"
  by (simp add: keeps_fixed_def)

lemma keeps_fixed_trans: "keeps_fixed b u v \<Longrightarrow> keeps_fixed b v w \<Longrightarrow> keeps_fixed b u w"
  by (auto simp: keeps_fixed_def same_fixed_def)

lemma keeps_fixed_same: "same_record w w' \<Longrightarrow> keeps_fixed b w w'"
  by (simp add: keeps_fixed_def same_record_def)

lemma keeps_fixed_put:
  assumes "same_record w w1" and "request_at w a = Some st" and "same_fixed st st'"
  shows "keeps_fixed b w (put_request a st' w1)"
  using assms by (auto simp: keeps_fixed_def same_record_def put_request_nth request_at_def split: if_splits)

lemma request_of_at: "request_of c w = Some (a, st) \<Longrightarrow> request_at w a = Some st"
  by (auto simp: request_of_def split: option.splits)

lemma keeps_fixed_child: "child_added c r w w' \<Longrightarrow> keeps_fixed b w w'"
  by (auto simp: child_added_def same_fixed_def split: option.splits intro!: keeps_fixed_put dest!: request_of_at)

lemma keeps_fixed_finish: "keeps_fixed b w (finish c w)"
proof (cases "\<exists>a st sp. request_of c w = Some (a, st) \<and> rs_sampled st \<and> rs_root_span st = Some sp")
  case True
  then obtain a st sp where q: "request_of c w = Some (a, st)" "rs_sampled st" "rs_root_span st = Some sp" by blast
  let ?st = "st\<lparr>rs_root_span := Some (finish_root st (fst (now_ns w)) sp)\<rparr>"
  have "keeps_fixed b w (put_request a ?st (snd (now_ns w)))"
    using q by (intro keeps_fixed_put [of w _ a st]) (auto simp: same_fixed_def dest: request_of_at)
  then show ?thesis
    using q by (simp add: finish_def Let_def split_beta keeps_fixed_def)
next
  case False
  then have "finish c w = w" by (intro finish_silent) (cases "request_of c w", auto)
  then show ?thesis by simp
qed

lemma keeps_fixed_update: "keeps_fixed b w (update_span r f w)"
  by (cases r) (auto simp: update_span_def same_fixed_def split: option.splits intro!: keeps_fixed_put)

lemma perform_fixed:
  assumes "sdk_ok s" and "perform a s = Some s'"
  shows "keeps_fixed b (sdk_world s) (sdk_world s')"
proof (cases a)
  case (Begin t c name h kind cat link)
  then show ?thesis
    using assms(2) by (auto dest!: start_root_shape simp: keeps_fixed_def nth_append)
next
  case (OpenChild c name cat kind sid)
  then show ?thesis
    using assms known_id_valid [OF assms(1), of sid] start_child_span_shape [of c name cat kind sid "sdk_world s"]
    by (auto simp: sdk_ok_def split: if_splits intro: keeps_fixed_child)
next
  case (RecordChild c name x y sid ops)
  then show ?thesis
    using assms known_id_valid [OF assms(1), of sid] add_child_span_with_id_shape [of c name x y sid ops "sdk_world s"]
    by (auto simp: sdk_ok_def split: if_splits intro: keeps_fixed_child)
next
  case (CountQuery c)
  then show ?thesis
    using assms(2)
    by (auto simp: increment_db_query_count_def same_fixed_def split: option.splits
        intro!: keeps_fixed_put dest!: request_of_at)
next
  case (Outbound c)
  then show ?thesis
    using assms(2) by (auto dest!: outbound_context_keeps intro: keeps_fixed_same)
qed (use assms(2) in \<open>auto simp: keeps_fixed_update keeps_fixed_finish\<close>)

lemma run_keeps:
  assumes "run acts s = Some s'" and "sdk_ok s"
  shows "sdk_ok s' \<and> keeps_fixed b (sdk_world s) (sdk_world s')"
  using assms
proof (induction acts arbitrary: s)
  case (Cons a acts)
  then obtain u where u: "perform a s = Some u" "run acts u = Some s'"
    by (auto simp: bind_eq_Some_conv)
  show ?case
    using Cons.IH [OF u(2) perform_keeps [OF Cons.prems(2) u(1)]] perform_fixed [OF Cons.prems(2) u(1)]
      keeps_fixed_trans by blast
qed simp

section \<open>What the root span says at the end\<close>

definition finish_keys :: "string list" where
  "finish_keys = [attr_self_ns_db, attr_self_ns_http, attr_self_ns_cache, attr_self_ns_queue, attr_self_ns_app,
     attr_db_query_count, attr_category]"

lemma get_attr_set_int:
  "span_wf s \<Longrightarrow> k' \<noteq> k \<Longrightarrow> get_attr (set_int k v s) k' = get_attr s k'"
  by (simp add: set_int_def get_attr_set_attr)

lemma get_attr_set_string:
  "span_wf s \<Longrightarrow> k' \<noteq> k \<Longrightarrow> get_attr (set_string k v s) k' = get_attr s k'"
  by (simp add: set_string_def Let_def get_attr_set_attr)

lemma get_attr_plain [simp]:
  "get_attr (set_status c m s) = get_attr s" "get_attr (set_end e s) = get_attr s"
  "get_attr (set_name n s) = get_attr s"
  by (simp_all add: get_attr_def set_status_def set_end_def set_name_def fun_eq_iff)

lemma finish_root_attr:
  assumes "span_wf s" and "k \<notin> set finish_keys"
  shows "get_attr (finish_root st now s) k = get_attr s k"
  using assms
  by (simp add: finish_root_def attach_self_time_def Let_def finish_keys_def get_attr_set_int get_attr_set_string
      span_ops_wf)

lemma set_attr_fields [simp]:
  "sp_name (set_attr k v s) = sp_name s" "sp_status_code (set_attr k v s) = sp_status_code s"
  by (simp_all add: set_attr_def split: option.splits)

lemma set_ops_fields [simp]:
  "sp_name (set_string k x s) = sp_name s" "sp_name (set_int k i s) = sp_name s"
  "sp_name (set_status c m s) = sp_name s" "sp_name (set_end e s) = sp_name s" "sp_name (set_name n s) = n"
  "sp_status_code (set_string k x s) = sp_status_code s" "sp_status_code (set_int k i s) = sp_status_code s"
  "sp_status_code (set_end e s) = sp_status_code s" "sp_status_code (set_name n s) = sp_status_code s"
  "sp_status_code (set_status c m s) = c"
  by (simp_all add: span_defs set_status_def)

lemma finish_root_fields:
  "sp_name (finish_root st now s) = sp_name s"
  "sp_status_code (finish_root st now s) = (if sp_status_code s = status_unset then status_ok else sp_status_code s)"
  by (simp_all add: finish_root_def attach_self_time_def Let_def)

lemma http_keys_plain:
  "\<not> is_sensitive_attribute_key attr_http_response_status_code"
  "\<not> is_sensitive_attribute_key attr_http_route"
  "\<not> is_sensitive_attribute_key attr_http_request_method"
  "\<not> equal_fold attr_http_route attr_url_full" "\<not> equal_fold attr_http_request_method attr_url_full"
  by code_simp+

lemma http_keys_distinct:
  "attr_http_response_status_code \<notin> set finish_keys" "attr_http_route \<notin> set finish_keys"
  "attr_http_request_method \<notin> set finish_keys"
  "attr_http_route \<noteq> attr_http_response_status_code" "attr_http_request_method \<noteq> attr_http_response_status_code"
  "attr_http_request_method \<noteq> attr_http_route"
  by (simp_all add: finish_keys_def const_defs)

lemma http_stamp_ops: "\<exists>ops. http_stamp meth route status panicked s = run_ops ops s"
proof -
  let ?base = "[SetName (meth @ '' '' @ route), SetString attr_http_request_method meth,
      SetString attr_http_route route, SetInt attr_http_response_status_code status]"
  let ?s = "run_ops ?base s"
  show ?thesis
    by (rule exI [of _ "?base @
        (if panicked then [SetStatus status_error ''panic'', SetInt attr_http_response_status_code status_internal_error]
         else if status \<ge> 500 then
           (if sp_status_code ?s \<noteq> status_error then [SetStatus status_error (''HTTP '' @ format_int status)] else [])
         else if sp_status_code ?s = status_unset then [SetStatus status_ok []] else [])"])
      (simp add: http_stamp_def http_outcome_def run_ops_def)
qed

lemma http_stamp_ok: "root_ok t i s \<Longrightarrow> root_ok t i (http_stamp meth route status panicked s)"
  using http_stamp_ops [of meth route status panicked s] run_ops_ok(1) by fastforce

lemma http_stamp_fields:
  assumes "span_wf s" and "s' = http_stamp meth route status panicked s"
  shows "sp_name s' = meth @ '' '' @ route"
    and "get_attr s' attr_http_request_method = Some (string_value meth)"
    and "get_attr s' attr_http_route = Some (string_value route)"
    and "get_attr s' attr_http_response_status_code
           = Some (int_value (if panicked then status_internal_error else status))"
    and "sp_status_code s' =
           (if panicked \<or> status \<ge> 500 then status_error
            else if sp_status_code s = status_unset then status_ok else sp_status_code s)"
proof -
  let ?s1 = "set_name (meth @ '' '' @ route) s"
  let ?s2 = "set_string attr_http_request_method meth ?s1"
  let ?s3 = "set_string attr_http_route route ?s2"
  let ?s4 = "set_int attr_http_response_status_code status ?s3"
  have wf: "span_wf ?s1" "span_wf ?s2" "span_wf ?s3" "span_wf ?s4" "span_wf (set_status status_error ''panic'' ?s4)"
    using assms(1) by (simp_all add: span_ops_wf)
  note set_simps = set_int_def set_string_def Let_def get_attr_set_attr http_keys_plain
  have attrs: "get_attr ?s4 attr_http_request_method = Some (string_value meth)"
    "get_attr ?s4 attr_http_route = Some (string_value route)"
    "get_attr ?s4 attr_http_response_status_code = Some (int_value status)"
    "get_attr (set_int attr_http_response_status_code status_internal_error (set_status status_error ''panic'' ?s4))
       = (get_attr ?s4)(attr_http_response_status_code \<mapsto> int_value status_internal_error)"
    using wf http_keys_distinct by (simp_all add: get_attr_set_int get_attr_set_string)
      (simp_all add: set_int_def set_string_def Let_def get_attr_set_attr http_keys_plain)
  show "sp_name s' = meth @ '' '' @ route"
    and "get_attr s' attr_http_request_method = Some (string_value meth)"
    and "get_attr s' attr_http_route = Some (string_value route)"
    and "get_attr s' attr_http_response_status_code
           = Some (int_value (if panicked then status_internal_error else status))"
    and "sp_status_code s' =
           (if panicked \<or> status \<ge> 500 then status_error
            else if sp_status_code s = status_unset then status_ok else sp_status_code s)"
    using attrs http_keys_distinct unfolding assms(2) http_stamp_def http_outcome_def by simp_all
qed

lemma finish_sent:
  "request_of c w = Some (a, st) \<Longrightarrow> rs_sampled st \<Longrightarrow> rs_root_span st = Some sp \<Longrightarrow>
     w_sent (finish c w) =
       w_sent w @ [(rs_transport st, finish_payload st (finish_root st (fst (now_ns w)) sp))]"
  by (simp add: finish_def Let_def split_beta)

lemma request_of_put:
  "request_of c w = Some (a, st) \<Longrightarrow> request_of c (put_request a st' w) = Some (a, st')"
  by (auto simp: request_of_def request_at_def put_request_def split: option.splits if_splits)

lemma finish_http_sent:
  assumes "request_of (Some c) w = Some (a, st)" and "rs_sampled st" and "rs_root_span st = Some sp"
    and "sp' = http_stamp (rq_method req) (http_route (Some c)) status panicked sp"
  shows "\<exists>now. w_sent (finish_http c req status panicked w) =
     w_sent w @ [(rs_transport st, finish_payload st (finish_root st now sp'))]"
proof -
  let ?st = "st\<lparr>rs_root_span := Some sp'\<rparr>"
  have "root_span (Some c) w = Some (RootRef a)"
    using assms(1,3) by (simp add: root_span_def)
  moreover have u: "update_span (RootRef a) (http_stamp (rq_method req) (http_route (Some c)) status panicked) w
      = put_request a ?st w"
    using assms by (simp add: update_span_def request_of_at)
  moreover have "request_of (Some c) (put_request a ?st w) = Some (a, ?st)"
    by (rule request_of_put [OF assms(1)])
  moreover have "finish_payload ?st r = finish_payload st r" "finish_root ?st n r = finish_root st n r" for n r
    by (simp_all add: finish_payload_def finish_root_def)
  ultimately show ?thesis
    using finish_sent [of "Some c" "put_request a ?st w" a ?st sp'] assms(2)
    by (simp add: finish_http_def) blast
qed

text \<open>A sampled request: where its state is, and that the handler leaves it there.\<close>

lemma start_sampled_state:
  assumes "start t c0 name h w = Some (c, w1)" and "is_sampled (Some c) w1"
  shows "\<exists>st sp. c = CtxState (length (w_requests w)) # c0 \<and> request_of (Some c) w1 = Some (length (w_requests w), st)
    \<and> rs_sampled st \<and> rs_root_span st = Some sp \<and> rs_transport st = tc_transport t \<and> rs_cfg st = tc_cfg t
    \<and> w_sent w1 = w_sent w"
  using start_root_shape [OF assms(1) [unfolded start_def]] assms(2)
  by (auto simp: is_sampled_def request_of_def from_context_def request_at_def)

lemma state_after_handler:
  assumes "run acts s1 = Some s2" and "sdk_ok s1"
    and "request_of c (sdk_world s1) = Some (a, st)" and "rs_sampled st"
  shows "\<exists>st2 sp2. request_of c (sdk_world s2) = Some (a, st2) \<and> same_fixed st st2 \<and> request_ok st2
    \<and> rs_sampled st2 \<and> rs_root_span st2 = Some sp2 \<and> span_wf sp2"
proof -
  have ok: "sdk_ok s2" and k: "keeps_fixed a (sdk_world s1) (sdk_world s2)"
    using run_keeps [OF assms(1,2)] by blast+
  have r: "from_context c = Some a" "a < length (w_requests (sdk_world s1))" "w_requests (sdk_world s1) ! a = st"
    using request_of_SomeD [OF assms(3)] by auto
  let ?st2 = "w_requests (sdk_world s2) ! a"
  have f: "same_fixed st ?st2" and q: "request_of c (sdk_world s2) = Some (a, ?st2)"
    using k r by (auto simp: keeps_fixed_def request_of_def request_at_def)
  have "request_ok ?st2" using ok world_request [OF _ q] by (simp add: sdk_ok_def)
  moreover have "rs_sampled ?st2" using f assms(4) by (simp add: same_fixed_def)
  ultimately show ?thesis
    using q f by (auto simp: request_ok_def root_ok_def)
qed

lemma middleware_report:
  assumes "run acts (fresh_sdk rng clock) = Some s" and "middleware r req handler s = Some ((evs, res), s')"
    and "config_enabled (rl_cfg r)" and "should_trace r (rq_path req)"
    and "start (rl_tracer r) (rq_ctx req) (rq_method req @ '' '' @ rq_path req) (rq_traceparent req) (sdk_world s)
           = Some (c, w1)"
    and "is_sampled (Some c) w1"
  shows "\<exists>s2 st sp now. run (hn_acts (handler c)) (s\<lparr>sdk_world := w1\<rparr>) = Some s2
    \<and> evs = hn_events (handler c) \<and> res = hn_result (handler c)
    \<and> request_of (Some c) (sdk_world s2) = Some (length (w_requests (sdk_world s)), st) \<and> span_wf sp
    \<and> rs_root_span st = Some sp
    \<and> w_sent (sdk_world s') = w_sent (sdk_world s2) @ [(tc_transport (rl_tracer r), finish_payload st
         (finish_root st now (http_stamp (rq_method req) (http_route (Some c)) (recorded_status evs) (is_panic res) sp)))]"
proof -
  have ok: "sdk_ok s" using run_ok [OF assms(1)] .
  obtain s2 where s2: "run (hn_acts (handler c)) (s\<lparr>sdk_world := w1\<rparr>) = Some s2"
    and out: "evs = hn_events (handler c)" "res = hn_result (handler c)"
    and s': "s' = on_world (finish_http c req (recorded_status evs) (is_panic res)) s2"
    using assms(2-5) by (auto simp: middleware_def Let_def bind_eq_Some_conv)
  have ok1: "sdk_ok (s\<lparr>sdk_world := w1\<rparr>)"
    using start_root_keeps [OF assms(5) [unfolded start_def]] ok by (simp add: sdk_ok_def)
  obtain st where st: "request_of (Some c) w1 = Some (length (w_requests (sdk_world s)), st)" "rs_sampled st"
      "rs_transport st = tc_transport (rl_tracer r)"
    using start_sampled_state [OF assms(5,6)] by auto
  obtain st2 sp2 where st2: "request_of (Some c) (sdk_world s2) = Some (length (w_requests (sdk_world s)), st2)"
      "same_fixed st st2" "rs_sampled st2" "rs_root_span st2 = Some sp2" "span_wf sp2"
    using state_after_handler [OF s2 ok1, of "Some c"] st by auto
  from finish_http_sent [OF st2(1,3,4) refl, of req "recorded_status evs" "is_panic res"] s2 out s' st2 st(3)
  show ?thesis by (auto simp: on_world_def same_fixed_def)
qed

section \<open>Properties\<close>


text \<open>
  A route template set by the handler never reaches the exported span: neither \<open>SetRoute\<close> nor
  \<open>WithRoute\<close> inside the handler has an effect, because the middleware overwrites the attribute at the
  end from the context it started the request with.  (The documentation tells handlers to use both.)
\<close>
theorem handler_route_is_lost:
  assumes "request_of (Some c) w = Some (a, st)" and "rs_sampled st" and "rs_root_span st = Some sp"
    and "span_wf sp" and "ctx_route c = None"
  shows "\<exists>p rt kids. w_sent (finish_http c req status panicked (set_route (Some (with_route c t)) t w))
      = w_sent w @ [(rs_transport st, p)]
    \<and> request_spans p = rt # kids \<and> wire_attrs rt attr_http_route = Some (string_value ''/*'')"
proof -
  let ?sp = "if t \<noteq> [] then set_string attr_http_route t sp else sp"
  let ?w = "set_route (Some (with_route c t)) t w"
  let ?st = "st\<lparr>rs_root_span := Some ?sp\<rparr>"
  have same: "request_of (Some (with_route c t)) w = request_of (Some c) w"
    by (simp add: request_of_def from_context_def with_route_def)
  have w: "?w = (if t \<noteq> [] then put_request a ?st w else w)"
    using assms(1,3) same by (auto simp: set_route_def root_span_def update_span_def request_of_at)
  have "st\<lparr>rs_root_span := Some sp\<rparr> = st" using assms(3) by (cases st) simp
  then have q: "request_of (Some c) ?w = Some (a, ?st)"
    unfolding w using assms(1) request_of_put [OF assms(1)] by simp
  have wf: "span_wf ?sp" using assms(4) by (simp add: span_ops_wf)
  have route: "http_route (Some c) = ''/*''"
    using assms(5) by (simp add: http_route_def route_from_context_def)
  let ?stamped = "http_stamp (rq_method req) ''/*'' status panicked ?sp"
  have wf2: "span_wf ?stamped"
    using http_stamp_ops [of "rq_method req" "''/*''" status panicked ?sp] run_ops_wf [OF wf] by auto
  obtain now where sent: "w_sent (finish_http c req status panicked ?w)
      = w_sent ?w @ [(rs_transport st, finish_payload ?st (finish_root ?st now ?stamped))]"
    using finish_http_sent [OF q _ _ refl, of ?sp req status panicked] assms(2) route by auto
  have "span_wf (finish_root ?st now ?stamped)"
    using finish_root_ops [of ?st now ?stamped] run_ops_wf [OF wf2] by auto
  then have "wire_attrs (to_data (finish_root ?st now ?stamped)) attr_http_route = Some (string_value ''/*'')"
    using wire_attrs_to_data finish_root_attr [OF wf2] http_keys_distinct http_stamp_fields(3) [OF wf refl] by simp
  moreover have "w_sent ?w = w_sent w" by (simp add: w)
  ultimately show ?thesis
    using sent by (auto simp: finish_payload_def)
qed

definition demo_sdk :: sdk where "demo_sdk = fresh_sdk demo_rng demo_clock"

definition demo_handle :: restlytics where
  "demo_handle = \<lparr>rl_tracer = demo_tracer, rl_cfg = demo_cfg\<rparr>"

definition demo_request :: http_in where
  "demo_request = \<lparr>rq_method = ''GET'', rq_path = ''/users/42'', rq_traceparent = [], rq_ctx = []\<rparr>"

definition demo_handler :: "ctx \<Rightarrow> handler_run" where
  "demo_handler c =
     \<lparr>hn_acts = [CountQuery (Some c)], hn_events = [WriteHeader 404, WriteBody ''gone''], hn_result = Return ()\<rparr>"

lemma handler_route_is_lost_witness:
  "\<exists>c w a st p. request_of (Some c) w = Some (a, st)
    \<and> w_sent (finish_http c demo_request 200 False (set_route (Some (with_route c ''/users/{id}'')) ''/users/{id}'' w))
        = w_sent w @ [(7, p)]
    \<and> (\<exists>rt kids. request_spans p = rt # kids \<and> wire_attrs rt attr_http_route = Some (string_value ''/*''))"
proof -
  obtain s st where r: "run demo_acts (fresh_sdk demo_rng demo_clock) = Some s"
    and q: "request_of demo_ctx (sdk_world s) = Some (0, st)" "rs_sampled st" and t: "rs_transport st = 7"
    using demo_open by blast
  obtain sp where sp: "rs_root_span st = Some sp" "span_wf sp"
    using world_request [OF _ q(1)] run_ok [OF r] q(2) by (auto simp: sdk_ok_def request_ok_def root_ok_def)
  have "request_of (Some [CtxState 0]) (sdk_world s) = Some (0, st)" using q(1) by (simp add: demo_ctx_def)
  from handler_route_is_lost [OF this q(2) sp, of demo_request 200 False "''/users/{id}''"] this t
  show ?thesis by fastforce
qed


end
