(* ===== verification/Outbound.thy ===== *)
theory Outbound
  imports Middleware GoCase
begin

text \<open>
  \<open>outbound_http.go\<close>: the round tripper that propagates the trace to the services the application
  calls and records each call as a client span.  The wrapped transport is a parameter: it may call
  the SDK itself, answer, fail or panic.
\<close>

section \<open>Requests and answers\<close>

text \<open>A request without a URL has \<open>URL == nil\<close>; headers map canonical names to their values.\<close>

record http_out =
  ho_method :: string
  ho_url :: "url option"
  ho_headers :: "string \<rightharpoonup> string list"
  ho_ctx :: ctx

definition traceparent_header :: string where "traceparent_header = ''Traceparent''"

text \<open>A status and an error, either of which may be absent, or a panic.\<close>

datatype answer = Answered "int option" "string option" | AnswerPanics string

section \<open>Recording a call\<close>

definition call_method :: "http_out \<Rightarrow> string" where
  "call_method request =
     (let m = to_upper (ho_method request) in if m = [] then ''GET'' else m)"

definition call_host :: "http_out \<Rightarrow> string" where
  "call_host request = (case ho_url request of None \<Rightarrow> [] | Some u \<Rightarrow> u_host u)"

definition call_url :: "http_out \<Rightarrow> string" where
  "call_url request = (case ho_url request of None \<Rightarrow> [] | Some u \<Rightarrow> url_string u)"

definition call_ops :: "http_out \<Rightarrow> int option \<Rightarrow> string option \<Rightarrow> span_op list" where
  "call_ops request status err =
     [SetString attr_category category_http, SetString attr_http_request_method (call_method request)]
     @ (if call_url request \<noteq> [] then [SetString attr_url_full (redact_url (call_url request))] else [])
     @ (if call_host request \<noteq> [] then [SetString ''server.address'' (call_host request)] else [])
     @ (case status of Some code \<Rightarrow> [SetInt attr_http_response_status_code code] | None \<Rightarrow> [])
     @ (if err \<noteq> None \<or> (case status of Some code \<Rightarrow> code \<ge> 500 | None \<Rightarrow> False)
        then [SetStatus status_error []] else [])"

definition record_outbound_http ::
  "ctx \<Rightarrow> http_out \<Rightarrow> int option \<Rightarrow> string option \<Rightarrow> string \<Rightarrow> int64 \<Rightarrow> world \<Rightarrow> world option" where
  "record_outbound_http c request status err span_id start_ns w =
     (let name_host = (if call_host request = [] then ''http'' else call_host request);
          (end_ns, w1) = now_ns w
      in map_option snd
           (add_child_span_with_id (Some c) (call_method request @ '' '' @ name_host) start_ns end_ns
              span_id (run_ops (call_ops request status err)) w1))"

section \<open>The round tripper\<close>

definition round_trip ::
  "config \<Rightarrow> (http_out option \<Rightarrow> world \<Rightarrow> (answer \<times> world) option) \<Rightarrow> http_out option \<Rightarrow> world
   \<Rightarrow> (answer \<times> world) option" where
  "round_trip cfg nxt request w =
     (case request of
        None \<Rightarrow> nxt request w
      | Some req \<Rightarrow>
          if cf_instrument_http cfg = None \<or> cf_instrument_http cfg = Some False then nxt request w
          else
            (case outbound_context (Some (ho_ctx req)) w of
               None \<Rightarrow> None
             | Some (None, w1) \<Rightarrow> nxt request w1
             | Some (Some (tp, span_id), w1) \<Rightarrow>
                 let outgoing = req\<lparr>ho_headers := (ho_headers req)(traceparent_header \<mapsto> [tp])\<rparr>;
                     (start_ns, w2) = now_ns w1
                 in case nxt (Some outgoing) w2 of
                      None \<Rightarrow> None
                    | Some (Answered status err, w3) \<Rightarrow>
                        map_option (\<lambda>w4. (Answered status err, w4))
                          (record_outbound_http (ho_ctx req) outgoing status err span_id start_ns w3)
                    | Some (AnswerPanics p, w3) \<Rightarrow> Some (AnswerPanics p, w3)))"

text \<open>\<open>HTTPRoundTripper\<close>: a nil transport stands for the default one.\<close>

record round_tripper =
  rt_next :: "http_out option \<Rightarrow> world \<Rightarrow> (answer \<times> world) option"
  rt_cfg :: config

definition http_round_tripper ::
  "(http_out option \<Rightarrow> world \<Rightarrow> (answer \<times> world) option) \<Rightarrow> restlytics
   \<Rightarrow> (http_out option \<Rightarrow> world \<Rightarrow> (answer \<times> world) option) option \<Rightarrow> round_tripper" where
  "http_round_tripper default_transport r nxt =
     \<lparr>rt_next = (case nxt of None \<Rightarrow> default_transport | Some n \<Rightarrow> n), rt_cfg = rl_cfg r\<rparr>"

lemma uninstrumented_client:
  "cf_instrument_http (rl_cfg r) \<noteq> Some True \<Longrightarrow>
   round_trip (rt_cfg (http_round_tripper d r nxt)) (rt_next (http_round_tripper d r nxt))
   = (case nxt of None \<Rightarrow> d | Some n \<Rightarrow> n)"
  by (rule ext)+ (auto simp: round_trip_def http_round_tripper_def split: option.splits)

section \<open>Properties\<close>

text \<open>
  The application sees the wrapped transport's own answer, error or panic: the wrapper changes
  nothing about a call but the \<open>traceparent\<close> header it sends.
\<close>
theorem round_trip_transparent:
  assumes "round_trip cfg nxt request w = Some (ans, w')"
  shows "\<exists>request' w1 w2. nxt request' w1 = Some (ans, w2)
    \<and> (request' = request \<or>
       (\<exists>req tp. request = Some req
          \<and> request' = Some (req\<lparr>ho_headers := (ho_headers req)(traceparent_header \<mapsto> [tp])\<rparr>)))"
proof (cases request)
  case (Some req)
  with assms show ?thesis
    by (auto simp: round_trip_def Let_def split_beta split: if_splits option.splits answer.splits; blast)
qed (use assms in \<open>auto simp: round_trip_def\<close>)

lemma http_call_keys_plain:
  "\<not> is_sensitive_attribute_key attr_category" "\<not> is_sensitive_attribute_key attr_url_full"
  "\<not> is_sensitive_attribute_key attr_http_request_method" "\<not> is_sensitive_attribute_key ''server.address''"
  "\<not> is_sensitive_attribute_key attr_http_response_status_code"
  "\<not> equal_fold attr_category attr_url_full" "equal_fold attr_url_full attr_url_full"
  "\<not> equal_fold attr_http_request_method attr_url_full" "\<not> equal_fold ''server.address'' attr_url_full"
  by code_simp+

lemma call_ops_attrs:
  fixes sp0 :: span
  assumes "span_wf sp0" and "sp = run_ops (call_ops request status err) sp0"
  shows "call_url request \<noteq> [] \<Longrightarrow>
           get_attr sp attr_url_full = Some (string_value (redact_url (redact_url (call_url request))))"
    and "get_attr sp attr_category = Some (string_value category_http)"
    and "err \<noteq> None \<or> (\<exists>code \<ge> 500. status = Some code) \<Longrightarrow> sp_status_code sp = status_error"
proof -
  have d: "attr_url_full \<noteq> ''server.address''" "attr_url_full \<noteq> attr_http_response_status_code"
    "attr_category \<noteq> ''server.address''" "attr_category \<noteq> attr_http_response_status_code"
    "attr_category \<noteq> attr_url_full" "attr_category \<noteq> attr_http_request_method"
    by (simp_all add: const_defs)
  note set_simps = set_string_def set_int_def Let_def get_attr_set_attr http_call_keys_plain d
    set_attr_wf span_ops_wf
  have status: "get_attr (set_status c m s) = get_attr s" for c m s
    by (simp add: get_attr_def set_status_def fun_eq_iff)
  show "call_url request \<noteq> [] \<Longrightarrow>
      get_attr sp attr_url_full = Some (string_value (redact_url (redact_url (call_url request))))"
    and "get_attr sp attr_category = Some (string_value category_http)"
    using assms(1) by (auto simp: assms(2) call_ops_def run_ops_def status set_simps split: option.splits)
  show "err \<noteq> None \<or> (\<exists>code \<ge> 500. status = Some code) \<Longrightarrow> sp_status_code sp = status_error"
    by (auto simp: assms(2) call_ops_def run_ops_def set_status_def)
qed

lemma run_ops_kind [simp]: "sp_kind (run_ops ops s) = sp_kind s"
proof -
  have "sp_kind (apply_op x s) = sp_kind s" for x s
    by (cases x) (simp_all add: span_defs set_attr_def split: option.splits)
  then show ?thesis by (induction ops arbitrary: s) (simp_all add: run_ops_def)
qed

lemma add_child_recorded:
  assumes "request_of c w = Some (a, st)" and "request_ok st" and "rs_sampled st"
    and "int (length (rs_raw_spans st)) < rs_max_spans st" and "sid \<noteq> []"
  shows "add_child_span_with_id c name s e sid (run_ops ops) w =
    Some (Some (ChildRef a (length (rs_raw_spans st))),
      put_request a (st\<lparr>rs_raw_spans := rs_raw_spans st
        @ [run_ops ops (new_span (rs_trace_id st) sid (rs_root_span_id st) name kind_client s e)]\<rparr>) w)"
proof -
  obtain rt where "rs_root_span st = Some rt" "sp_span_id rt = rs_root_span_id st"
    using assms(2,3) by (auto simp: request_ok_def root_ok_def)
  with assms show ?thesis
    by (simp add: add_child_span_with_id_def span_id_or_fresh_def append_child_def)
qed

lemma outbound_header:
  assumes "request_of c w = Some (a, st)" and "request_ok st" and "rs_sampled st"
    and "outbound_context c w = Some (r, w1)"
  shows "\<exists>h sid. r = Some (h, sid) \<and> valid_id 16 sid \<and> same_record w w1
    \<and> parse_traceparent h = Some \<lparr>tp_trace_id = rs_trace_id st, tp_parent_span_id = sid, tp_sampled = True\<rparr>"
proof -
  have t: "valid_id 32 (rs_trace_id st)" "rs_trace_id st \<noteq> []" "rs_enabled st"
    using assms(2,3) by (auto simp: request_ok_def)
  then obtain sid where sid: "fresh_span_id w = Some (sid, w1)"
      and r: "r = Some (format_traceparent (rs_trace_id st) sid True, sid)"
    using assms(1,3,4) by (auto simp: outbound_context_def bind_eq_Some_conv)
  show ?thesis
    using fresh_span_id_keeps [OF sid] parse_format_traceparent [OF t(1)] r by blast
qed

text \<open>
  C29: a call made inside a recorded request is recorded as exactly one client span, and that span is
  the one announced to the callee: the header carries the request's trace id, the sampled flag and
  the id of the very span appended; its URL attribute is redacted, and a transport error or a 5xx
  marks it as an error.
\<close>
theorem outbound_call_recorded:
  assumes "run acts (fresh_sdk rng clock) = Some s"
    and "request_of (Some (ho_ctx req)) (sdk_world s) = Some (a, st)" and "rs_sampled st"
    and "int (length (rs_raw_spans st)) < rs_max_spans st" and "cf_instrument_http cfg = Some True"
    and "round_trip cfg (\<lambda>r u. Some (answer_of r, u)) (Some req) (sdk_world s) = Some (Answered status err, w')"
  shows "\<exists>h sp. answer_of (Some (req\<lparr>ho_headers := (ho_headers req)(traceparent_header \<mapsto> [h])\<rparr>)) = Answered status err
    \<and> parse_traceparent h
        = Some \<lparr>tp_trace_id = rs_trace_id st, tp_parent_span_id = sp_span_id sp, tp_sampled = True\<rparr>
    \<and> w_requests w' ! a = st\<lparr>rs_raw_spans := rs_raw_spans st @ [sp]\<rparr> \<and> sp_kind sp = kind_client
    \<and> (call_url req \<noteq> [] \<longrightarrow>
         get_attr sp attr_url_full = Some (string_value (redact_url (redact_url (call_url req)))))
    \<and> (err \<noteq> None \<or> (\<exists>code \<ge> 500. status = Some code) \<longrightarrow> sp_status_code sp = status_error)"
proof -
  have ok: "request_ok st" and a: "a < length (w_requests (sdk_world s))"
    using run_ok [OF assms(1)] world_request [OF _ assms(2)] by (simp_all add: sdk_ok_def)
  obtain r w1 where r: "outbound_context (Some (ho_ctx req)) (sdk_world s) = Some (r, w1)"
    using assms(5,6) by (auto simp: round_trip_def split: option.splits)
  obtain h sid where h: "r = Some (h, sid)" "valid_id 16 sid" "same_record (sdk_world s) w1"
    "parse_traceparent h = Some \<lparr>tp_trace_id = rs_trace_id st, tp_parent_span_id = sid, tp_sampled = True\<rparr>"
    using outbound_header [OF assms(2) ok assms(3) r] by blast
  let ?out = "req\<lparr>ho_headers := (ho_headers req)(traceparent_header \<mapsto> [h])\<rparr>"
  let ?w2 = "snd (now_ns w1)" and ?w3 = "snd (now_ns (snd (now_ns w1)))"
  have same: "same_record (sdk_world s) ?w3"
    using h(3) same_record_now same_record_trans by blast
  have q3: "request_of (Some (ho_ctx req)) ?w3 = Some (a, st)"
    using same_record_request [OF same] assms(2) by simp
  have ans: "answer_of (Some ?out) = Answered status err"
    and rec: "record_outbound_http (ho_ctx req) ?out status err sid (fst (now_ns w1)) ?w2 = Some w'"
    using assms(5,6) r h(1) by (auto simp: round_trip_def Let_def split_beta split: answer.splits)
  let ?name = "call_method ?out @ '' '' @ (if call_host ?out = [] then ''http'' else call_host ?out)"
  let ?new = "new_span (rs_trace_id st) sid (rs_root_span_id st) ?name kind_client
      (fst (now_ns w1)) (fst (now_ns ?w2))"
  define sp where "sp = run_ops (call_ops ?out status err) ?new"
  have "sid \<noteq> []" using h(2) by auto
  then have w': "w' = put_request a (st\<lparr>rs_raw_spans := rs_raw_spans st @ [sp]\<rparr>) ?w3"
    using rec add_child_recorded [OF q3 ok assms(3,4)]
    by (simp add: record_outbound_http_def split_beta Let_def sp_def)
  have "w_requests w' ! a = st\<lparr>rs_raw_spans := rs_raw_spans st @ [sp]\<rparr>"
    using a same by (simp add: w' put_request_nth same_record_def)
  moreover have "sp_span_id sp = sid"
    using run_ops_identity [of ?new "call_ops ?out status err"]
    by (simp add: sp_def same_identity_def) (simp add: new_span_def)
  moreover have "sp_kind sp = kind_client"
    by (simp add: sp_def run_ops_kind) (simp add: new_span_def)
  ultimately show ?thesis
    using ans h(4) call_ops_attrs [OF new_span_wf sp_def]
    by (intro exI [of _ h] exI [of _ sp]) (simp add: call_url_def)
qed

definition demo_call :: http_out where
  "demo_call = \<lparr>ho_method = ''get'', ho_url = None, ho_headers = Map.empty,
     ho_ctx = [CtxState 0]\<rparr>"

lemma demo_round_trip:
  "\<exists>s st w'. run demo_acts (fresh_sdk demo_rng demo_clock) = Some s
     \<and> request_of (Some (ho_ctx demo_call)) (sdk_world s) = Some (0, st) \<and> rs_sampled st
     \<and> int (length (rs_raw_spans st)) < rs_max_spans st
     \<and> round_trip (demo_cfg\<lparr>cf_instrument_http := Some True\<rparr>) (\<lambda>r u. Some (Answered (Some 503) None, u))
          (Some demo_call) (sdk_world s) = Some (Answered (Some 503) None, w')"
proof -
  let ?rt = "\<lambda>s. round_trip (demo_cfg\<lparr>cf_instrument_http := Some True\<rparr>) (\<lambda>r u. Some (Answered (Some 503) None, u))
      (Some demo_call) (sdk_world s)"
  have "map_option (\<lambda>s. map_option (\<lambda>(a, st). (a, rs_sampled st, length (rs_raw_spans st), rs_max_spans st))
        (request_of demo_ctx (sdk_world s)))
      (run demo_acts (fresh_sdk demo_rng demo_clock)) = Some (Some (0, True, 1, 2))"
    by code_simp
  moreover have "Some (ho_ctx demo_call) = demo_ctx" by (simp add: demo_call_def demo_ctx_def)
  moreover have "map_option (\<lambda>s. ?rt s = None) (run demo_acts (fresh_sdk demo_rng demo_clock)) = Some False"
    by code_simp
  moreover have "ans = Answered (Some 503) None" if "?rt s = Some (ans, w')" for s ans w'
    using that by (auto simp: round_trip_def Let_def split_beta split: if_splits option.splits)
  ultimately show ?thesis by (fastforce simp: map_option_eq_Some)
qed

lemma outbound_call_recorded_witness:
  "\<exists>(w' :: world) h (sp :: span). parse_traceparent h
        = Some \<lparr>tp_trace_id = demo_trace_id, tp_parent_span_id = sp_span_id sp, tp_sampled = True\<rparr>
    \<and> rs_raw_spans (w_requests w' ! 0) \<noteq> [] \<and> sp \<in> set (rs_raw_spans (w_requests w' ! 0))
    \<and> sp_status_code sp = status_error"
proof -
  obtain s st w' where r: "run demo_acts (fresh_sdk demo_rng demo_clock) = Some s"
     and q: "request_of (Some (ho_ctx demo_call)) (sdk_world s) = Some (0, st)" "rs_sampled st"
       "int (length (rs_raw_spans st)) < rs_max_spans st"
     and t: "round_trip (demo_cfg\<lparr>cf_instrument_http := Some True\<rparr>) (\<lambda>r u. Some (Answered (Some 503) None, u))
          (Some demo_call) (sdk_world s) = Some (Answered (Some 503) None, w')"
    using demo_round_trip by blast
  have "rs_trace_id st = demo_trace_id"
    using demo_open r q(1) by (auto simp: demo_call_def demo_ctx_def)
  then obtain h sp where "parse_traceparent h
        = Some \<lparr>tp_trace_id = demo_trace_id, tp_parent_span_id = sp_span_id sp, tp_sampled = True\<rparr>"
      and "w_requests w' ! 0 = st\<lparr>rs_raw_spans := rs_raw_spans st @ [sp]\<rparr>" "sp_status_code sp = status_error"
    using outbound_call_recorded [OF r q _ t] by auto
  moreover from this have "rs_raw_spans (w_requests w' ! 0) \<noteq> []" "sp \<in> set (rs_raw_spans (w_requests w' ! 0))"
    by simp_all
  ultimately show ?thesis by blast
qed

lemma round_trip_transparent_witness:
  "\<exists>w'. round_trip demo_cfg (\<lambda>r u. Some (Answered (Some 204) None, u)) None (sdk_world (fresh_sdk demo_rng demo_clock))
      = Some (Answered (Some 204) None, w')
    \<and> (\<exists>(r :: http_out option) w1. (\<lambda>r u. Some (Answered (Some 204) None, u)) r w1 = Some (Answered (Some 204) None, w'))"
proof -
  let ?n = "\<lambda>(r :: http_out option) (u :: world). Some (Answered (Some 204) None, u)"
  have t: "round_trip demo_cfg ?n None (sdk_world (fresh_sdk demo_rng demo_clock))
      = Some (Answered (Some 204) None, sdk_world (fresh_sdk demo_rng demo_clock))"
    by (simp add: round_trip_def)
  from round_trip_transparent [OF t] t show ?thesis by blast
qed

end
