(* ===== verification/Background.thy ===== *)
theory Background
  imports Middleware
begin

text \<open>
  \<open>background.go\<close>: jobs, commands and scheduled tasks as traced units of work, and the enqueue that
  carries a trace to them.  An operation is what it does with the context or the carrier it is given:
  the SDK calls it makes and how it ends.
\<close>

section \<open>Names\<close>

definition stable_work_name :: "string \<Rightarrow> string \<Rightarrow> string" where
  "stable_work_name value fallback =
     (let v = strings_map (\<lambda>r. if r < 32 \<or> r = 127 then None else Some r) (trim_space value)
      in if v = [] then fallback else if 200 < length v then take 200 v else v)"

section \<open>Units of work\<close>

record job_options =
  jo_name :: string
  jo_system :: string
  jo_destination :: string
  jo_attempt :: int
  jo_max_attempts :: int
  jo_enqueued_ns :: int64
  jo_message_id :: string
  jo_traceparent :: string

record command_options =
  co_name :: string
  co_traceparent :: string

record schedule_options =
  so_name :: string
  so_cron :: string
  so_traceparent :: string

text \<open>An operation's SDK calls and its end: a value, or a panic.\<close>

record 'r work_run =
  wr_acts :: "action list"
  wr_result :: "'r outcome"

definition update_root :: "span_ref option \<Rightarrow> span_op list \<Rightarrow> world \<Rightarrow> world" where
  "update_root rt ops w = (case rt of None \<Rightarrow> w | Some r \<Rightarrow> update_span r (run_ops ops) w)"

text \<open>
  What the three have in common: open the root and describe it, run the operation, and on the way
  out (a panic included) describe its end and finish; the operation's result, or its panic, is the
  result of the whole.
\<close>

definition run_work ::
  "tracer \<Rightarrow> ctx \<Rightarrow> string \<Rightarrow> string \<Rightarrow> int \<Rightarrow> string \<Rightarrow> bool \<Rightarrow> span_op list \<Rightarrow> (ctx \<Rightarrow> 'r work_run)
   \<Rightarrow> ('r outcome \<Rightarrow> span_op list) \<Rightarrow> sdk \<Rightarrow> ('r outcome \<times> sdk) option" where
  "run_work t c name traceparent kind cat link begin_ops operation end_ops s = do {
     (c', w1) \<leftarrow> start_root t c name traceparent kind cat link (sdk_world s);
     let root_ref = root_span (Some c') w1;
     let w2 = update_root root_ref begin_ops w1;
     let op = operation c';
     s2 \<leftarrow> run (wr_acts op) (s\<lparr>sdk_world := w2\<rparr>);
     let w3 = update_root root_ref (end_ops (wr_result op)) (sdk_world s2);
     Some (wr_result op, s2\<lparr>sdk_world := finish (Some c') w3\<rparr>)
   }"

definition job_ops :: "string \<Rightarrow> job_options \<Rightarrow> span_op list" where
  "job_ops name opts =
     [SetString ''restlytics.work.name'' name,
      SetString ''restlytics.job.name'' name,
      SetString ''messaging.system'' (stable_work_name (jo_system opts) ''unknown''),
      SetString ''messaging.destination.name'' (stable_work_name (jo_destination opts) ''unknown''),
      SetString ''messaging.operation.type'' ''process'',
      SetInt ''restlytics.job.attempt'' (if jo_attempt opts < 1 then 1 else jo_attempt opts)]
     @ (if jo_max_attempts opts > 0 then [SetInt ''restlytics.job.max_attempts'' (jo_max_attempts opts)] else [])
     @ (if jo_enqueued_ns opts > 0 then [SetInt ''restlytics.job.enqueued_ns'' (jo_enqueued_ns opts)] else [])
     @ (if jo_message_id opts \<noteq> []
        then [SetString ''messaging.message.id'' (stable_work_name (jo_message_id opts) ''unknown'')] else [])"

definition error_end :: "string option outcome \<Rightarrow> span_op list" where
  "error_end r =
     (case r of
        Panicked _ \<Rightarrow> [SetStatus status_error []]
      | Return err \<Rightarrow> if err \<noteq> None then [SetStatus status_error []] else [])"

definition run_job ::
  "tracer \<Rightarrow> ctx \<Rightarrow> job_options \<Rightarrow> (ctx \<Rightarrow> string option work_run) \<Rightarrow> sdk \<Rightarrow> (string option outcome \<times> sdk) option" where
  "run_job t c opts operation s =
     (let name = stable_work_name (jo_name opts) ''unnamed-job''
      in run_work t c name (jo_traceparent opts) kind_consumer category_job True (job_ops name opts)
           operation error_end s)"

definition command_end :: "(int \<times> string option) outcome \<Rightarrow> span_op list" where
  "command_end r =
     (case r of
        Panicked _ \<Rightarrow> [SetInt ''restlytics.command.exit_code'' 1, SetStatus status_error []]
      | Return (exit_code, err) \<Rightarrow>
          SetInt ''restlytics.command.exit_code'' exit_code
          # (if exit_code \<noteq> 0 \<or> err \<noteq> None then [SetStatus status_error []] else []))"

definition run_command ::
  "tracer \<Rightarrow> ctx \<Rightarrow> command_options \<Rightarrow> (ctx \<Rightarrow> (int \<times> string option) work_run) \<Rightarrow> sdk
   \<Rightarrow> ((int \<times> string option) outcome \<times> sdk) option" where
  "run_command t c opts operation s =
     (let name = stable_work_name (co_name opts) ''unnamed-command''
      in run_work t c name (co_traceparent opts) kind_server category_command False
           [SetString ''restlytics.work.name'' name, SetString ''restlytics.command.name'' name]
           operation command_end s)"

definition run_schedule ::
  "tracer \<Rightarrow> ctx \<Rightarrow> schedule_options \<Rightarrow> (ctx \<Rightarrow> string option work_run) \<Rightarrow> sdk
   \<Rightarrow> (string option outcome \<times> sdk) option" where
  "run_schedule t c opts operation s =
     (let name = stable_work_name (so_name opts) ''unnamed-schedule''
      in run_work t c name (so_traceparent opts) kind_server category_schedule False
           [SetString ''restlytics.work.name'' name, SetString ''restlytics.schedule.name'' name,
            SetString ''restlytics.schedule.cron'' (stable_work_name (so_cron opts) ''unknown'')]
           operation error_end s)"

text \<open>The same through the handle.\<close>

definition handle_run_job ::
  "restlytics \<Rightarrow> ctx \<Rightarrow> job_options \<Rightarrow> (ctx \<Rightarrow> string option work_run) \<Rightarrow> sdk \<Rightarrow> (string option outcome \<times> sdk) option" where
  "handle_run_job r c opts operation s = run_job (rl_tracer r) c opts operation s"

definition handle_run_command ::
  "restlytics \<Rightarrow> ctx \<Rightarrow> command_options \<Rightarrow> (ctx \<Rightarrow> (int \<times> string option) work_run) \<Rightarrow> sdk
   \<Rightarrow> ((int \<times> string option) outcome \<times> sdk) option" where
  "handle_run_command r c opts operation s = run_command (rl_tracer r) c opts operation s"

definition handle_run_schedule ::
  "restlytics \<Rightarrow> ctx \<Rightarrow> schedule_options \<Rightarrow> (ctx \<Rightarrow> string option work_run) \<Rightarrow> sdk
   \<Rightarrow> (string option outcome \<times> sdk) option" where
  "handle_run_schedule r c opts operation s = run_schedule (rl_tracer r) c opts operation s"

section \<open>Enqueue\<close>

record enqueue_options =
  eo_system :: string
  eo_destination :: string
  eo_tracestate :: string

text \<open>A carrier is a Go map (\<^const>\<open>None\<close> is the nil map) from keys to the envelope or to host values.\<close>

datatype 'v carrier_value = Envelope "string \<rightharpoonup> string" | HostValue 'v

type_synonym 'v carrier = "(string \<rightharpoonup> 'v carrier_value) option"

definition envelope_key :: string where "envelope_key = ''__restlytics''"

definition envelope_of :: "string \<Rightarrow> enqueue_options \<Rightarrow> string \<rightharpoonup> string" where
  "envelope_of traceparent opts =
     (let state = trim_space (eo_tracestate opts);
          env = [''traceparent'' \<mapsto> traceparent]
      in if state \<noteq> [] then env(''tracestate'' \<mapsto> (if 512 < length state then take 512 state else state)) else env)"

definition enqueue_ops :: "enqueue_options \<Rightarrow> span_op list" where
  "enqueue_ops opts =
     [SetString ''messaging.system'' (stable_work_name (eo_system opts) ''unknown''),
      SetString ''messaging.destination.name'' (stable_work_name (eo_destination opts) ''unknown''),
      SetString ''messaging.operation.type'' ''send'']"

definition enqueue ::
  "ctx option \<Rightarrow> enqueue_options \<Rightarrow> 'v carrier \<Rightarrow> ('v carrier \<Rightarrow> string option work_run) \<Rightarrow> sdk
   \<Rightarrow> ((string option outcome \<times> 'v carrier) \<times> sdk) option" where
  "enqueue c opts carrier operation s =
     (case request_of c (sdk_world s) of
        None \<Rightarrow>
          (let op = operation carrier
           in map_option (\<lambda>s'. ((wr_result op, carrier), s')) (run (wr_acts op) s))
      | Some (a, st) \<Rightarrow> do {
          (span_id, w1) \<leftarrow> fresh_span_id (sdk_world s);
          case carrier of
            None \<Rightarrow> Some ((Panicked ''assignment to entry in nil map'', None), s\<lparr>sdk_world := w1\<rparr>)
          | Some m \<Rightarrow> do {
              let tp = format_traceparent (rs_trace_id st) span_id (rs_sampled st);
              let m' = m(envelope_key \<mapsto> Envelope (envelope_of tp opts));
              (child, w2) \<leftarrow> start_child_span c
                 (''send '' @ stable_work_name (eo_destination opts) ''unknown'') category_queue
                 kind_client span_id w1;
              let w3 = update_root child (enqueue_ops opts) w2;
              let op = operation (Some m');
              s4 \<leftarrow> run (wr_acts op) (s\<lparr>sdk_world := w3\<rparr>);
              let w5 = (case child of
                          None \<Rightarrow> sdk_world s4
                        | Some r \<Rightarrow>
                            let (now, w) = now_ns (sdk_world s4)
                            in update_span r (run_ops
                                 (SetEnd now # (case wr_result op of
                                     Return (Some _) \<Rightarrow> [SetStatus status_error []] | _ \<Rightarrow> []))) w);
              Some ((wr_result op, Some m'), s4\<lparr>sdk_world := w5\<rparr>)
            }
        })"

section \<open>Names are bounded and printable\<close>

definition printable :: "char \<Rightarrow> bool" where
  "printable c \<longleftrightarrow> 32 \<le> ord c \<and> ord c \<noteq> 127"

lemma printable_char_of: "32 \<le> n \<Longrightarrow> n < 256 \<Longrightarrow> n \<noteq> 127 \<Longrightarrow> printable (char_of (n :: nat))"
  by (simp add: printable_def)

lemma encode_rune_printable:
  assumes "\<not> (r < 32 \<or> r = 127)" and "c \<in> set (encode_rune r)"
  shows "printable c"
proof -
  have high: "printable (char_of (128 + k :: nat))" if "k < 128" for k
    using that by (intro printable_char_of) simp_all
  consider "r < 128" | "128 \<le> r" "r < 2048" | "2048 \<le> r" "in_range 55296 57343 r \<or> 1114111 < r"
    | "2048 \<le> r" "\<not> (in_range 55296 57343 r \<or> 1114111 < r)" "r < 65536"
    | "65536 \<le> r" "\<not> (in_range 55296 57343 r \<or> 1114111 < r)"
    by linarith
  then show ?thesis
  proof cases
    case 1
    then show ?thesis using assms by (simp add: encode_rune_def printable_char_of)
  next
    case 2
    then show ?thesis
      using assms(2) high [of "64 + r div 64"] high [of "r mod 64"]
      by (auto simp: encode_rune_def less_mult_imp_div_less)
  next
    case 3
    then show ?thesis
      using assms(2) high [of 111] high [of 63] high [of 61] by (auto simp: encode_rune_def)
  next
    case 4
    then show ?thesis
      using assms(2) high [of "96 + r div 4096"] high [of "r div 64 mod 64"] high [of "r mod 64"]
      by (auto simp: encode_rune_def less_mult_imp_div_less)
  next
    case 5
    have "r div 262144 < 16" using 5 by (intro less_mult_imp_div_less) simp
    then show ?thesis
      using 5 assms(2) high [of "112 + r div 262144"] high [of "r div 4096 mod 64"] high [of "r div 64 mod 64"]
        high [of "r mod 64"]
      by (auto simp: encode_rune_def)
  qed
qed

text \<open>
  The names of jobs, commands, schedules and destinations are bounded and printable: at most 200
  bytes, never empty, and no control byte among them, whatever text they are made of.
\<close>
theorem work_name_bounded:
  assumes "fallback \<noteq> []" and "length fallback \<le> 200" and "list_all printable fallback"
  shows "stable_work_name value fallback \<noteq> [] \<and> length (stable_work_name value fallback) \<le> 200
    \<and> list_all printable (stable_work_name value fallback)"
proof -
  let ?f = "\<lambda>r. if r < 32 \<or> r = 127 then None else Some r"
  have "list_all printable (strings_map ?f s)" for s
    using encode_rune_printable by (auto simp: strings_map_def list_all_iff split: if_splits)
  moreover have "set (take 200 v) \<subseteq> set v" for v :: string by (rule set_take_subset)
  ultimately show ?thesis
    using assms by (auto simp: stable_work_name_def Let_def list_all_iff)
qed

lemma work_name_bounded_witness:
  "stable_work_name (replicate 5 (CHR 0x07)) ''unnamed-job'' = ''unnamed-job''
   \<and> length (stable_work_name (replicate 300 (CHR ''x'')) ''unnamed-job'') \<le> 200"
proof -
  have "list_all printable ''unnamed-job''" by (simp add: printable_def)
  moreover have "stable_work_name (replicate 5 (CHR 0x07)) ''unnamed-job'' = ''unnamed-job''" by code_simp
  ultimately show ?thesis
    using work_name_bounded [of "''unnamed-job''" "replicate 300 (CHR ''x'')"] by simp
qed

section \<open>A unit of work reports its end\<close>

lemma start_root_sampled_state:
  assumes "start_root t c0 name h kind cat link w = Some (c, w1)" and "is_sampled (Some c) w1"
  shows "\<exists>st sp. request_of (Some c) w1 = Some (length (w_requests w), st)
    \<and> rs_sampled st \<and> rs_root_span st = Some sp \<and> rs_transport st = tc_transport t"
proof -
  obtain st where st: "c = CtxState (length (w_requests w)) # c0" "w_requests w1 = w_requests w @ [st]"
      "rs_transport st = tc_transport t"
    using start_root_shape [OF assms(1)] by blast
  have q: "request_of (Some c) w1 = Some (length (w_requests w), st)"
    using st by (simp add: request_of_def from_context_def request_at_def)
  with assms(2) st(3) show ?thesis by (auto simp: is_sampled_def)
qed

lemma root_update:
  assumes "request_of c w = Some (a, st)" and "rs_root_span st = Some sp"
  shows "update_root (Some (RootRef a)) ops w = put_request a (st\<lparr>rs_root_span := Some (run_ops ops sp)\<rparr>) w"
  using assms by (simp add: update_root_def update_span_def request_of_at)

text \<open>
  The end of a sampled unit of work: one batch, to the tracer's transport, with the root as the
  operation left it plus what the end adds.
\<close>

lemma run_work_report:
  assumes "run acts (fresh_sdk rng clock) = Some s"
    and "run_work t c name h kind cat link begin_ops operation end_ops s = Some (res, s')"
    and "start_root t c name h kind cat link (sdk_world s) = Some (c', w1)" and "is_sampled (Some c') w1"
  shows "\<exists>s2 st sp now. res = wr_result (operation c')
    \<and> run (wr_acts (operation c')) (s\<lparr>sdk_world := update_root (root_span (Some c') w1) begin_ops w1\<rparr>) = Some s2
    \<and> span_wf sp \<and> request_of (Some c') (sdk_world s2) = Some (length (w_requests (sdk_world s)), st)
    \<and> w_sent (sdk_world s') = w_sent (sdk_world s2)
        @ [(tc_transport t, finish_payload st (finish_root st now (run_ops (end_ops res) sp)))]"
proof -
  have ok: "sdk_ok s" using run_ok [OF assms(1)] .
  let ?a = "length (w_requests (sdk_world s))"
  obtain st sp where q: "request_of (Some c') w1 = Some (?a, st)" "rs_sampled st" "rs_root_span st = Some sp"
      "rs_transport st = tc_transport t"
    using start_root_sampled_state [OF assms(3,4)] by blast
  have rt: "root_span (Some c') w1 = Some (RootRef ?a)" using q by (simp add: root_span_def)
  let ?st1 = "st\<lparr>rs_root_span := Some (run_ops begin_ops sp)\<rparr>"
  let ?w2 = "put_request ?a ?st1 w1"
  have w2: "update_root (Some (RootRef ?a)) begin_ops w1 = ?w2" by (rule root_update [OF q(1,3)])
  have w1_ok: "world_ok w1"
    using start_root_keeps [OF assms(3)] ok by (simp add: sdk_ok_def)
  then have "world_ok ?w2"
    using update_span_keeps [OF w1_ok, of "RootRef ?a" begin_ops] w2 by (simp add: update_root_def)
  then have ok2: "sdk_ok (s\<lparr>sdk_world := ?w2\<rparr>)" using ok by (simp add: sdk_ok_def)
  have q2: "request_of (Some c') ?w2 = Some (?a, ?st1)" by (rule request_of_put [OF q(1)])
  obtain s2 where s2: "run (wr_acts (operation c')) (s\<lparr>sdk_world := ?w2\<rparr>) = Some s2"
    and res: "res = wr_result (operation c')"
    and s': "s' = s2\<lparr>sdk_world := finish (Some c') (update_root (Some (RootRef ?a)) (end_ops res) (sdk_world s2))\<rparr>"
    using assms(2,3) rt w2 by (auto simp: run_work_def bind_eq_Some_conv Let_def)
  obtain st2 sp2 where st2: "request_of (Some c') (sdk_world s2) = Some (?a, st2)" "same_fixed ?st1 st2"
      "rs_sampled st2" "rs_root_span st2 = Some sp2" "span_wf sp2"
    using state_after_handler [OF s2 ok2, of "Some c'"] q2 q(2) by auto
  let ?st3 = "st2\<lparr>rs_root_span := Some (run_ops (end_ops res) sp2)\<rparr>"
  let ?w3 = "put_request ?a ?st3 (sdk_world s2)"
  have w3: "update_root (Some (RootRef ?a)) (end_ops res) (sdk_world s2) = ?w3"
    by (rule root_update [OF st2(1,4)])
  have payload: "finish_payload ?st3 r = finish_payload st2 r" "finish_root ?st3 n r = finish_root st2 n r" for n r
    by (simp_all add: finish_payload_def finish_root_def)
  have "w_sent (finish (Some c') ?w3) = w_sent ?w3
      @ [(rs_transport ?st3, finish_payload ?st3 (finish_root ?st3 (fst (now_ns ?w3)) (run_ops (end_ops res) sp2)))]"
    using st2(3) by (intro finish_sent [OF request_of_put [OF st2(1)]]) simp_all
  then have "w_sent (sdk_world s') = w_sent (sdk_world s2)
      @ [(tc_transport t, finish_payload st2 (finish_root st2 (fst (now_ns ?w3)) (run_ops (end_ops res) sp2)))]"
    using st2(2) q(4) by (simp add: s' w3 payload same_fixed_def)
  then show ?thesis using res s2 rt w2 st2(1,5) by auto
qed

lemma sent_root:
  assumes "span_wf sp" and "p = finish_payload st (finish_root st now sp)"
  shows "\<exists>kids. request_spans p = to_data (finish_root st now sp) # kids"
    and "sp_status_code sp = status_error \<Longrightarrow>
           sd_status (to_data (finish_root st now sp)) = Some \<lparr>st_code = status_error, st_message = []\<rparr>"
proof -
  show "\<exists>kids. request_spans p = to_data (finish_root st now sp) # kids"
    by (simp add: assms(2) finish_payload_def)
  have "span_wf (finish_root st now sp)"
    using finish_root_ops [of st now sp] run_ops_wf [OF assms(1)] by auto
  then show "sp_status_code sp = status_error \<Longrightarrow>
      sd_status (to_data (finish_root st now sp)) = Some \<lparr>st_code = status_error, st_message = []\<rparr>"
    by (simp add: to_data_def finish_root_fields span_wf_def const_defs)
qed

text \<open>
  C28: a traced job always reports: whatever its operation does, once it ends (a panic included) one
  batch goes to the transport, its root marked as an error when the operation failed or panicked, and
  the operation's result or panic is handed to the caller unchanged.
\<close>
theorem job_always_reported:
  assumes "run acts (fresh_sdk rng clock) = Some s" and "run_job t c opts operation s = Some (res, s')"
    and "start_root t c (stable_work_name (jo_name opts) ''unnamed-job'') (jo_traceparent opts) kind_consumer
           category_job True (sdk_world s) = Some (c', w1)"
    and "is_sampled (Some c') w1"
  shows "\<exists>s2 p rt kids. res = wr_result (operation c')
    \<and> w_sent (sdk_world s') = w_sent (sdk_world s2) @ [(tc_transport t, p)] \<and> request_spans p = rt # kids
    \<and> run (wr_acts (operation c')) (s\<lparr>sdk_world := update_root (root_span (Some c') w1)
          (job_ops (stable_work_name (jo_name opts) ''unnamed-job'') opts) w1\<rparr>) = Some s2
    \<and> (res \<noteq> Return None \<longrightarrow> sd_status rt = Some \<lparr>st_code = status_error, st_message = []\<rparr>)"
proof -
  from assms(2) have "run_work t c (stable_work_name (jo_name opts) ''unnamed-job'') (jo_traceparent opts)
      kind_consumer category_job True (job_ops (stable_work_name (jo_name opts) ''unnamed-job'') opts)
      operation error_end s = Some (res, s')"
    by (simp add: run_job_def Let_def)
  from run_work_report [OF assms(1) this assms(3,4)] obtain s2 st sp now where
    r: "res = wr_result (operation c')" and sp: "span_wf sp"
    and s2: "run (wr_acts (operation c')) (s\<lparr>sdk_world := update_root (root_span (Some c') w1)
          (job_ops (stable_work_name (jo_name opts) ''unnamed-job'') opts) w1\<rparr>) = Some s2"
    and sent: "w_sent (sdk_world s') = w_sent (sdk_world s2)
        @ [(tc_transport t, finish_payload st (finish_root st now (run_ops (error_end res) sp)))]"
    by blast
  have wf: "span_wf (run_ops (error_end res) sp)" using sp by (rule run_ops_wf)
  have "sp_status_code (run_ops (error_end res) sp) = status_error" if "res \<noteq> Return None"
    using that by (cases res) (auto simp: error_end_def run_ops_def)
  then show ?thesis using r s2 sent sent_root [OF wf refl, of st now] by blast
qed

definition demo_job :: job_options where
  "demo_job = \<lparr>jo_name = ''mail'', jo_system = ''redis'', jo_destination = ''q'', jo_attempt = 0, jo_max_attempts = 0,
     jo_enqueued_ns = 0, jo_message_id = [], jo_traceparent = demo_header\<rparr>"

definition demo_failing :: "ctx \<Rightarrow> string option work_run" where
  "demo_failing c = \<lparr>wr_acts = [CountQuery (Some c)], wr_result = Panicked ''boom''\<rparr>"

lemma job_always_reported_witness:
  "\<exists>s' (s2 :: sdk) p rt kids. run_job demo_tracer [] demo_job demo_failing demo_sdk = Some (Panicked ''boom'', s')
    \<and> w_sent (sdk_world s') = w_sent (sdk_world s2) @ [(7, p)] \<and> request_spans p = rt # kids
    \<and> sd_status rt = Some \<lparr>st_code = status_error, st_message = []\<rparr>"
proof -
  let ?start = "start_root demo_tracer [] (stable_work_name (jo_name demo_job) ''unnamed-job'')
      (jo_traceparent demo_job) kind_consumer category_job True (sdk_world demo_sdk)"
  have "map_option (\<lambda>(c, w). (c, is_sampled (Some c) w)) ?start = Some ([CtxState 0], True)"
    by code_simp
  then obtain w1 where st: "?start = Some ([CtxState 0], w1)" and sam: "is_sampled (Some [CtxState 0]) w1"
    by (auto simp: map_option_eq_Some)
  have j: "\<exists>s'. run_job demo_tracer [] demo_job demo_failing demo_sdk = Some (Panicked ''boom'', s')"
    using st by (simp add: run_job_def run_work_def demo_failing_def Let_def)
  then obtain s' where j: "run_job demo_tracer [] demo_job demo_failing demo_sdk = Some (Panicked ''boom'', s')"
    by blast
  have r: "run [] (fresh_sdk demo_rng demo_clock) = Some demo_sdk" by (simp add: demo_sdk_def)
  obtain s2 :: sdk and p rt kids where "w_sent (sdk_world s') = w_sent (sdk_world s2) @ [(tc_transport demo_tracer, p)]"
      "request_spans p = rt # kids" "sd_status rt = Some \<lparr>st_code = status_error, st_message = []\<rparr>"
    using job_always_reported [OF r j st sam] by auto
  moreover have "tc_transport demo_tracer = 7" by (simp add: demo_tracer_def)
  ultimately show ?thesis using j by auto
qed

section \<open>The carrier\<close>

lemma envelope_traceparent: "envelope_of tp opts ''traceparent'' = Some tp"
  by (simp add: envelope_of_def Let_def)

text \<open>
  C32: a job enqueued inside a traced request continues that request: the carrier handed to the
  broker keeps every host entry and gains an envelope whose \<open>traceparent\<close> names the request's trace,
  its sampling decision, and a valid span id.
\<close>
theorem enqueue_carries_trace:
  assumes "run acts (fresh_sdk rng clock) = Some s" and "request_of c (sdk_world s) = Some (a, st)"
    and "enqueue c opts (Some m) operation s = Some ((res, carrier'), s')"
  shows "\<exists>m' env tp sid. carrier' = Some m' \<and> m' envelope_key = Some (Envelope env)
    \<and> (\<forall>k. k \<noteq> envelope_key \<longrightarrow> m' k = m k) \<and> res = wr_result (operation (Some m'))
    \<and> env ''traceparent'' = Some tp \<and> valid_id 16 sid
    \<and> parse_traceparent tp
        = Some \<lparr>tp_trace_id = rs_trace_id st, tp_parent_span_id = sid, tp_sampled = rs_sampled st\<rparr>"
proof -
  have ok: "request_ok st"
    using run_ok [OF assms(1)] world_request [OF _ assms(2)] by (simp add: sdk_ok_def)
  obtain sid w1 where sid: "fresh_span_id (sdk_world s) = Some (sid, w1)"
    using assms(2,3) by (auto simp: enqueue_def bind_eq_Some_conv)
  let ?tp = "format_traceparent (rs_trace_id st) sid (rs_sampled st)"
  let ?m = "m(envelope_key \<mapsto> Envelope (envelope_of ?tp opts))"
  have "carrier' = Some ?m" "res = wr_result (operation (Some ?m))"
    using assms(2,3) sid by (auto simp: enqueue_def bind_eq_Some_conv Let_def)
  moreover have "valid_id 16 sid" using fresh_span_id_keeps [OF sid] by simp
  moreover from this have "parse_traceparent ?tp
        = Some \<lparr>tp_trace_id = rs_trace_id st, tp_parent_span_id = sid, tp_sampled = rs_sampled st\<rparr>"
    using ok parse_format_traceparent by (simp add: request_ok_def)
  ultimately show ?thesis
    by (intro exI [of _ ?m] exI [of _ "envelope_of ?tp opts"] exI [of _ ?tp] exI [of _ sid])
      (simp add: envelope_traceparent)
qed

definition demo_enqueue :: enqueue_options where
  "demo_enqueue = \<lparr>eo_system = ''redis'', eo_destination = ''q'', eo_tracestate = []\<rparr>"

definition demo_publish :: "unit carrier \<Rightarrow> string option work_run" where
  "demo_publish c = \<lparr>wr_acts = [], wr_result = Return None\<rparr>"

lemma enqueue_carries_trace_witness:
  "\<exists>m' env tp sid. m' envelope_key = Some (Envelope env :: unit carrier_value) \<and> env ''traceparent'' = Some tp
    \<and> parse_traceparent tp
        = Some \<lparr>tp_trace_id = demo_trace_id, tp_parent_span_id = sid, tp_sampled = True\<rparr>"
proof -
  obtain s st where r: "run demo_acts (fresh_sdk demo_rng demo_clock) = Some s"
    and q: "request_of demo_ctx (sdk_world s) = Some (0, st)" "rs_sampled st" "rs_trace_id st = demo_trace_id"
    using demo_open by blast
  have "map_option (\<lambda>s. enqueue demo_ctx demo_enqueue (Some Map.empty) demo_publish s = None)
      (run demo_acts (fresh_sdk demo_rng demo_clock)) = Some False"
    by code_simp
  then obtain res carrier' s' where e:
    "enqueue demo_ctx demo_enqueue (Some Map.empty) demo_publish s = Some ((res, carrier'), s')"
    using r by auto
  from enqueue_carries_trace [OF r q(1) e] q(2,3) show ?thesis by auto
qed

text \<open>
  Inside a traced request a nil carrier makes \<open>Enqueue\<close> itself panic, while the same call outside of
  one goes through to the operation.
\<close>

lemma enqueue_nil_carrier_panics:
  assumes "request_of c (sdk_world s) \<noteq> None" and "enqueue c opts None operation s = Some ((res, carrier'), s')"
  shows "res = Panicked ''assignment to entry in nil map''"
  using assms by (auto simp: enqueue_def bind_eq_Some_conv)

text \<open>A disabled SDK still writes its envelope into the application's messages.\<close>

lemma enqueue_disabled_still_injects:
  assumes "request_of c (sdk_world s) = Some (a, st)" and "\<not> rs_enabled st"
    and "enqueue c opts (Some m) operation s = Some ((res, carrier'), s')"
  shows "\<exists>m' env. carrier' = Some m' \<and> m' envelope_key = Some (Envelope env)"
  using assms by (auto simp: enqueue_def bind_eq_Some_conv Let_def)

end
