(* ===== verification/GoRegexp.thy ===== *)
theory GoRegexp
  imports GoStrings
begin

text \<open>
  Go's \<open>regexp\<close> as the program uses it: the leftmost match, and of the matches there the one a
  backtracking search finds first.  A text is the list of its runes with their bytes; a search state
  is the rune before the position (for word boundaries), the text ahead, and the captures.  \<open>runs\<close>
  lists the states a match may end in, in the order of preference.
\<close>

section \<open>Expressions and their matches\<close>

datatype re =
  Eps
| Chr "nat \<Rightarrow> bool"
| Seq re re
| Alt re re
| Star bool re
| WordB
| Group nat re

type_synonym text_segs = "(nat \<times> string) list"

record search =
  se_prev :: "nat option"
  se_rest :: text_segs
  se_caps :: "(nat \<times> string) list"

definition word_rune :: "nat \<Rightarrow> bool" where
  "word_rune r \<longleftrightarrow> in_range 48 57 r \<or> in_range 65 90 r \<or> in_range 97 122 r \<or> r = 95"

definition word_at :: "nat option \<Rightarrow> bool" where
  "word_at r = (case r of None \<Rightarrow> False | Some c \<Rightarrow> word_rune c)"

definition next_rune :: "text_segs \<Rightarrow> nat option" where
  "next_rune xs = (case xs of [] \<Rightarrow> None | x # _ \<Rightarrow> Some (fst x))"

definition step_over :: "search \<Rightarrow> search" where
  "step_over st = st\<lparr>se_prev := next_rune (se_rest st), se_rest := tl (se_rest st)\<rparr>"

definition consumed :: "search \<Rightarrow> search \<Rightarrow> string" where
  "consumed st st' = bytes_of (take (length (se_rest st) - length (se_rest st')) (se_rest st))"

function star_iter :: "(search \<Rightarrow> search list) \<Rightarrow> bool \<Rightarrow> search \<Rightarrow> search list" where
  "star_iter f greedy st =
     (let more = concat (map (\<lambda>st'. if length (se_rest st') < length (se_rest st)
                                    then star_iter f greedy st' else []) (f st))
      in if greedy then more @ [st] else st # more)"
  by pat_completeness auto
termination
  by (relation "measure (\<lambda>(f, greedy, st). length (se_rest st))") simp_all

declare star_iter.simps [simp del]

fun runs :: "re \<Rightarrow> search \<Rightarrow> search list" where
  "runs Eps st = [st]"
| "runs (Chr p) st =
     (case se_rest st of [] \<Rightarrow> [] | x # _ \<Rightarrow> if p (fst x) then [step_over st] else [])"
| "runs (Seq a b) st = concat (map (runs b) (runs a st))"
| "runs (Alt a b) st = runs a st @ runs b st"
| "runs (Star greedy a) st = star_iter (runs a) greedy st"
| "runs WordB st = (if word_at (se_prev st) \<noteq> word_at (next_rune (se_rest st)) then [st] else [])"
| "runs (Group n a) st = map (\<lambda>st'. st'\<lparr>se_caps := (n, consumed st st') # se_caps st'\<rparr>) (runs a st)"

section \<open>The operators of the syntax\<close>

definition lit :: "string \<Rightarrow> re" where
  "lit s = foldr (\<lambda>c. Seq (Chr (\<lambda>r. r = ord c))) s Eps"

definition lit_fold :: "string \<Rightarrow> re" where
  "lit_fold s = foldr (\<lambda>c. Seq (Chr (\<lambda>r. fold_rune r = fold_rune (ord c)))) s Eps"

definition many :: "re \<Rightarrow> re" where "many a = Star True a"

definition some :: "re \<Rightarrow> re" where "some a = Seq a (Star True a)"

definition opt :: "re \<Rightarrow> re" where "opt a = Alt a Eps"

definition seqs :: "re list \<Rightarrow> re" where "seqs rs = foldr Seq rs Eps"

fun alts :: "re list \<Rightarrow> re" where
  "alts [] = Chr (\<lambda>_. False)"
| "alts [a] = a"
| "alts (a # rest) = Alt a (alts rest)"

definition digit :: re where "digit = Chr (in_range 48 57)"

definition word :: re where "word = Chr word_rune"

definition space_rune :: "nat \<Rightarrow> bool" where
  "space_rune r \<longleftrightarrow> r = 9 \<or> r = 10 \<or> r = 12 \<or> r = 13 \<or> r = 32"

definition blank :: re where "blank = Chr space_rune"

definition not_newline :: re where "not_newline = Chr (\<lambda>r. r \<noteq> 10)"

definition one_of :: "string \<Rightarrow> re" where "one_of cs = Chr (\<lambda>r. \<exists>c \<in> set cs. r = ord c)"

definition none_of :: "string \<Rightarrow> re" where "none_of cs = Chr (\<lambda>r. \<not> (\<exists>c \<in> set cs. r = ord c))"

section \<open>ReplaceAllString\<close>

text \<open>
  The replacement of every match from the left, for expressions that never match the empty text.
\<close>

function replace_from :: "re \<Rightarrow> (string \<Rightarrow> (nat \<times> string) list \<Rightarrow> string) \<Rightarrow> nat option \<Rightarrow> text_segs \<Rightarrow> string" where
  "replace_from r f prev xs =
     (case xs of
        [] \<Rightarrow> []
      | x # rest \<Rightarrow>
          (let st = \<lparr>se_prev = prev, se_rest = xs, se_caps = []\<rparr> in
           case runs r st of
             st' # _ \<Rightarrow>
               if length (se_rest st') < length xs
               then f (consumed st st') (se_caps st') @ replace_from r f (se_prev st') (se_rest st')
               else snd x @ replace_from r f (Some (fst x)) rest
           | [] \<Rightarrow> snd x @ replace_from r f (Some (fst x)) rest))"
  by pat_completeness auto
termination
  by (relation "measure (\<lambda>(r, f, prev, xs). length xs)") simp_all

declare replace_from.simps [simp del]

definition replace_all_func :: "re \<Rightarrow> (string \<Rightarrow> string) \<Rightarrow> string \<Rightarrow> string" where
  "replace_all_func r f s = replace_from r (\<lambda>m _. f m) None (segments s)"

definition replace_all :: "re \<Rightarrow> string \<Rightarrow> string \<Rightarrow> string" where
  "replace_all r repl s = replace_from r (\<lambda>_ _. repl) None (segments s)"

end
