(* ===== verification/Sql.thy ===== *)
theory Sql
  imports GoRegexp
begin

text \<open>
  \<open>sql.go\<close>: the lexical normalisation of SQL text into a template without literals, one pass per
  regular expression in the order of the code.
\<close>

section \<open>The expressions\<close>

definition re_string_single :: re where
  "re_string_single =
     seqs [lit [CHR 0x27], many (alts [none_of [CHR 0x27, CHR 0x5C], Seq (lit [CHR 0x5C]) not_newline,
             lit [CHR 0x27, CHR 0x27]]), lit [CHR 0x27]]"

definition re_string_double :: re where
  "re_string_double =
     seqs [lit [CHR 0x22], many (alts [none_of [CHR 0x22, CHR 0x5C], Seq (lit [CHR 0x5C]) not_newline,
             lit [CHR 0x22, CHR 0x22]]), lit [CHR 0x22]]"

definition hex_digit :: re where
  "hex_digit = Chr (\<lambda>r. in_range 48 57 r \<or> in_range 97 102 r \<or> in_range 65 70 r)"

definition re_hex :: re where
  "re_hex = seqs [WordB, lit ''0x'', some hex_digit, WordB]"

definition re_decimal :: re where
  "re_decimal =
     seqs [WordB, some digit, lit ''.'', some digit,
       opt (seqs [one_of ''eE'', opt (one_of ''+-''), some digit]), WordB]"

definition re_int :: re where
  "re_int = seqs [WordB, some digit, WordB]"

definition re_placeh_num :: re where
  "re_placeh_num = seqs [lit ''?'', some digit]"

definition re_named :: re where
  "re_named = seqs [one_of '':$'', some word]"

text \<open>A parenthesised list of placeholders: \<open>n\<close> is the expression for the items after the first.\<close>

definition comma_item :: re where
  "comma_item = seqs [many blank, lit '','', many blank, lit ''?'']"

definition tuple :: "re \<Rightarrow> re" where
  "tuple items = seqs [lit ''('', many blank, lit ''?'', items, many blank, lit '')'']"

definition re_in_list :: re where
  "re_in_list = seqs [WordB, lit_fold ''in'', many blank, tuple (many comma_item)]"

definition re_tuples_many :: re where
  "re_tuples_many =
     seqs [tuple (many comma_item), some (seqs [many blank, lit '','', many blank, tuple (many comma_item)])]"

definition re_tuple_multi :: re where
  "re_tuple_multi = tuple (some comma_item)"

definition re_whitespace :: re where
  "re_whitespace = some blank"

section \<open>Normalize\<close>

definition normalize :: "string \<Rightarrow> string" where
  "normalize sql =
     (let s = sql;
          s = replace_all re_string_single ''?'' s;
          s = replace_all re_string_double ''?'' s;
          s = replace_all re_named ''?'' s;
          s = replace_all re_placeh_num ''?'' s;
          s = replace_all re_hex ''?'' s;
          s = replace_all re_decimal ''?'' s;
          s = replace_all re_int ''?'' s;
          s = replace_all re_in_list ''IN (?)'' s;
          s = replace_all re_tuples_many ''(?)'' s;
          s = replace_all re_tuple_multi ''(?)'' s;
          s = replace_all re_whitespace '' '' s;
          s = trim_space s
      in to_lower s)"

end
