(* ===== verification/SqlText.thy ===== *)
theory SqlText
  imports Sql
begin

text \<open>
  What \<open>Normalize\<close> does to the literals of a statement (\<open>sql.go\<close>).
\<close>

section \<open>Texts with ASCII delimiters\<close>

lemma decode_before_ascii:
  assumes "ord c < 128"
  shows "decode_rune d (cs @ c # t) = decode_rune d cs \<and> snd (decode_rune d cs) - 1 \<le> length cs"
proof -
  have no: "\<not> cont_ok (ord c)" "\<not> second_ok b (ord c)" for b
    using assms by (auto simp: cont_ok_def second_ok_def utf8_second_def in_range_def)
  show ?thesis
    by (cases cs; cases "tl cs"; cases "tl (tl cs)")
      (auto simp: decode_rune_def decode2_def decode3_def decode4_def Let_def no split: list.splits)
qed

lemma segments_delimited:
  assumes "ord c < 128"
  shows "segments (s @ c # t) = segments s @ (ord c, [c]) # segments t"
proof (induction s rule: segments.induct)
  case 1
  then show ?case using assms by (simp add: decode_rune_def)
next
  case (2 d cs)
  note d = decode_before_ascii [OF assms, of d cs t]
  then have "snd (decode_rune d cs) \<le> Suc (length cs)" "snd (decode_rune d cs) - Suc (length cs) = 0"
    by linarith+
  with 2 d show ?case by simp
qed

lemma rune_ascii: "fst (decode_rune d cs) < 128 \<Longrightarrow> ord d = fst (decode_rune d cs)"
  by (auto simp: decode_rune_def decode2_def decode3_def decode4_def Let_def second_ok_def cont_ok_def
      utf8_second_def in_range_def rune_error_def split: if_splits list.splits)

lemma segments_free:
  assumes "c \<notin> set s" and "ord c < 128"
  shows "list_all (\<lambda>x. fst x \<noteq> ord c) (segments s)"
  using assms
proof (induction s rule: segments.induct)
  case (2 d cs)
  have "fst (decode_rune d cs) \<noteq> ord c"
  proof
    assume "fst (decode_rune d cs) = ord c"
    with rune_ascii [of d cs] 2(3) have "ord d = ord c" by simp
    with 2(2) show False by (simp add: ord_inject)
  qed
  moreover have "c \<notin> set (drop (snd (decode_rune d cs) - 1) cs)"
    using 2(2) by (auto dest: in_set_dropD)
  ultimately show ?case using 2 by simp
qed simp

section \<open>A quoted literal\<close>

text \<open>
  The inside of a literal: a backslash takes the next rune (not a newline) with it, a quote is doubled.
\<close>

fun literal_body :: "nat \<Rightarrow> text_segs \<Rightarrow> bool" where
  "literal_body q [] = True"
| "literal_body q [x] \<longleftrightarrow> fst x \<noteq> 92 \<and> fst x \<noteq> q"
| "literal_body q (x # y # ys) \<longleftrightarrow>
     (if fst x = 92 then fst y \<noteq> 10 \<and> literal_body q ys
      else if fst x = q then fst y = q \<and> literal_body q ys
      else literal_body q (y # ys))"

definition literal_items :: "char \<Rightarrow> re" where
  "literal_items q = alts [none_of [q, CHR 0x5C], Seq (lit [CHR 0x5C]) not_newline, lit [q, q]]"

lemma re_strings:
  "re_string_single = seqs [lit [CHR 0x27], many (literal_items (CHR 0x27)), lit [CHR 0x27]]"
  "re_string_double = seqs [lit [CHR 0x22], many (literal_items (CHR 0x22)), lit [CHR 0x22]]"
  by (simp_all add: re_string_single_def re_string_double_def literal_items_def)

lemmas literal_runs = literal_items_def none_of_def lit_def not_newline_def step_over_def

lemma star_step:
  "f st = [st'] \<Longrightarrow> length (se_rest st') < length (se_rest st) \<Longrightarrow>
     star_iter f True st = star_iter f True st' @ [st]"
  by (subst star_iter.simps) simp

lemma star_stop: "f st = [] \<Longrightarrow> star_iter f True st = [st]"
  by (subst star_iter.simps) simp

text \<open>The greedy loop reads the whole body first and stops at the closing quote.\<close>

lemma literal_star:
  assumes "literal_body (ord q) xs" and "ord q \<noteq> 92" and "next_rune rest \<noteq> Some (ord q)"
    and "se_rest st = xs @ (ord q, [q]) # rest"
  shows "\<exists>st' more. star_iter (runs (literal_items q)) True st = st' # more
    \<and> se_rest st' = (ord q, [q]) # rest"
  using assms
proof (induction "ord q" xs arbitrary: st rule: literal_body.induct)
  case 1
  then have "runs (literal_items q) st = []"
    by (cases rest) (auto simp: literal_runs next_rune_def)
  with 1 show ?case by (simp add: star_stop)
next
  case (2 x)
  then have step: "runs (literal_items q) st = [step_over st]"
    by (auto simp: literal_runs)
  have "runs (literal_items q) (step_over st) = []"
    using 2 by (cases rest) (auto simp: literal_runs next_rune_def)
  with 2 step show ?case by (auto simp: star_step star_stop step_over_def)
next
  case (3 x y ys)
  show ?case
  proof (cases "fst x = 92 \<or> fst x = ord q")
    case True
    then have step: "runs (literal_items q) st = [step_over (step_over st)]"
      using 3(4-7) by (auto simp: literal_runs)
    have "\<exists>st' more. star_iter (runs (literal_items q)) True (step_over (step_over st)) = st' # more
        \<and> se_rest st' = (ord q, [q]) # rest"
      using True 3 by (auto simp: step_over_def split: if_splits)
    with step 3(7) show ?thesis by (auto simp: star_step step_over_def)
  next
    case False
    then have step: "runs (literal_items q) st = [step_over st]"
      using 3(7) by (auto simp: literal_runs)
    have "\<exists>st' more. star_iter (runs (literal_items q)) True (step_over st) = st' # more
        \<and> se_rest st' = (ord q, [q]) # rest"
      using False 3 by (auto simp: step_over_def split: if_splits)
    with step 3(7) show ?thesis by (auto simp: star_step step_over_def)
  qed
qed


definition quoted :: "char \<Rightarrow> re" where
  "quoted q = seqs [lit [q], many (literal_items q), lit [q]]"

lemma quoted_match:
  assumes "literal_body (ord q) xs" and "ord q \<noteq> 92" and "next_rune rest \<noteq> Some (ord q)"
    and "se_rest st = (ord q, [q]) # xs @ (ord q, [q]) # rest"
  shows "\<exists>st' more. runs (quoted q) st = st' # more \<and> se_rest st' = rest"
proof -
  have one: "runs (lit [q]) st1 = [step_over st1]" if "se_rest st1 = (ord q, [q]) # ys" for st1 ys
    using that by (simp add: lit_def)
  have "se_rest (step_over st) = xs @ (ord q, [q]) # rest" using assms(4) by (simp add: step_over_def)
  from literal_star [OF assms(1-3) this] obtain st1 more where
    st1: "star_iter (runs (literal_items q)) True (step_over st) = st1 # more" "se_rest st1 = (ord q, [q]) # rest"
    by blast
  have "runs (quoted q) st = step_over st1 # concat (map (runs (seqs [lit [q]])) more)"
    using one [OF assms(4)] one [OF st1(2)] st1(1) by (simp add: quoted_def many_def seqs_def comp_def)
  then show ?thesis using st1(2) by (simp add: step_over_def)
qed

lemma quoted_no_match:
  "next_rune (se_rest st) \<noteq> Some (ord q) \<Longrightarrow> runs (quoted q) st = []"
  by (cases "se_rest st") (auto simp: quoted_def seqs_def lit_def next_rune_def)

lemma replace_quoted_plain:
  "list_all (\<lambda>x. fst x \<noteq> ord q) xs \<Longrightarrow> next_rune ys \<noteq> None \<or> ys = [] \<Longrightarrow>
     \<exists>prev'. replace_from (quoted q) f prev (xs @ ys) = bytes_of xs @ replace_from (quoted q) f prev' ys"
proof (induction xs arbitrary: prev)
  case (Cons x xs)
  then have "runs (quoted q) \<lparr>se_prev = prev, se_rest = x # xs @ ys, se_caps = []\<rparr> = []"
    by (intro quoted_no_match) (simp add: next_rune_def)
  then show ?case
    using Cons by (subst replace_from.simps) auto
qed auto

lemma replace_quoted_literal:
  assumes "literal_body (ord q) xs" and "ord q \<noteq> 92" and "next_rune rest \<noteq> Some (ord q)"
  shows "\<exists>prev'. replace_from (quoted q) (\<lambda>_ _. repl) prev ((ord q, [q]) # xs @ (ord q, [q]) # rest)
    = repl @ replace_from (quoted q) (\<lambda>_ _. repl) prev' rest"
proof -
  let ?all = "(ord q, [q]) # xs @ (ord q, [q]) # rest"
  obtain st' more where "runs (quoted q) \<lparr>se_prev = prev, se_rest = ?all, se_caps = []\<rparr> = st' # more"
      "se_rest st' = rest"
    using quoted_match [OF assms, of "\<lparr>se_prev = prev, se_rest = ?all, se_caps = []\<rparr>"] by auto
  then have "replace_from (quoted q) (\<lambda>_ _. repl) prev ?all
      = repl @ replace_from (quoted q) (\<lambda>_ _. repl) (se_prev st') rest"
    by (subst replace_from.simps) (simp add: Let_def)
  then show ?thesis by blast
qed

section \<open>A statement with literals\<close>

text \<open>
  A statement as pieces: some text without quotes, then a literal; and the text after the last one.
\<close>

definition sql_literal :: "string \<Rightarrow> bool" where
  "sql_literal l \<longleftrightarrow> literal_body 39 (segments l)"

definition quote_literal :: "string \<Rightarrow> string" where
  "quote_literal l = [CHR 0x27] @ l @ [CHR 0x27]"

definition sql_piece :: "string \<times> string \<Rightarrow> bool" where
  "sql_piece p \<longleftrightarrow> fst p \<noteq> [] \<and> CHR 0x27 \<notin> set (fst p) \<and> sql_literal (snd p)"

definition with_literals :: "(string \<times> string) list \<Rightarrow> string \<Rightarrow> string" where
  "with_literals ps after = concat (map (\<lambda>p. fst p @ quote_literal (snd p)) ps) @ after"

definition with_marks :: "(string \<times> string) list \<Rightarrow> string \<Rightarrow> string" where
  "with_marks ps after = concat (map (\<lambda>p. fst p @ ''?'') ps) @ after"

lemma head_rune_free:
  "CHR 0x27 \<notin> set s \<Longrightarrow> next_rune (segments s) \<noteq> Some 39"
  using segments_free [of "CHR 0x27" s] by (cases "segments s") (auto simp: next_rune_def)

lemma head_rune_append:
  assumes "s \<noteq> []" and "CHR 0x27 \<notin> set s" and "ord c < 128"
  shows "next_rune (segments (s @ c # t)) \<noteq> Some 39"
  using head_rune_free [OF assms(2)] assms(1) segments_delimited [OF assms(3), of s t]
  by (cases "segments s") (auto simp: next_rune_def dest: arg_cong [of _ _ bytes_of])


lemma next_piece_free:
  assumes "list_all sql_piece ps" and "CHR 0x27 \<notin> set after"
  shows "next_rune (segments (with_literals ps after)) \<noteq> Some 39"
proof (cases ps)
  case Nil
  then show ?thesis using head_rune_free [OF assms(2)] by (simp add: with_literals_def)
next
  case (Cons p ps')
  then show ?thesis
    using assms(1) head_rune_append [of "fst p" "CHR 0x27"
        "snd p @ CHR 0x27 # concat (map (\<lambda>p. fst p @ quote_literal (snd p)) ps') @ after"]
    by (simp add: with_literals_def quote_literal_def sql_piece_def)
qed

lemma erase_literals:
  assumes "list_all sql_piece ps" and "CHR 0x27 \<notin> set after"
  shows "replace_from (quoted (CHR 0x27)) (\<lambda>_ _. ''?'') prev (segments (with_literals ps after)) = with_marks ps after"
  using assms(1)
proof (induction ps arbitrary: prev)
  case Nil
  have "list_all (\<lambda>x. fst x \<noteq> ord (CHR 0x27)) (segments after)"
    using segments_free [OF assms(2)] by simp
  from replace_quoted_plain [OF this, of "[]" "\<lambda>_ _. ''?''" prev]
  show ?case by (auto simp: with_literals_def with_marks_def replace_from.simps)
next
  case (Cons p ps)
  let ?q = "(39, [CHR 0x27]) :: nat \<times> string" and ?rest = "segments (with_literals ps after)"
  have p: "CHR 0x27 \<notin> set (fst p)" "literal_body 39 (segments (snd p))"
    using Cons.prems by (simp_all add: sql_piece_def sql_literal_def)
  have "with_literals (p # ps) after = fst p @ CHR 0x27 # snd p @ CHR 0x27 # with_literals ps after"
    by (simp add: with_literals_def quote_literal_def)
  then have split: "segments (with_literals (p # ps) after)
      = segments (fst p) @ ?q # segments (snd p) @ ?q # ?rest"
    by (simp add: segments_delimited)
  have free: "list_all (\<lambda>x. fst x \<noteq> ord (CHR 0x27)) (segments (fst p))"
    using segments_free [OF p(1)] by simp
  have "next_rune ?rest \<noteq> Some 39"
    using Cons.prems by (intro next_piece_free [OF _ assms(2)]) simp
  then have lit: "\<exists>prev'. replace_from (quoted (CHR 0x27)) (\<lambda>_ _. ''?'') prev1 (?q # segments (snd p) @ ?q # ?rest)
      = ''?'' @ replace_from (quoted (CHR 0x27)) (\<lambda>_ _. ''?'') prev' ?rest" for prev1
    using replace_quoted_literal [of "CHR 0x27" "segments (snd p)" ?rest "''?''" prev1] p(2) by simp
  obtain prev1 where "replace_from (quoted (CHR 0x27)) (\<lambda>_ _. ''?'') prev (segments (with_literals (p # ps) after))
      = fst p @ replace_from (quoted (CHR 0x27)) (\<lambda>_ _. ''?'') prev1 (?q # segments (snd p) @ ?q # ?rest)"
    unfolding split using replace_quoted_plain [OF free, of "?q # segments (snd p) @ ?q # ?rest" "\<lambda>_ _. ''?''" prev]
    by (auto simp: next_rune_def)
  with lit [of prev1] show ?case
    using Cons by (auto simp: with_marks_def)
qed

lemma no_quotes_kept:
  assumes "CHR 0x27 \<notin> set s"
  shows "replace_from (quoted (CHR 0x27)) (\<lambda>_ _. ''?'') prev (segments s) = s"
  using erase_literals [of "[]" s prev] assms by (simp add: with_literals_def with_marks_def)



text \<open>
  Where it stops: an apostrophe outside a literal (in a comment, say), or a backslash that the server does not
  take for an escape, shifts the pairing of quotes, and the text of a literal is kept.
\<close>

lemma apostrophe_leaks_literal:
  "normalize (''select 1 -- don'' @ [CHR 0x27] @ ''t'' @ [CHR 0x0A] @ ''where name = '' @ quote_literal ''alice'')
     = ''select ? -- don?alice'' @ [CHR 0x27]"
  by code_simp

lemma backslash_leaks_literal:
  "normalize (''select '' @ quote_literal [CHR 0x5C] @ '', '' @ quote_literal ''alice'') = ''select ?alice'' @ [CHR 0x27]"
  by code_simp

end
