(* ===== verification/SqlNumbers.thy ===== *)
theory SqlNumbers
  imports SqlText
begin

text \<open>
  No integer literal survives \<open>Normalize\<close>: a scan of the template never meets a run of digits that stands
  alone.  The scan is an automaton on bytes; the pass for integers establishes it and the later passes, the
  trimming and the lower-casing keep it.
\<close>

section \<open>The scan\<close>

definition digit_byte :: "char \<Rightarrow> bool" where
  "digit_byte c \<longleftrightarrow> in_range 48 57 (ord c)"

definition word_byte :: "char \<Rightarrow> bool" where
  "word_byte c \<longleftrightarrow> word_rune (ord c)"

datatype scan = Between | InNumber | InWord

definition scan_char :: "scan \<Rightarrow> char \<Rightarrow> scan option" where
  "scan_char st c =
     (if digit_byte c then Some (if st = Between then InNumber else st)
      else if word_byte c then Some InWord
      else if st = InNumber then None else Some Between)"

fun scan_text :: "scan \<Rightarrow> string \<Rightarrow> scan option" where
  "scan_text st [] = Some st"
| "scan_text st (c # cs) = (case scan_char st c of None \<Rightarrow> None | Some st' \<Rightarrow> scan_text st' cs)"

definition clean :: "scan \<Rightarrow> string \<Rightarrow> bool" where
  "clean st s \<longleftrightarrow> (\<exists>st'. scan_text st s = Some st' \<and> st' \<noteq> InNumber)"

lemma scan_append: "scan_text st (a @ b) = Option.bind (scan_text st a) (\<lambda>st'. scan_text st' b)"
  by (induction a arbitrary: st) (auto split: option.splits)

lemma digit_word: "digit_byte c \<Longrightarrow> word_byte c"
  by (simp add: digit_byte_def word_byte_def word_rune_def)

lemma clean_nil [simp]: "clean st [] \<longleftrightarrow> st \<noteq> InNumber"
  by (simp add: clean_def)

lemma clean_append: "clean st (a @ b) \<longleftrightarrow> (\<exists>st'. scan_text st a = Some st' \<and> clean st' b)"
  by (auto simp: clean_def scan_append bind_eq_Some_conv)

lemma clean_word: "clean Between s \<Longrightarrow> clean InWord s"
proof (induction s)
  case (Cons c s)
  show ?case
  proof (cases "digit_byte c")
    case True
    have mono: "clean InNumber t \<Longrightarrow> clean InWord t" for t
    proof (induction t)
      case (Cons d t)
      then show ?case by (auto simp: clean_def scan_char_def split: if_splits)
    qed simp
    then show ?thesis using True Cons.prems mono [of s] by (auto simp: clean_def scan_char_def)
  next
    case False
    then show ?thesis using Cons by (auto simp: clean_def scan_char_def split: if_splits)
  qed
qed simp

lemma scan_breaks:
  "bs \<noteq> [] \<Longrightarrow> list_all (\<lambda>c. \<not> word_byte c) bs \<Longrightarrow> scan_text st bs = (if st = InNumber then None else Some Between)"
proof (induction bs arbitrary: st)
  case (Cons c bs)
  then have "scan_char st c = (if st = InNumber then None else Some Between)"
    using digit_word by (auto simp: scan_char_def)
  with Cons show ?case by (cases bs) auto
qed simp

lemma scan_last:
  assumes "\<not> word_byte c" and "scan_text st (s @ [c]) = Some st'"
  shows "st' = Between"
  using assms digit_word by (auto simp: scan_append bind_eq_Some_conv scan_char_def split: if_splits option.splits)

text \<open>What a clean text has not: digits with neither a word byte before nor one after.\<close>

definition ends_in_word :: "string \<Rightarrow> bool" where
  "ends_in_word s \<longleftrightarrow> s \<noteq> [] \<and> word_byte (last s)"

definition begins_with_word :: "string \<Rightarrow> bool" where
  "begins_with_word s \<longleftrightarrow> s \<noteq> [] \<and> word_byte (hd s)"

lemma scan_digits: "d \<noteq> [] \<Longrightarrow> list_all digit_byte d \<Longrightarrow> scan_text Between d = Some InNumber"
proof -
  have "list_all digit_byte t \<Longrightarrow> scan_text InNumber t = Some InNumber" for t
    by (induction t) (auto simp: scan_char_def)
  then show "d \<noteq> [] \<Longrightarrow> list_all digit_byte d \<Longrightarrow> scan_text Between d = Some InNumber"
    by (cases d) (auto simp: scan_char_def)
qed

lemma clean_no_number:
  assumes "clean Between (pre @ d @ post)" and "d \<noteq> []" and "list_all digit_byte d"
  shows "ends_in_word pre \<or> begins_with_word post"
proof (rule ccontr)
  assume no: "\<not> (ends_in_word pre \<or> begins_with_word post)"
  obtain st where st: "scan_text Between pre = Some st" "clean st (d @ post)"
    using assms(1) by (auto simp: clean_append)
  have "st = Between"
  proof (cases pre rule: rev_cases)
    case (snoc s c)
    then show ?thesis using no st(1) scan_last by (auto simp: ends_in_word_def)
  qed (use st in simp)
  with st(2) have "clean InNumber post" by (simp add: clean_append scan_digits [OF assms(2,3)])
  then show False
    using no digit_word [of "hd post"]
    by (cases post) (auto simp: begins_with_word_def clean_def scan_char_def split: if_splits)
qed

section \<open>Segments and their bytes\<close>

definition seg_ok :: "nat \<times> string \<Rightarrow> bool" where
  "seg_ok x \<longleftrightarrow> (if fst x < 128 then snd x = [char_of (fst x)]
     else snd x \<noteq> [] \<and> list_all (\<lambda>c. 128 \<le> ord c) (snd x))"

definition high :: "nat \<times> nat \<Rightarrow> string \<Rightarrow> bool" where
  "high rm cs \<longleftrightarrow> 128 \<le> fst rm \<and> list_all (\<lambda>c. 128 \<le> ord c) (take (snd rm - 1) cs)"

lemma cont_high: "second_ok b n \<Longrightarrow> 128 \<le> n" "cont_ok n \<Longrightarrow> 128 \<le> n"
  by (auto simp: second_ok_def utf8_second_def cont_ok_def in_range_def split: if_splits)

lemma second_high:
  "second_ok 224 n \<Longrightarrow> 2048 \<le> (n - 128) * 64 \<and> 128 \<le> n"
  "second_ok 240 n \<Longrightarrow> 65536 \<le> (n - 128) * 4096 \<and> 128 \<le> n"
  by (auto simp: second_ok_def utf8_second_def in_range_def)

lemma decode_bytes_high:
  "in_range 194 223 b \<Longrightarrow> high (decode2 b cs) cs"
  "in_range 224 239 b \<Longrightarrow> high (decode3 b cs) cs"
  "in_range 240 244 b \<Longrightarrow> high (decode4 b cs) cs"
proof -
  show "high (decode2 b cs) cs" if "in_range 194 223 b"
  proof -
    have "128 \<le> (b - 192) * 64" using that by (auto simp: in_range_def)
    then show ?thesis by (auto simp: high_def decode2_def rune_error_def dest: cont_high split: list.splits)
  qed
  show "high (decode3 b cs) cs" if "in_range 224 239 b"
  proof (cases "b = 224")
    case True
    then show ?thesis
      by (auto simp: high_def decode3_def rune_error_def dest: second_high(1) cont_high(2) split: list.splits)
  next
    case False
    then have "1 \<le> b - 224" using that by (auto simp: in_range_def)
    then have "4096 \<le> (b - 224) * 4096" by simp
    then show ?thesis
      by (auto simp: high_def decode3_def rune_error_def dest: cont_high split: list.splits)
  qed
  show "high (decode4 b cs) cs" if "in_range 240 244 b"
  proof (cases "b = 240")
    case True
    then show ?thesis
      by (auto simp: high_def decode4_def rune_error_def dest: second_high(2) cont_high(2) split: list.splits)
  next
    case False
    then have "1 \<le> b - 240" using that by (auto simp: in_range_def)
    then have "262144 \<le> (b - 240) * 262144" by simp
    then show ?thesis
      by (auto simp: high_def decode4_def rune_error_def dest: cont_high split: list.splits)
  qed
qed

lemma decode_seg_ok: "seg_ok (fst (decode_rune c cs), c # take (snd (decode_rune c cs) - 1) cs)"
proof (cases "ord c < 128")
  case True
  then show ?thesis by (simp add: seg_ok_def decode_rune_def)
next
  case False
  then have "high (decode_rune c cs) cs"
    using decode_bytes_high [of "ord c" cs] by (simp add: decode_rune_def Let_def) (simp add: high_def rune_error_def)
  then show ?thesis using False by (simp add: seg_ok_def high_def)
qed

lemma segments_ok: "list_all seg_ok (segments s)"
  by (induction s rule: segments.induct) (auto simp: decode_seg_ok [simplified])

lemma scan_seg:
  assumes "seg_ok x"
  shows "scan_text st (snd x) =
    (if in_range 48 57 (fst x) then Some (if st = Between then InNumber else st)
     else if word_rune (fst x) then Some InWord
     else if st = InNumber then None else Some Between)"
proof (cases "fst x < 128")
  case True
  then show ?thesis using assms by (auto simp: seg_ok_def scan_char_def digit_byte_def word_byte_def)
next
  case False
  then have "\<not> word_rune (fst x)" "\<not> in_range 48 57 (fst x)" by (auto simp: word_rune_def in_range_def)
  moreover have "list_all (\<lambda>c. \<not> word_byte c) (snd x)" "snd x \<noteq> []"
    using assms False by (auto simp: seg_ok_def list_all_iff word_byte_def word_rune_def in_range_def)
  ultimately show ?thesis by (simp add: scan_breaks)
qed


section \<open>The pass for integers\<close>

abbreviation digit_seg :: "nat \<times> string \<Rightarrow> bool" where
  "digit_seg x \<equiv> in_range 48 57 (fst x)"

lemma digit_word_rune: "in_range 48 57 r \<Longrightarrow> word_rune r"
  by (simp add: word_rune_def)

lemma runs_digit:
  "runs digit st = (case se_rest st of [] \<Rightarrow> [] | x # _ \<Rightarrow> if digit_seg x then [step_over st] else [])"
  by (simp add: digit_def)

text \<open>
  The greedy loop over digits, inside a word: its longest result stops at the first non-digit, and after every
  other result a digit follows.
\<close>

lemma digits_star:
  assumes "list_all digit_seg ds" and "\<forall>x xs. rest = x # xs \<longrightarrow> \<not> digit_seg x"
    and "se_rest st = ds @ rest" and "word_at (se_prev st)"
  shows "\<exists>st' others. star_iter (runs digit) True st = st' # others \<and> se_rest st' = rest \<and> word_at (se_prev st')
    \<and> list_all (\<lambda>o'. word_at (se_prev o') \<and> word_at (next_rune (se_rest o'))) others"
  using assms(1,3,4)
proof (induction ds arbitrary: st)
  case Nil
  then have "runs digit st = []" using assms(2) by (cases rest) (auto simp: runs_digit)
  then show ?case using Nil by (simp add: star_stop)
next
  case (Cons d ds)
  have step: "runs digit st = [step_over st]" and w: "word_rune (fst d)"
    using Cons.prems digit_word_rune by (simp_all add: runs_digit)
  have "\<exists>st' others. star_iter (runs digit) True (step_over st) = st' # others \<and> se_rest st' = rest
    \<and> word_at (se_prev st') \<and> list_all (\<lambda>o'. word_at (se_prev o') \<and> word_at (next_rune (se_rest o'))) others"
    using Cons w by (intro Cons.IH) (simp_all add: step_over_def next_rune_def word_at_def)
  then obtain st' others where "star_iter (runs digit) True (step_over st) = st' # others" "se_rest st' = rest"
      "word_at (se_prev st')" "list_all (\<lambda>o'. word_at (se_prev o') \<and> word_at (next_rune (se_rest o'))) others"
    by blast
  moreover have "star_iter (runs digit) True st = star_iter (runs digit) True (step_over st) @ [st]"
    using step Cons.prems(2) by (intro star_step [where f = "runs digit"]) (simp_all add: step_over_def)
  moreover have "word_at (next_rune (se_rest st))"
    using Cons.prems(2) w by (simp add: next_rune_def word_at_def)
  ultimately show ?case using Cons.prems(3) by simp
qed

lemma runs_word_end: "runs (seqs [WordB]) st = (if word_at (se_prev st) \<noteq> word_at (next_rune (se_rest st)) then [st] else [])"
  by (simp add: seqs_def)

lemma no_word_ends:
  "list_all (\<lambda>o'. word_at (se_prev o') \<and> word_at (next_rune (se_rest o'))) others \<Longrightarrow>
     concat (map (runs (seqs [WordB])) others) = []"
  by (induction others) (simp_all add: runs_word_end del: runs.simps)

lemma int_runs:
  assumes "ds \<noteq> []" and "list_all digit_seg ds" and "\<forall>x xs. rest = x # xs \<longrightarrow> \<not> digit_seg x"
    and "se_rest st = ds @ rest" and "\<not> word_at (se_prev st)"
  shows "if word_at (next_rune rest) then runs re_int st = []
    else \<exists>st'. runs re_int st = [st'] \<and> se_rest st' = rest \<and> word_at (se_prev st')"
proof -
  obtain d ds' where ds: "ds = d # ds'" using assms(1) by (cases ds) auto
  have d: "digit_seg d" "word_rune (fst d)" using assms(2) ds digit_word_rune by simp_all
  have first: "runs WordB st = [st]" "runs digit st = [step_over st]"
    using assms(4,5) ds d by (simp_all add: runs_digit next_rune_def word_at_def)
  obtain st' others where star: "star_iter (runs digit) True (step_over st) = st' # others" "se_rest st' = rest"
      "word_at (se_prev st')" "list_all (\<lambda>o'. word_at (se_prev o') \<and> word_at (next_rune (se_rest o'))) others"
    using digits_star [of ds' rest "step_over st"] assms(2-4) ds d
    by (auto simp: step_over_def next_rune_def word_at_def)
  have "runs re_int st = concat (map (runs (seqs [WordB])) (st' # others))"
    using first star(1) by (simp add: re_int_def seqs_def some_def)
  also have "\<dots> = runs (seqs [WordB]) st'"
    using no_word_ends [OF star(4)] by simp
  finally show ?thesis using star(2,3) by (simp add: runs_word_end del: runs.simps)
qed

lemma int_runs_elsewhere:
  assumes "word_at (se_prev st) \<or> (\<forall>x xs. se_rest st = x # xs \<longrightarrow> \<not> digit_seg x)"
  shows "runs re_int st = []"
proof (cases "se_rest st")
  case Nil
  then show ?thesis by (simp add: re_int_def seqs_def some_def runs_digit)
next
  case (Cons x xs)
  then show ?thesis
    using assms digit_word_rune [of "fst x"]
    by (auto simp: re_int_def seqs_def some_def runs_digit next_rune_def word_at_def)
qed


abbreviation int_out :: "nat option \<Rightarrow> text_segs \<Rightarrow> string" where
  "int_out \<equiv> replace_from re_int (\<lambda>_ _. ''?'')"

lemma replace_skip:
  "runs r \<lparr>se_prev = prev, se_rest = x # xs, se_caps = []\<rparr> = [] \<Longrightarrow>
     replace_from r f prev (x # xs) = snd x @ replace_from r f (Some (fst x)) xs"
  by (subst replace_from.simps) simp

lemma replace_match:
  "runs r \<lparr>se_prev = prev, se_rest = xs, se_caps = []\<rparr> = st' # others \<Longrightarrow>
     length (se_rest st') < length xs \<Longrightarrow>
     replace_from r (\<lambda>_ _. repl) prev xs = repl @ replace_from r (\<lambda>_ _. repl) (se_prev st') (se_rest st')"
  by (cases xs) (simp, subst replace_from.simps, simp add: Let_def)

text \<open>Digits that run into a word.\<close>

definition into_word :: "text_segs \<Rightarrow> bool" where
  "into_word xs \<longleftrightarrow> (\<exists>ds y ys. xs = ds @ y # ys \<and> list_all digit_seg ds \<and> \<not> digit_seg y \<and> word_rune (fst y))"

lemma into_word_Cons:
  "into_word (x # xs) \<longleftrightarrow> (if digit_seg x then into_word xs else word_rune (fst x))"
proof
  assume "into_word (x # xs)"
  then obtain ds y ys where s: "x # xs = ds @ y # ys" "list_all digit_seg ds" "\<not> digit_seg y" "word_rune (fst y)"
    unfolding into_word_def by blast
  then show "if digit_seg x then into_word xs else word_rune (fst x)"
  proof (cases ds)
    case (Cons d ds')
    then have "xs = ds' @ y # ys" "list_all digit_seg ds'" "digit_seg x" using s by auto
    with s(3,4) have "into_word xs" unfolding into_word_def by blast
    with Cons s show ?thesis by auto
  qed (use s in auto)
next
  assume a: "if digit_seg x then into_word xs else word_rune (fst x)"
  show "into_word (x # xs)"
  proof (cases "digit_seg x")
    case True
    with a obtain ds y ys where "xs = ds @ y # ys" "list_all digit_seg ds" "\<not> digit_seg y" "word_rune (fst y)"
      by (auto simp: into_word_def)
    with True show ?thesis unfolding into_word_def by (intro exI [of _ "x # ds"]) auto
  next
    case False
    with a show ?thesis unfolding into_word_def by (intro exI [of _ "[]"]) auto
  qed
qed

lemma scan_break:
  "seg_ok x \<Longrightarrow> \<not> word_rune (fst x) \<Longrightarrow> scan_text s (snd x) = (if s = InNumber then None else Some Between)"
  using digit_word_rune [of "fst x"] by (auto simp: scan_seg)

text \<open>A word has ended: what follows is scanned as from the start.\<close>

lemma int_out_after_word:
  assumes "word_at prev" and "\<not> word_at (next_rune xs)" and "list_all seg_ok xs"
    and shorter: "\<And>p ys. length ys < length xs \<Longrightarrow> list_all seg_ok ys \<Longrightarrow> \<not> word_at p \<Longrightarrow> clean Between (int_out p ys)"
  shows "clean Between (int_out prev xs)"
proof (cases xs)
  case Nil
  then show ?thesis by (simp add: replace_from.simps)
next
  case (Cons y ys)
  have "runs re_int \<lparr>se_prev = prev, se_rest = y # ys, se_caps = []\<rparr> = []"
    using assms(1) by (intro int_runs_elsewhere) simp
  moreover have "\<not> word_rune (fst y)"
    using assms(2) by (simp only: Cons next_rune_def word_at_def list.case option.case simp_thms)
  ultimately show ?thesis
    using assms(3) shorter [of ys "Some (fst y)"] unfolding Cons
    by (simp add: replace_skip clean_append scan_break word_at_def)
qed

lemma int_out_number:
  assumes "\<not> word_at prev" and "digit_seg x" and "list_all seg_ok (x # xs)"
    and shorter: "\<And>p ys. length ys < length (x # xs) \<Longrightarrow> list_all seg_ok ys \<Longrightarrow>
      (\<not> word_at p \<longrightarrow> clean Between (int_out p ys)) \<and> (word_at p \<longrightarrow> clean InWord (int_out p ys))
      \<and> (word_at p \<and> into_word ys \<longrightarrow> clean InNumber (int_out p ys))"
  shows "clean Between (int_out prev (x # xs))"
proof -
  let ?ds = "takeWhile digit_seg (x # xs)" and ?rest = "dropWhile digit_seg (x # xs)"
  let ?st = "\<lparr>se_prev = prev, se_rest = x # xs, se_caps = []\<rparr>"
  have "\<not> digit_seg y" if "?rest = y # ys" for y ys
    using hd_dropWhile [of digit_seg "x # xs"] that by (metis list.distinct(1) list.sel(1))
  then have ds3: "\<forall>y ys. ?rest = y # ys \<longrightarrow> \<not> digit_seg y" by blast
  have ds1: "?ds \<noteq> []" and ds4: "se_rest ?st = ?ds @ ?rest" using assms(2) by simp_all
  have ds2: "list_all digit_seg ?ds" unfolding list_all_iff by (blast dest: set_takeWhileD)
  note ds = ds1 ds2 ds3 ds4
  note r = int_runs [OF ds] 
  have xd: "scan_text Between (snd x) = Some InNumber" "word_rune (fst x)"
    using assms(2,3) digit_word_rune by (simp_all add: scan_seg)
  show ?thesis
  proof (cases "word_at (next_rune ?rest)")
    case True
    then have "runs re_int ?st = []" using r assms(1) by simp
    moreover obtain y ys where y: "?rest = y # ys" "word_rune (fst y)"
      using True by (cases ?rest) (auto simp only: next_rune_def word_at_def list.case option.case)
    have "x # xs = ?ds @ y # ys" using takeWhile_dropWhile_id [of digit_seg "x # xs"] y(1) by metis
    with ds(2) ds(3) y have "into_word (x # xs)" unfolding into_word_def by blast
    ultimately show ?thesis
      using assms(2,3) xd shorter [of xs "Some (fst x)"]
      by (simp add: replace_skip clean_append into_word_Cons word_at_def)
  next
    case False
    obtain st' where st': "runs re_int ?st = [st']" "se_rest st' = ?rest" "word_at (se_prev st')"
      using r assms(1) False unfolding search.simps by metis
    have len: "length ?rest < length (x # xs)" using assms(2) by (simp add: le_imp_less_Suc length_dropWhile_le)
    have out: "int_out prev (x # xs) = ''?'' @ int_out (se_prev st') ?rest"
      using replace_match [OF st'(1)] st'(2) len by simp
    have "list_all seg_ok ?rest"
      using assms(3) unfolding list_all_iff by (blast dest: set_dropWhileD)
    then have "clean Between (int_out (se_prev st') ?rest)"
      using len shorter by (intro int_out_after_word [OF st'(3) False]) (blast dest: less_trans)+
    moreover have "scan_text Between ''?'' = Some Between" by code_simp
    ultimately show ?thesis unfolding out clean_append by blast
  qed
qed

lemma int_out_clean:
  "list_all seg_ok xs \<Longrightarrow>
     (\<not> word_at prev \<longrightarrow> clean Between (int_out prev xs)) \<and> (word_at prev \<longrightarrow> clean InWord (int_out prev xs))
     \<and> (word_at prev \<and> into_word xs \<longrightarrow> clean InNumber (int_out prev xs))"
proof (induction xs arbitrary: prev rule: length_induct)
  case (1 xs)
  show ?case
  proof (cases xs)
    case Nil
    then show ?thesis by (simp add: replace_from.simps into_word_def)
  next
    case (Cons x rest)
    note IH = 1(1) [rule_format, of rest "Some (fst x)"]
    have seg: "seg_ok x" "list_all seg_ok rest" using 1(2) Cons by simp_all
    have skip: "int_out prev xs = snd x @ int_out (Some (fst x)) rest" if "word_at prev \<or> \<not> digit_seg x"
      using that Cons by (simp add: replace_skip int_runs_elsewhere)
    show ?thesis
    proof (cases "word_at prev \<or> \<not> digit_seg x")
      case True
      then show ?thesis
        using skip IH seg Cons digit_word_rune [of "fst x"]
        by (auto simp: clean_append scan_seg word_at_def into_word_Cons)
    next
      case False
      then show ?thesis
        using int_out_number [of prev x rest] 1 Cons by auto
    qed
  qed
qed


section \<open>The later passes\<close>

lemma star_set:
  "st' \<in> set (star_iter f g st) \<longleftrightarrow>
     st' = st \<or> (\<exists>u \<in> set (f st). length (se_rest u) < length (se_rest st) \<and> st' \<in> set (star_iter f g u))"
  by (subst star_iter.simps) (auto simp: Let_def split: if_splits)

lemma star_runs: "st' \<in> set (star_iter f g st) \<Longrightarrow> (\<lambda>u v. v \<in> set (f u))\<^sup>*\<^sup>* st st'"
proof (induction "length (se_rest st)" arbitrary: st rule: less_induct)
  case less
  then show ?case
    using star_set [of st' f g st] by (metis (mono_tags, lifting) converse_rtranclp_into_rtranclp rtranclp.rtrancl_refl)
qed

lemma runs_suffix: "st' \<in> set (runs r st) \<Longrightarrow> \<exists>w. se_rest st = w @ se_rest st'"
proof (induction r arbitrary: st st')
  case (Chr p)
  then show ?case
    by (cases "se_rest st") (auto simp: step_over_def split: if_splits intro: exI [of _ "[x]" for x])
next
  case (Seq a b)
  then obtain u where "u \<in> set (runs a st)" "st' \<in> set (runs b u)" by auto
  with Seq.IH(1) [of u st] Seq.IH(2) [of st' u] obtain w v where "se_rest st = w @ se_rest u" "se_rest u = v @ se_rest st'" by blast
  then have "se_rest st = (w @ v) @ se_rest st'" by simp
  then show ?case by blast
next
  case (Star g a)
  then have "(\<lambda>u v. v \<in> set (runs a u))\<^sup>*\<^sup>* st st'" by (auto dest: star_runs)
  then show ?case
  proof (induction rule: rtranclp_induct)
    case (step u v)
    then show ?case using Star.IH [of v u] by (metis append.assoc)
  qed simp
next
  case (Group n a)
  then show ?case by fastforce
qed (auto split: if_splits)

text \<open>A match that ends with a break, and one that begins with one too.\<close>

definition ends_broken :: "search \<Rightarrow> search \<Rightarrow> bool" where
  "ends_broken st st' \<longleftrightarrow> (\<exists>w x. se_rest st = w @ x # se_rest st' \<and> \<not> word_rune (fst x))"

definition broken :: "search \<Rightarrow> search \<Rightarrow> bool" where
  "broken st st' \<longleftrightarrow> ends_broken st st' \<and> (\<exists>x xs. se_rest st = x # xs \<and> \<not> word_rune (fst x))"

lemma ends_after:
  assumes "u \<in> set (runs r st)" and "ends_broken u st'"
  shows "ends_broken st st'"
proof -
  obtain w where w: "se_rest st = w @ se_rest u" using runs_suffix [OF assms(1)] by blast
  obtain v x where v: "se_rest u = v @ x # se_rest st'" "\<not> word_rune (fst x)"
    using assms(2) by (auto simp: ends_broken_def)
  from w v(1) have "se_rest st = (w @ v) @ x # se_rest st'" by simp
  with v(2) show ?thesis unfolding ends_broken_def by blast
qed

lemma ends_trans: "ends_broken st u \<Longrightarrow> ends_broken u st' \<Longrightarrow> ends_broken st st'"
  unfolding ends_broken_def by (metis append.assoc append_Cons)

lemma star_ends:
  assumes "\<And>u v. v \<in> set (f u) \<Longrightarrow> ends_broken u v" and "st' \<in> set (star_iter f g st)"
  shows "st' = st \<or> ends_broken st st'"
  using star_runs [OF assms(2)]
proof (induction rule: rtranclp_induct)
  case (step u v)
  then show ?case using assms(1) ends_trans by blast
qed simp

lemma runs_seqs: "runs (seqs []) st = [st]" "runs (seqs (a # as)) st = concat (map (runs (seqs as)) (runs a st))"
  by (simp_all add: seqs_def)

lemma lit_break:
  assumes "st' \<in> set (runs (lit [c]) st)" and "\<not> word_rune (ord c)"
  shows "broken st st'"
proof -
  obtain x where "se_rest st = x # se_rest st'" "\<not> word_rune (fst x)"
    using assms by (cases "se_rest st") (auto simp: lit_def step_over_def split: if_splits)
  then show ?thesis unfolding broken_def ends_broken_def by (metis append_Nil)
qed

lemma paren_breaks: "\<not> word_rune (ord (CHR ''(''))" "\<not> word_rune (ord (CHR '')''))"
  by (simp_all add: word_rune_def in_range_def)

lemma tuple_broken:
  assumes "st' \<in> set (runs (tuple items) st)"
  shows "broken st st'"
proof -
  obtain u1 u2 u3 u4 u5 where u: "u1 \<in> set (runs (lit ''('') st)" "u2 \<in> set (runs (many blank) u1)"
      "u3 \<in> set (runs (lit ''?'') u2)" "u4 \<in> set (runs items u3)" "u5 \<in> set (runs (many blank) u4)"
      "st' \<in> set (runs (lit '')'') u5)"
    using assms by (auto simp: tuple_def runs_seqs)
  have "ends_broken u5 st'" using lit_break [OF u(6)] paren_breaks by (simp add: broken_def)
  then have "ends_broken st st'" using u(1-5) by (blast intro: ends_after)
  moreover have "broken st u1" using lit_break [OF u(1)] paren_breaks by simp
  ultimately show ?thesis by (simp add: broken_def)
qed

lemma broken_then: "broken st u \<Longrightarrow> ends_broken u st' \<Longrightarrow> broken st st'"
  using ends_trans by (auto simp: broken_def)


text \<open>Replacing a match keeps a text clean.\<close>

definition swaps :: "string \<Rightarrow> string \<Rightarrow> bool" where
  "swaps m repl \<longleftrightarrow> (\<forall>s rest. clean s (m @ rest) \<longrightarrow> clean s (repl @ rest))"

definition safe_pass :: "re \<Rightarrow> string \<Rightarrow> bool" where
  "safe_pass r repl \<longleftrightarrow>
     (\<forall>st st' others w. runs r st = st' # others \<longrightarrow> list_all seg_ok (se_rest st) \<longrightarrow>
        se_rest st = w @ se_rest st' \<longrightarrow> swaps (bytes_of w) repl)"

lemma scan_ends:
  assumes "seg_ok x" and "\<not> word_rune (fst x)" and "scan_text s (bytes_of (w @ [x])) = Some s'"
  shows "s' = Between"
  using assms by (auto simp: scan_append bind_eq_Some_conv scan_break split: if_splits)

lemma scan_begins:
  assumes "seg_ok x" and "\<not> word_rune (fst x)" and "scan_text s (bytes_of (x # w)) = Some s'"
  shows "s \<noteq> InNumber"
  using assms by (auto simp: scan_append bind_eq_Some_conv scan_break split: if_splits)

lemma ends_cut:
  assumes "ends_broken st st'" and "se_rest st = w @ se_rest st'"
  shows "\<exists>v x. w = v @ [x] \<and> \<not> word_rune (fst x)"
proof -
  obtain v x where "se_rest st = v @ x # se_rest st'" "\<not> word_rune (fst x)"
    using assms(1) by (auto simp: ends_broken_def)
  with assms(2) have "w @ se_rest st' = (v @ [x]) @ se_rest st'" by simp
  then show ?thesis using \<open>\<not> word_rune (fst x)\<close> by blast
qed

lemma safe_ends:
  assumes "\<And>st st'. st' \<in> set (runs r st) \<Longrightarrow> ends_broken st st'" and "\<And>s. scan_text s repl = Some Between"
  shows "safe_pass r repl"
  unfolding safe_pass_def swaps_def
proof (intro allI impI)
  fix st st' others w s rest
  assume r: "runs r st = st' # others" "list_all seg_ok (se_rest st)" "se_rest st = w @ se_rest st'"
    and c: "clean s (bytes_of w @ rest)"
  obtain v x where w: "w = v @ [x]" "\<not> word_rune (fst x)"
    using ends_cut [OF assms(1) r(3)] r(1) by auto
  obtain s' where s': "scan_text s (bytes_of w) = Some s'" "clean s' rest" using c unfolding clean_append by blast
  have "seg_ok x" using r(2,3) w by simp
  with s' w have "clean Between rest" using scan_ends [of x s v s'] by metis
  then show "clean s (repl @ rest)" by (simp add: clean_append assms(2))
qed

lemma safe_broken:
  assumes "\<And>st st'. st' \<in> set (runs r st) \<Longrightarrow> broken st st'"
    and "\<And>s. s \<noteq> InNumber \<Longrightarrow> scan_text s repl = Some Between"
  shows "safe_pass r repl"
  unfolding safe_pass_def swaps_def
proof (intro allI impI)
  fix st st' others w s rest
  assume r: "runs r st = st' # others" "list_all seg_ok (se_rest st)" "se_rest st = w @ se_rest st'"
    and c: "clean s (bytes_of w @ rest)"
  have br: "broken st st'" using assms(1) r(1) by simp
  then obtain v x where w: "w = v @ [x]" "\<not> word_rune (fst x)"
    using ends_cut [of st st' w] r(3) by (auto simp: broken_def)
  obtain y u where y: "w = y # u" using w(1) by (metis append_is_Nil_conv list.exhaust not_Cons_self2)
  then have ny: "\<not> word_rune (fst y)" using br r(3) by (auto simp: broken_def)
  obtain s' where s': "scan_text s (bytes_of w) = Some s'" "clean s' rest" using c unfolding clean_append by blast
  have ok: "list_all seg_ok w" using r(2,3) by simp
  have "seg_ok x" "seg_ok y" using ok w(1) y unfolding list_all_iff by (metis in_set_conv_decomp list.set_intros(1))+
  then have "s \<noteq> InNumber" and "clean Between rest"
    using s' scan_ends [of x s v s'] scan_begins [of y s u s'] w y ny by metis+
  then show "clean s (repl @ rest)" by (simp add: clean_append assms(2))
qed

lemma pass_from:
  assumes "safe_pass r repl"
  shows "list_all seg_ok xs \<Longrightarrow> clean s (bytes_of xs) \<Longrightarrow> clean s (replace_from r (\<lambda>_ _. repl) prev xs)"
proof (induction xs arbitrary: s prev rule: length_induct)
  case (1 xs)
  show ?case
  proof (cases xs)
    case Nil
    then show ?thesis using 1(3) by (simp add: replace_from.simps)
  next
    case (Cons x rest)
    let ?st = "\<lparr>se_prev = prev, se_rest = xs, se_caps = []\<rparr>"
    show ?thesis
    proof (cases "\<exists>st' others. runs r ?st = st' # others \<and> length (se_rest st') < length xs")
      case True
      then obtain st' others where m: "runs r ?st = st' # others" "length (se_rest st') < length xs" by blast
      obtain w where w: "xs = w @ se_rest st'" using runs_suffix [of st' r ?st] m(1) by auto
      have "swaps (bytes_of w) repl"
        using assms m(1) w 1(2) unfolding safe_pass_def by (metis select_convs(2))
      then have "clean s (repl @ bytes_of (se_rest st'))"
        using 1(3) w unfolding swaps_def by (metis bytes_of_simps(3))
      moreover have "list_all seg_ok (se_rest st')" using 1(2) w by (metis list_all_append)
      ultimately show ?thesis
        using 1(1) m(2) by (auto simp: replace_match [OF m] clean_append)
    next
      case False
      then have "replace_from r (\<lambda>_ _. repl) prev xs = snd x @ replace_from r (\<lambda>_ _. repl) (Some (fst x)) rest"
        by (subst replace_from.simps) (auto simp: Cons Let_def split: list.splits)
      then show ?thesis
        using 1 Cons by (auto simp: clean_append)
    qed
  qed
qed

lemma pass_keeps: "safe_pass r repl \<Longrightarrow> clean Between s \<Longrightarrow> clean Between (replace_all r repl s)"
  by (simp add: replace_all_def pass_from segments_ok)


lemma scan_repls:
  "scan_text s ''IN (?)'' = Some Between"
  "s \<noteq> InNumber \<Longrightarrow> scan_text s ''(?)'' = Some Between"
  "s \<noteq> InNumber \<Longrightarrow> scan_text s '' '' = Some Between"
  by (cases s; simp add: scan_char_def digit_byte_def word_byte_def word_rune_def in_range_def)+

lemma blank_broken: "st' \<in> set (runs blank st) \<Longrightarrow> broken st st'"
proof -
  assume "st' \<in> set (runs blank st)"
  then obtain x where "se_rest st = x # se_rest st'" "space_rune (fst x)"
    by (cases "se_rest st") (auto simp: blank_def step_over_def split: if_splits)
  moreover have "\<not> word_rune (fst x)" if "space_rune (fst x)" for x :: "nat \<times> string"
    using that by (auto simp: space_rune_def word_rune_def in_range_def)
  ultimately show ?thesis unfolding broken_def ends_broken_def by (metis append_Nil)
qed

lemma safe_whitespace: "safe_pass re_whitespace '' ''"
proof (rule safe_broken)
  fix st st' assume "st' \<in> set (runs re_whitespace st)"
  then obtain u where u: "u \<in> set (runs blank st)" "st' \<in> set (star_iter (runs blank) True u)"
    by (auto simp: re_whitespace_def some_def)
  then have "st' = u \<or> ends_broken u st'"
    by (intro star_ends [of "runs blank"]) (auto dest: blank_broken simp: broken_def)
  then show "broken st st'" using blank_broken [OF u(1)] broken_then by blast
qed (rule scan_repls)

lemma safe_tuple_multi: "safe_pass re_tuple_multi ''(?)''"
  unfolding re_tuple_multi_def by (rule safe_broken) (erule tuple_broken, erule scan_repls)

lemma safe_tuples_many: "safe_pass re_tuples_many ''(?)''"
proof (rule safe_broken)
  fix st st' assume "st' \<in> set (runs re_tuples_many st)"
  let ?next = "seqs [many blank, lit '','', many blank, tuple (many comma_item)]"
  obtain u where u: "u \<in> set (runs (tuple (many comma_item)) st)" "st' \<in> set (runs (some ?next) u)"
    using \<open>st' \<in> set (runs re_tuples_many st)\<close> by (auto simp: re_tuples_many_def runs_seqs)
  have nxt: "ends_broken a b" if b: "b \<in> set (runs ?next a)" for a b
  proof -
    obtain a1 a2 a3 where "a1 \<in> set (runs (many blank) a)" "a2 \<in> set (runs (lit '','') a1)"
        "a3 \<in> set (runs (many blank) a2)" "b \<in> set (runs (tuple (many comma_item)) a3)"
      using b by (auto simp: runs_seqs)
    then show ?thesis using tuple_broken [of b] by (blast intro: ends_after dest: broken_def [THEN iffD1])
  qed
  obtain v where v: "v \<in> set (runs ?next u)" "st' \<in> set (star_iter (runs ?next) True v)"
    using u(2) by (auto simp: some_def simp del: runs.simps) (auto simp: some_def)
  have "st' = v \<or> ends_broken v st'" using star_ends [of "runs ?next", OF nxt v(2)] .
  then have "ends_broken u st'" using nxt [OF v(1)] ends_trans by blast
  then show "broken st st'" using tuple_broken [OF u(1)] broken_then by blast
qed (rule scan_repls)

lemma safe_in_list: "safe_pass re_in_list ''IN (?)''"
proof (rule safe_ends)
  fix st st' assume "st' \<in> set (runs re_in_list st)"
  then obtain u1 u2 u3 where "u1 \<in> set (runs WordB st)" "u2 \<in> set (runs (lit_fold ''in'') u1)"
      "u3 \<in> set (runs (many blank) u2)" "st' \<in> set (runs (tuple (many comma_item)) u3)"
    by (auto simp: re_in_list_def runs_seqs simp del: runs.simps)
  then show "ends_broken st st'"
    using tuple_broken [of st'] by (blast intro: ends_after dest: broken_def [THEN iffD1])
qed (rule scan_repls)

lemma int_pass_clean: "clean Between (replace_all re_int ''?'' s)"
  using int_out_clean [OF segments_ok, of None s] by (simp add: replace_all_def word_at_def)

section \<open>Trimming and lower-casing\<close>

lemma clean_trim_front:
  "list_all seg_ok xs \<Longrightarrow> list_all (\<lambda>x. \<not> word_rune (fst x)) ys \<Longrightarrow> list_all seg_ok ys \<Longrightarrow>
     clean Between (bytes_of (ys @ xs)) \<Longrightarrow> clean Between (bytes_of xs)"
proof (induction ys)
  case (Cons y ys)
  then show ?case by (auto simp: clean_append scan_break)
qed simp

lemma clean_trim_back:
  assumes "list_all seg_ok ys" and "list_all (\<lambda>x. \<not> word_rune (fst x)) ys" and "clean s (bytes_of (xs @ ys))"
  shows "clean s (bytes_of xs)"
proof (cases ys)
  case (Cons y ys')
  obtain s' where s': "scan_text s (bytes_of xs) = Some s'" "clean s' (snd y @ bytes_of ys')"
    using assms(3) Cons by (auto simp: clean_append)
  then have "s' \<noteq> InNumber"
    using assms(1,2) Cons by (auto simp: clean_append scan_break)
  with s' show ?thesis by (simp add: clean_def)
qed (use assms in simp)

lemma space_no_word: "is_space r \<Longrightarrow> \<not> word_rune r"
  by (auto simp: is_space_def word_rune_def in_range_def)

lemma trim_keeps: "clean Between s \<Longrightarrow> clean Between (trim_space s)"
proof -
  assume c: "clean Between s"
  let ?f = "\<lambda>x :: nat \<times> string. is_space (fst x)"
  let ?xs = "dropWhile ?f (segments s)"
  let ?ys = "rev (dropWhile ?f (rev ?xs))" and ?zs = "rev (takeWhile ?f (rev ?xs))"
  have front: "takeWhile ?f (segments s) @ ?xs = segments s" by simp
  have rear: "?ys @ ?zs = ?xs"
    by (metis rev_append rev_rev_ident takeWhile_dropWhile_id)
  have ok: "list_all seg_ok (takeWhile ?f (segments s))" "list_all seg_ok ?xs"
    using segments_ok [of s] by (auto simp: list_all_iff dest: set_takeWhileD set_dropWhileD)
  have sp: "list_all (\<lambda>x. \<not> word_rune (fst x)) (takeWhile ?f xs)" for xs
    using space_no_word by (auto simp: list_all_iff dest!: set_takeWhileD)
  have "clean Between (bytes_of ?xs)"
    using clean_trim_front [OF ok(2) sp ok(1)] c front by simp
  moreover have "list_all seg_ok ?zs" "list_all (\<lambda>x. \<not> word_rune (fst x)) ?zs"
    using ok(2) sp [of "rev ?xs"] by (auto simp: list_all_iff dest: set_takeWhileD)
  ultimately have "clean Between (bytes_of ?ys)"
    using clean_trim_back [of ?zs Between ?ys] rear by simp
  then show ?thesis by (simp add: trim_space_def trim_func_def split_beta')
qed


text \<open>Lower-casing turns no rune into a digit, and only letters into letters or breaks.\<close>

lemma lower_lookup_ge:
  "list_all (\<lambda>(lo, hi, stride, delta). 97 \<le> int lo + delta) ts \<Longrightarrow> 97 \<le> r \<Longrightarrow> 97 \<le> lower_lookup ts r"
  by (induction ts r rule: lower_lookup.induct) auto

lemma lower_ranges_ge: "list_all (\<lambda>(lo, hi, stride, delta). 97 \<le> int lo + delta) lower_ranges"
  by code_simp

lemma lower_rune_high: "128 \<le> r \<Longrightarrow> 97 \<le> lower_rune r"
  using lower_lookup_ge [OF lower_ranges_ge, of r] by (simp add: lower_rune_def)

lemma lower_rune_low:
  assumes "r < 128"
  shows "in_range 48 57 (lower_rune r) = in_range 48 57 r" and "word_rune (lower_rune r) = word_rune r"
  using assms by (auto simp: lower_rune_def in_range_def word_rune_def)

lemma encode_rune_seg: "r < 128 \<Longrightarrow> encode_rune r = [char_of r]"
  by (simp add: encode_rune_def)

lemma encode_rune_high: "128 \<le> r \<Longrightarrow> encode_rune r \<noteq> [] \<and> list_all (\<lambda>c. \<not> word_byte c) (encode_rune r)"
proof -
  have w: "\<not> word_byte (char_of n)" if "128 \<le> n" "n < 256" for n :: nat
    using that by (simp add: word_byte_def word_rune_def in_range_def)
  have d: "r < 2048 \<Longrightarrow> r div 64 < 32" "r < 65536 \<Longrightarrow> r div 4096 < 16" "r \<le> 1114111 \<Longrightarrow> r div 262144 < 16"
    by (simp_all add: less_mult_imp_div_less)
  have m: "n mod 64 < 64" for n :: nat by simp
  assume "128 \<le> r"
  then show ?thesis
    using d m [of r] m [of "r div 64"] m [of "r div 4096"] by (auto simp: encode_rune_def w)
qed

lemma scan_lower:
  assumes "seg_ok x" and "clean s (snd x @ rest)" and "\<And>s'. clean s' rest \<Longrightarrow> clean s' rest'"
  shows "clean s (encode_rune (lower_rune (fst x)) @ rest')"
proof (cases "fst x < 128")
  case True
  then have "seg_ok (lower_rune (fst x), encode_rune (lower_rune (fst x)))"
    using lower_rune_ascii by (simp add: seg_ok_def encode_rune_seg)
  then have "scan_text s (encode_rune (lower_rune (fst x))) = scan_text s (snd x)"
    using assms(1) scan_seg [of "(lower_rune (fst x), encode_rune (lower_rune (fst x)))" s] lower_rune_low [OF True]
    by (simp add: scan_seg)
  then show ?thesis using assms(2,3) by (auto simp: clean_append)
next
  case False
  then have nw: "\<not> word_rune (fst x)" by (auto simp: word_rune_def in_range_def)
  then have s: "s \<noteq> InNumber" "clean Between rest'"
    using assms by (auto simp: clean_append scan_break split: if_splits)
  have hi: "97 \<le> lower_rune (fst x)" using lower_rune_high False by simp
  show ?thesis
  proof (cases "lower_rune (fst x) < 128")
    case True
    then have "scan_text s (encode_rune (lower_rune (fst x))) = Some InWord
        \<or> scan_text s (encode_rune (lower_rune (fst x))) = Some Between"
      using hi s(1) by (auto simp: encode_rune_seg scan_char_def digit_byte_def in_range_def)
    then show ?thesis using s(2) clean_word by (auto simp: clean_append)
  next
    case False
    then show ?thesis
      using s encode_rune_high [of "lower_rune (fst x)"] by (simp add: clean_append scan_breaks)
  qed
qed

lemma lower_keeps_from:
  "list_all seg_ok xs \<Longrightarrow> clean s (bytes_of xs) \<Longrightarrow> clean s (concat (map (\<lambda>x. encode_rune (lower_rune (fst x))) xs))"
proof (induction xs arbitrary: s)
  case (Cons x xs)
  then show ?case using scan_lower [of x s "bytes_of xs"] by simp
qed simp

lemma lower_keeps: "clean Between s \<Longrightarrow> clean Between (to_lower s)"
  using lower_keeps_from [OF segments_ok, of Between s] by (simp add: to_lower_def strings_map_def split_beta')

section \<open>The property\<close>

lemma normalize_clean: "clean Between (normalize sql)"
  unfolding normalize_def Let_def
  by (intro lower_keeps trim_keeps pass_keeps safe_whitespace safe_tuple_multi safe_tuples_many safe_in_list int_pass_clean)

text \<open>
  C15: no integer literal survives in a template: whatever the statement, a run of digits in its normal form is
  part of a word (an identifier such as \<open>column2\<close>), never a number of its own.
\<close>
theorem no_integer_survives:
  "\<not> (\<exists>pre ds post. normalize sql = pre @ ds @ post \<and> ds \<noteq> [] \<and> list_all digit_byte ds
        \<and> \<not> ends_in_word pre \<and> \<not> begins_with_word post)"
  using normalize_clean [of sql] clean_no_number by metis


lemma normalize_example:
  "normalize ''SELECT a2 FROM t WHERE id IN (1, 0x2F, 3.5)'' = ''select a2 from t where id in (?)''"
  by code_simp

end
