(* ===== verification/DbWrap.thy ===== *)
theory DbWrap
  imports Background Sql
begin

text \<open>
  \<open>dbwrap.go\<close>: the database/sql wrapper.  The wrapped driver is a parameter, as the optional
  interfaces it implements: an absent method is \<^const>\<open>None\<close>.  A driver call is the SDK calls made
  while it runs and its end: a handle and an error, or a panic.
\<close>

section \<open>Drivers\<close>

text \<open>\<open>driver.ErrSkip\<close>, or another error: whether \<open>errors.Is(err, io.EOF)\<close>, and its text.\<close>

datatype db_error = ErrSkip | DbError bool string

fun is_eof :: "db_error \<Rightarrow> bool" where
  "is_eof ErrSkip = False"
| "is_eof (DbError eof _) = eof"

fun error_text :: "db_error \<Rightarrow> string" where
  "error_text ErrSkip = ''driver: skip fast-path; continue as if unimplemented''"
| "error_text (DbError _ t) = t"

type_synonym db_answer = "nat option \<times> db_error option"

type_synonym db_run = "db_answer work_run"

type_synonym db_arg = string

record tx_options =
  tx_isolation :: int
  tx_read_only :: bool

record base_stmt =
  bs_exec :: "db_arg list \<Rightarrow> db_run"
  bs_query :: "db_arg list \<Rightarrow> db_run"
  bs_exec_context :: "(db_arg list \<Rightarrow> db_run) option"
  bs_query_context :: "(db_arg list \<Rightarrow> db_run) option"
  bs_close :: db_run
  bs_num_input :: int

record base_conn =
  bc_prepare :: "string \<Rightarrow> base_stmt + db_error"
  bc_prepare_context :: "(string \<Rightarrow> base_stmt + db_error) option"
  bc_begin :: db_run
  bc_begin_tx :: "(tx_options \<Rightarrow> db_run) option"
  bc_query_context :: "(string \<Rightarrow> db_arg list \<Rightarrow> db_run) option"
  bc_exec_context :: "(string \<Rightarrow> db_arg list \<Rightarrow> db_run) option"
  bc_ping :: "db_run option"
  bc_close :: db_run

record traced_conn =
  tn_base :: base_conn
  tn_system :: string
  tn_rl :: "restlytics option"

record traced_stmt =
  ts_base :: base_stmt
  ts_conn :: traced_conn
  ts_query :: string

section \<open>Recording a query\<close>

definition cap_string :: "string \<Rightarrow> nat \<Rightarrow> string" where
  "cap_string s n = (if length s \<le> n then s else take n s)"

definition op_name :: "string \<Rightarrow> string" where
  "op_name summary = takeWhile (\<lambda>c. c \<noteq> CHR '' '') (dropWhile (\<lambda>c. c = CHR '' '') summary)"

definition db_enabled :: "traced_conn \<Rightarrow> bool" where
  "db_enabled c =
     (case tn_rl c of
        None \<Rightarrow> False
      | Some rl \<Rightarrow> config_enabled (rl_cfg rl)
                   \<and> (cf_instrument_db (rl_cfg rl) = None \<or> cf_instrument_db (rl_cfg rl) = Some True))"

definition capture_sql :: "traced_conn \<Rightarrow> bool" where
  "capture_sql c = (case tn_rl c of None \<Rightarrow> False | Some rl \<Rightarrow> cf_capture_sql (rl_cfg rl))"

definition decorate_ops :: "traced_conn \<Rightarrow> string \<Rightarrow> nat \<Rightarrow> db_error option \<Rightarrow> span_op list" where
  "decorate_ops c query nargs err =
     (let summary = normalize query in
      [SetString attr_category category_db,
       SetString attr_db_system (tn_system c),
       SetString attr_db_query_summary summary,
       SetName (op_name summary)]
      @ (if op_name summary \<noteq> [] then [SetString attr_db_operation_name (op_name summary)] else [])
      @ [SetInt attr_bindings_count (int nargs)]
      @ (if capture_sql c then [SetString attr_db_query_text (cap_string query 2048)] else [])
      @ (case err of
           Some e \<Rightarrow> if \<not> is_eof e then [SetStatus status_error (error_text e)] else []
         | None \<Rightarrow> []))"

definition record_query ::
  "traced_conn \<Rightarrow> ctx option \<Rightarrow> string \<Rightarrow> nat \<Rightarrow> db_run \<Rightarrow> sdk \<Rightarrow> (db_answer outcome \<times> sdk) option" where
  "record_query c ctx query nargs fn s =
     (if \<not> db_enabled c \<or> \<not> is_sampled ctx (sdk_world s)
      then map_option (\<lambda>s'. (wr_result fn, s')) (run (wr_acts fn) s)
      else
        let (start_ns, w1) = now_ns (sdk_world s) in
        do {
          s2 \<leftarrow> run (wr_acts fn) (s\<lparr>sdk_world := w1\<rparr>);
          case wr_result fn of
            Panicked p \<Rightarrow> Some (Panicked p, s2)
          | Return (handle, err) \<Rightarrow> do {
              let (end_ns, w3) = now_ns (sdk_world s2);
              let w4 = increment_db_query_count ctx w3;
              (child, w5) \<leftarrow> add_child_span ctx ''db.query'' start_ns end_ns w4;
              let w6 = update_root child (decorate_ops c query nargs err) w5;
              Some (Return (handle, err), s2\<lparr>sdk_world := w6\<rparr>)
            }
        })"

section \<open>The connection and its statements\<close>

definition skip_fast_path :: "sdk \<Rightarrow> (db_answer outcome \<times> sdk) option" where
  "skip_fast_path s = Some (Return (None, Some ErrSkip), s)"

definition pass_through :: "db_run \<Rightarrow> sdk \<Rightarrow> (db_answer outcome \<times> sdk) option" where
  "pass_through fn s = map_option (\<lambda>s'. (wr_result fn, s')) (run (wr_acts fn) s)"

definition conn_query_context ::
  "traced_conn \<Rightarrow> ctx option \<Rightarrow> string \<Rightarrow> db_arg list \<Rightarrow> sdk \<Rightarrow> (db_answer outcome \<times> sdk) option" where
  "conn_query_context c ctx query args s =
     (case bc_query_context (tn_base c) of
        None \<Rightarrow> skip_fast_path s
      | Some q \<Rightarrow> record_query c ctx query (length args) (q query args) s)"

definition conn_exec_context ::
  "traced_conn \<Rightarrow> ctx option \<Rightarrow> string \<Rightarrow> db_arg list \<Rightarrow> sdk \<Rightarrow> (db_answer outcome \<times> sdk) option" where
  "conn_exec_context c ctx query args s =
     (case bc_exec_context (tn_base c) of
        None \<Rightarrow> skip_fast_path s
      | Some e \<Rightarrow> record_query c ctx query (length args) (e query args) s)"

definition conn_prepare :: "traced_conn \<Rightarrow> string \<Rightarrow> traced_stmt + db_error" where
  "conn_prepare c query =
     (case bc_prepare (tn_base c) query of
        Inr e \<Rightarrow> Inr e
      | Inl st \<Rightarrow> Inl \<lparr>ts_base = st, ts_conn = c, ts_query = query\<rparr>)"

definition conn_prepare_context :: "traced_conn \<Rightarrow> string \<Rightarrow> traced_stmt + db_error" where
  "conn_prepare_context c query =
     (case bc_prepare_context (tn_base c) of
        None \<Rightarrow> conn_prepare c query
      | Some p \<Rightarrow>
          (case p query of
             Inr e \<Rightarrow> Inr e
           | Inl st \<Rightarrow> Inl \<lparr>ts_base = st, ts_conn = c, ts_query = query\<rparr>))"

definition conn_close :: "traced_conn \<Rightarrow> sdk \<Rightarrow> (db_answer outcome \<times> sdk) option" where
  "conn_close c s = pass_through (bc_close (tn_base c)) s"

definition conn_begin :: "traced_conn \<Rightarrow> sdk \<Rightarrow> (db_answer outcome \<times> sdk) option" where
  "conn_begin c s = pass_through (bc_begin (tn_base c)) s"

definition conn_begin_tx :: "traced_conn \<Rightarrow> tx_options \<Rightarrow> sdk \<Rightarrow> (db_answer outcome \<times> sdk) option" where
  "conn_begin_tx c opts s =
     (case bc_begin_tx (tn_base c) of
        Some b \<Rightarrow> pass_through (b opts) s
      | None \<Rightarrow> pass_through (bc_begin (tn_base c)) s)"

definition conn_ping :: "traced_conn \<Rightarrow> sdk \<Rightarrow> (db_answer outcome \<times> sdk) option" where
  "conn_ping c s =
     (case bc_ping (tn_base c) of
        Some p \<Rightarrow> pass_through p s
      | None \<Rightarrow> Some (Return (None, None), s))"

definition stmt_close :: "traced_stmt \<Rightarrow> sdk \<Rightarrow> (db_answer outcome \<times> sdk) option" where
  "stmt_close st s = pass_through (bs_close (ts_base st)) s"

definition stmt_num_input :: "traced_stmt \<Rightarrow> int" where
  "stmt_num_input st = bs_num_input (ts_base st)"

definition stmt_exec_context ::
  "traced_stmt \<Rightarrow> ctx option \<Rightarrow> db_arg list \<Rightarrow> sdk \<Rightarrow> (db_answer outcome \<times> sdk) option" where
  "stmt_exec_context st ctx args s =
     (case bs_exec_context (ts_base st) of
        None \<Rightarrow> skip_fast_path s
      | Some e \<Rightarrow> record_query (ts_conn st) ctx (ts_query st) (length args) (e args) s)"

definition stmt_query_context ::
  "traced_stmt \<Rightarrow> ctx option \<Rightarrow> db_arg list \<Rightarrow> sdk \<Rightarrow> (db_answer outcome \<times> sdk) option" where
  "stmt_query_context st ctx args s =
     (case bs_query_context (ts_base st) of
        None \<Rightarrow> skip_fast_path s
      | Some q \<Rightarrow> record_query (ts_conn st) ctx (ts_query st) (length args) (q args) s)"

definition stmt_exec :: "traced_stmt \<Rightarrow> db_arg list \<Rightarrow> sdk \<Rightarrow> (db_answer outcome \<times> sdk) option" where
  "stmt_exec st args s = pass_through (bs_exec (ts_base st) args) s"

definition stmt_query :: "traced_stmt \<Rightarrow> db_arg list \<Rightarrow> sdk \<Rightarrow> (db_answer outcome \<times> sdk) option" where
  "stmt_query st args s = pass_through (bs_query (ts_base st) args) s"

section \<open>Opening connections\<close>

text \<open>
  A driver opens connections by name, and may make connectors; a connector connects and knows its
  driver.  Wrapping keeps the system name and the SDK handle on every way to a connection.
\<close>

datatype db_driver =
  Driver "string \<Rightarrow> base_conn + db_error" "(string \<Rightarrow> db_connector + db_error) option"
and db_connector = Connector "base_conn + db_error" db_driver

datatype traced_driver = TracedDriver db_driver string "restlytics option"

datatype traced_connector =
  TracedConnector db_connector string "restlytics option"
| DsnConnector string traced_driver

definition wrap_connector :: "db_connector \<Rightarrow> string \<Rightarrow> restlytics option \<Rightarrow> traced_connector" where
  "wrap_connector c sys rl = TracedConnector c sys rl"

text \<open>\<open>sql_open\<close> is \<open>sql.OpenDB\<close>, which makes its pool of a connector.\<close>

definition open_db :: "(traced_connector \<Rightarrow> 'db) \<Rightarrow> db_connector \<Rightarrow> string \<Rightarrow> restlytics option \<Rightarrow> 'db" where
  "open_db sql_open c sys rl = sql_open (wrap_connector c sys rl)"

definition wrap_driver :: "db_driver \<Rightarrow> string \<Rightarrow> restlytics option \<Rightarrow> traced_driver" where
  "wrap_driver d sys rl = TracedDriver d sys rl"

definition wrap_conn ::
  "string \<Rightarrow> restlytics option \<Rightarrow> base_conn + db_error \<Rightarrow> traced_conn + db_error" where
  "wrap_conn sys rl r =
     (case r of Inr e \<Rightarrow> Inr e | Inl b \<Rightarrow> Inl \<lparr>tn_base = b, tn_system = sys, tn_rl = rl\<rparr>)"

fun driver_open :: "traced_driver \<Rightarrow> string \<Rightarrow> traced_conn + db_error" where
  "driver_open (TracedDriver (Driver open_fn _) sys rl) name = wrap_conn sys rl (open_fn name)"

fun driver_open_connector :: "traced_driver \<Rightarrow> string \<Rightarrow> traced_connector + db_error" where
  "driver_open_connector (TracedDriver (Driver open_fn (Some oc)) sys rl) name =
     (case oc name of Inr e \<Rightarrow> Inr e | Inl c \<Rightarrow> Inl (TracedConnector c sys rl))"
| "driver_open_connector (TracedDriver (Driver open_fn None) sys rl) name =
     Inl (DsnConnector name (TracedDriver (Driver open_fn None) sys rl))"

fun connect :: "traced_connector \<Rightarrow> traced_conn + db_error" where
  "connect (TracedConnector (Connector r _) sys rl) = wrap_conn sys rl r"
| "connect (DsnConnector dsn d) = driver_open d dsn"

fun connector_driver :: "traced_connector \<Rightarrow> traced_driver" where
  "connector_driver (TracedConnector (Connector _ d) sys rl) = TracedDriver d sys rl"
| "connector_driver (DsnConnector _ d) = d"

text \<open>Every way from a wrapped driver or connector to a connection keeps the system name and the handle.\<close>

fun driver_tags :: "traced_driver \<Rightarrow> string \<times> restlytics option" where
  "driver_tags (TracedDriver _ sys rl) = (sys, rl)"

lemma wrap_conn_tags: "wrap_conn sys rl r = Inl c \<Longrightarrow> tn_system c = sys \<and> tn_rl c = rl"
  by (auto simp: wrap_conn_def split: sum.splits)

lemma driver_open_tags: "driver_open d name = Inl c \<Longrightarrow> (tn_system c, tn_rl c) = driver_tags d"
  by (cases "(d, name)" rule: driver_open.cases) (auto dest: wrap_conn_tags)

lemma connect_tags: "connect k = Inl c \<Longrightarrow> (tn_system c, tn_rl c) = driver_tags (connector_driver k)"
  by (cases k rule: connect.cases) (auto dest: wrap_conn_tags driver_open_tags)

lemma connector_tags [simp]: "driver_tags (connector_driver (TracedConnector k sys rl)) = (sys, rl)"
  by (cases k) simp

lemma open_connector_tags: "driver_open_connector d name = Inl k \<Longrightarrow> driver_tags (connector_driver k) = driver_tags d"
  by (cases "(d, name)" rule: driver_open_connector.cases)
    (auto split: sum.splits)

lemma all_ways_traced:
  "driver_open (wrap_driver d sys rl) name = Inl c \<Longrightarrow> (tn_system c, tn_rl c) = (sys, rl)"
  "connect (wrap_connector k sys rl) = Inl c \<Longrightarrow> (tn_system c, tn_rl c) = (sys, rl)"
  "driver_open_connector (wrap_driver d sys rl) name = Inl k' \<Longrightarrow> connect k' = Inl c \<Longrightarrow> (tn_system c, tn_rl c) = (sys, rl)"
  "driver_open (connector_driver (wrap_connector k sys rl)) name = Inl c \<Longrightarrow> (tn_system c, tn_rl c) = (sys, rl)"
  using driver_open_tags [of "wrap_driver d sys rl" name c] connect_tags [of "wrap_connector k sys rl" c]
    open_connector_tags [of "wrap_driver d sys rl" name k'] connect_tags [of k' c]
    driver_open_tags [of "connector_driver (wrap_connector k sys rl)" name c]
  by (simp_all add: wrap_driver_def wrap_connector_def)

section \<open>What a query leaves behind\<close>

lemma db_keys_plain:
  "\<not> is_sensitive_attribute_key attr_category" "\<not> is_sensitive_attribute_key attr_db_system"
  "\<not> is_sensitive_attribute_key attr_db_query_summary" "\<not> is_sensitive_attribute_key attr_db_operation_name"
  "\<not> is_sensitive_attribute_key attr_bindings_count" "\<not> is_sensitive_attribute_key attr_db_query_text"
  "\<not> equal_fold attr_category attr_url_full" "\<not> equal_fold attr_db_system attr_url_full"
  "\<not> equal_fold attr_db_query_summary attr_url_full" "\<not> equal_fold attr_db_operation_name attr_url_full"
  "\<not> equal_fold attr_db_query_text attr_url_full"
  by code_simp+

lemma decorate_attrs:
  assumes "span_wf sp0" and "get_attr sp0 = Map.empty" and "sp = run_ops (decorate_ops c query nargs err) sp0"
  shows "get_attr sp attr_db_query_summary = Some (string_value (normalize query))"
    and "get_attr sp attr_bindings_count = Some (int_value (int nargs))"
    and "get_attr sp attr_db_query_text
           = (if capture_sql c then Some (string_value (cap_string query 2048)) else None)"
    and "(\<exists>e. err = Some e \<and> \<not> is_eof e) \<Longrightarrow> sp_status_code sp = status_error"
proof -
  have d: "attr_db_query_summary \<noteq> attr_db_operation_name" "attr_db_query_summary \<noteq> attr_bindings_count"
    "attr_db_query_summary \<noteq> attr_db_query_text" "attr_bindings_count \<noteq> attr_db_query_text"
    "attr_db_query_text \<noteq> attr_db_operation_name" "attr_db_query_text \<noteq> attr_bindings_count"
    "attr_db_query_text \<noteq> attr_category" "attr_db_query_text \<noteq> attr_db_system"
    "attr_db_query_text \<noteq> attr_db_query_summary"
    by (simp_all add: const_defs)
  note sets = set_string_def set_int_def Let_def get_attr_set_attr db_keys_plain d set_attr_wf span_ops_wf
  have ops: "sp = (case err of Some e \<Rightarrow> if \<not> is_eof e then set_status status_error (error_text e) else id | None \<Rightarrow> id)
     ((if capture_sql c then set_string attr_db_query_text (cap_string query 2048) else id)
       (set_int attr_bindings_count (int nargs)
         ((if op_name (normalize query) \<noteq> [] then set_string attr_db_operation_name (op_name (normalize query)) else id)
           (set_name (op_name (normalize query))
             (set_string attr_db_query_summary (normalize query)
               (set_string attr_db_system (tn_system c) (set_string attr_category category_db sp0)))))))"
    unfolding assms(3) by (simp add: decorate_ops_def run_ops_def Let_def split: option.splits)
  show "get_attr sp attr_db_query_summary = Some (string_value (normalize query))"
    and "get_attr sp attr_bindings_count = Some (int_value (int nargs))"
    and "get_attr sp attr_db_query_text
           = (if capture_sql c then Some (string_value (cap_string query 2048)) else None)"
    unfolding ops using assms(1,2) by (auto simp: sets split: option.splits)
  show "(\<exists>e. err = Some e \<and> \<not> is_eof e) \<Longrightarrow> sp_status_code sp = status_error"
    unfolding ops by (auto simp: set_status_def)
qed

lemma add_child_fresh:
  assumes "request_of c w = Some (a, st)" and "request_ok st" and "rs_sampled st"
    and "int (length (rs_raw_spans st)) < rs_max_spans st"
    and "add_child_span c name x y w = Some (r, w')"
  shows "\<exists>sid w1. same_record w w1 \<and> valid_id 16 sid \<and> r = Some (ChildRef a (length (rs_raw_spans st)))
    \<and> w' = put_request a (st\<lparr>rs_raw_spans := rs_raw_spans st
        @ [new_span (rs_trace_id st) sid (rs_root_span_id st) name kind_client x y]\<rparr>) w1"
proof -
  obtain rt where "rs_root_span st = Some rt" "sp_span_id rt = rs_root_span_id st"
    using assms(2,3) by (auto simp: request_ok_def root_ok_def)
  with assms(1,3-5) show ?thesis
    by (auto simp: add_child_span_def add_child_span_with_id_def append_child_def bind_eq_Some_conv
        dest!: span_id_or_fresh_keeps)
qed

lemma get_attr_new_span: "get_attr (new_span t i p n k x y) = Map.empty"
  by (simp add: get_attr_def new_span_def fun_eq_iff)

text \<open>One query more on the counter, one child span more, described by \<open>ops\<close>.\<close>

lemma db_child_recorded:
  assumes "request_of ctx w = Some (a, st)" and "request_ok st" and "rs_sampled st"
    and "int (length (rs_raw_spans st)) < rs_max_spans st"
    and "add_child_span ctx name x y (increment_db_query_count ctx w) = Some (child, w')"
  shows "\<exists>sid. w_requests (update_root child ops w') ! a
    = st\<lparr>rs_db_query_count := add64 (rs_db_query_count st) 1,
         rs_raw_spans := rs_raw_spans st
           @ [run_ops ops (new_span (rs_trace_id st) sid (rs_root_span_id st) name kind_client x y)]\<rparr>"
proof -
  let ?st1 = "st\<lparr>rs_db_query_count := add64 (rs_db_query_count st) 1\<rparr>"
  have w1: "increment_db_query_count ctx w = put_request a ?st1 w"
    using assms(1) by (simp add: increment_db_query_count_def)
  have q1: "request_of ctx (put_request a ?st1 w) = Some (a, ?st1)" by (rule request_of_put [OF assms(1)])
  have "request_ok ?st1" "rs_sampled ?st1" "int (length (rs_raw_spans ?st1)) < rs_max_spans ?st1"
    using assms(2-4) by (auto simp: request_ok_def)
  from add_child_fresh [OF q1 this assms(5) [unfolded w1]]
  obtain sid w2 where child: "child = Some (ChildRef a (length (rs_raw_spans st)))"
    and same: "same_record (put_request a ?st1 w) w2"
    and w': "w' = put_request a (?st1\<lparr>rs_raw_spans := rs_raw_spans st
        @ [new_span (rs_trace_id st) sid (rs_root_span_id st) name kind_client x y]\<rparr>) w2"
    by auto
  have "a < length (w_requests w2)"
    using request_of_SomeD [OF q1] same by (simp add: same_record_def)
  then show ?thesis
    by (intro exI [of _ sid])
      (simp add: child w' update_root_def update_span_def request_at_def put_request_nth)
qed

text \<open>
  C30: a query inside a recorded request leaves exactly one more child span and one more query on the
  counter: the span carries the normalised text and the number of bindings, the raw text only when
  capturing is on, and an error status for an error other than end-of-rows; the driver's own answer
  is returned.
\<close>
theorem query_recorded:
  assumes "run acts (fresh_sdk rng clock) = Some s" and "db_enabled c" and "is_sampled ctx (sdk_world s)"
    and "record_query c ctx query nargs fn s = Some (Return (h, err), s')"
    and "run (wr_acts fn) (s\<lparr>sdk_world := snd (now_ns (sdk_world s))\<rparr>) = Some s2"
    and "request_of ctx (sdk_world s2) = Some (a, st)" and "int (length (rs_raw_spans st)) < rs_max_spans st"
  shows "wr_result fn = Return (h, err)
    \<and> (\<exists>sp. w_requests (sdk_world s') ! a =
          st\<lparr>rs_db_query_count := add64 (rs_db_query_count st) 1, rs_raw_spans := rs_raw_spans st @ [sp]\<rparr>
        \<and> get_attr sp attr_db_query_summary = Some (string_value (normalize query))
        \<and> get_attr sp attr_bindings_count = Some (int_value (int nargs))
        \<and> get_attr sp attr_db_query_text
            = (if capture_sql c then Some (string_value (cap_string query 2048)) else None)
        \<and> ((\<exists>e. err = Some e \<and> \<not> is_eof e) \<longrightarrow> sp_status_code sp = status_error))"
proof -
  let ?w = "sdk_world s" and ?w2 = "sdk_world s2"
  have ok: "sdk_ok s" using run_ok [OF assms(1)] .
  have ok1: "sdk_ok (s\<lparr>sdk_world := snd (now_ns ?w)\<rparr>)"
    using ok same_record_ok [OF same_record_now [of ?w]] by (simp add: sdk_ok_def)
  obtain b st0 where q0: "request_of ctx ?w = Some (b, st0)" "rs_sampled st0"
    using assms(3) by (auto simp: is_sampled_def split: option.splits)
  have "request_of ctx (snd (now_ns ?w)) = Some (b, st0)"
    using same_record_request [OF same_record_now [of ?w]] q0(1) by simp
  then obtain st2 where st2: "request_of ctx ?w2 = Some (b, st2)" "request_ok st2" "rs_sampled st2"
    using state_after_handler [OF assms(5) ok1, of ctx b st0] q0(2) by auto
  have st: "b = a" "st2 = st" using st2(1) assms(6) by auto
  have q3: "request_of ctx (snd (now_ns ?w2)) = Some (a, st)"
    using same_record_request [OF same_record_now [of ?w2]] assms(6) by simp
  obtain child w5 where add: "add_child_span ctx ''db.query'' (fst (now_ns ?w)) (fst (now_ns ?w2))
        (increment_db_query_count ctx (snd (now_ns ?w2))) = Some (child, w5)"
    and res: "wr_result fn = Return (h, err)"
    and s': "s' = s2\<lparr>sdk_world := update_root child (decorate_ops c query nargs err) w5\<rparr>"
    using assms(2-5)
    by (auto simp: record_query_def Let_def split_beta bind_eq_Some_conv split: outcome.splits)
  obtain sid sp where sp: "sp = run_ops (decorate_ops c query nargs err) (new_span (rs_trace_id st) sid
        (rs_root_span_id st) ''db.query'' kind_client (fst (now_ns ?w)) (fst (now_ns ?w2)))"
    and r: "w_requests (sdk_world s') ! a
        = st\<lparr>rs_db_query_count := add64 (rs_db_query_count st) 1, rs_raw_spans := rs_raw_spans st @ [sp]\<rparr>"
    using db_child_recorded [OF q3 _ _ assms(7) add, of "decorate_ops c query nargs err"] st2 st by (auto simp: s')
  from decorate_attrs [OF new_span_wf get_attr_new_span sp] res r show ?thesis by blast
qed

definition demo_conn :: traced_conn where
  "demo_conn = \<lparr>tn_base = \<lparr>bc_prepare = (\<lambda>_. Inr ErrSkip), bc_prepare_context = None,
       bc_begin = \<lparr>wr_acts = [], wr_result = Return (None, None)\<rparr>, bc_begin_tx = None,
       bc_query_context = None, bc_exec_context = None, bc_ping = None,
       bc_close = \<lparr>wr_acts = [], wr_result = Return (None, None)\<rparr>\<rparr>,
     tn_system = ''postgresql'', tn_rl = Some \<lparr>rl_tracer = demo_tracer, rl_cfg = demo_cfg\<rparr>\<rparr>"

definition demo_query :: db_run where
  "demo_query = \<lparr>wr_acts = [CountQuery demo_ctx], wr_result = Return (None, Some (DbError False ''boom''))\<rparr>"

lemma query_recorded_witness:
  "\<exists>(s' :: sdk) sp. rs_raw_spans (w_requests (sdk_world s') ! 0) \<noteq> []
     \<and> last (rs_raw_spans (w_requests (sdk_world s') ! 0)) = sp \<and> sp_status_code sp = status_error
     \<and> get_attr sp attr_db_query_summary = Some (string_value (normalize ''select 1''))"
proof -
  let ?rec = "\<lambda>s. record_query demo_conn demo_ctx ''select 1'' 0 demo_query s"
  let ?work = "\<lambda>s. run (wr_acts demo_query) (s\<lparr>sdk_world := snd (now_ns (sdk_world s))\<rparr>)"
  have en: "db_enabled demo_conn"
    by (simp add: db_enabled_def demo_conn_def demo_cfg_def config_enabled_def)
  let ?add = "\<lambda>s s2. add_child_span demo_ctx ''db.query'' (fst (now_ns (sdk_world s))) (fst (now_ns (sdk_world s2)))
      (increment_db_query_count demo_ctx (snd (now_ns (sdk_world s2))))"
  have "map_option (\<lambda>s. (is_sampled demo_ctx (sdk_world s), map_option (\<lambda>s2. (?add s s2 = None,
          map_option (\<lambda>(a, st). (a, length (rs_raw_spans st), rs_max_spans st)) (request_of demo_ctx (sdk_world s2))))
        (?work s)))
      (run demo_acts (fresh_sdk demo_rng demo_clock)) = Some (True, Some (False, Some (0, 1, 2)))"
    by code_simp
  then obtain s s2 st child w5 where r: "run demo_acts (fresh_sdk demo_rng demo_clock) = Some s"
    and sam: "is_sampled demo_ctx (sdk_world s)" and w: "?work s = Some s2" and "?add s s2 = Some (child, w5)"
    and q: "request_of demo_ctx (sdk_world s2) = Some (0, st)" "int (length (rs_raw_spans st)) < rs_max_spans st"
    by (auto simp: map_option_eq_Some)
  moreover have "wr_result demo_query = Return (None, Some (DbError False ''boom''))"
    by (simp add: demo_query_def)
  ultimately obtain res s' where rec: "?rec s = Some (res, s')"
    using en sam w by (auto simp: record_query_def Let_def split_beta)
  moreover have "res = Return (None, Some (DbError False ''boom''))"
    using rec by (auto simp: record_query_def demo_query_def Let_def split_beta bind_eq_Some_conv split: if_splits)
  ultimately have rec: "?rec s = Some (Return (None, Some (DbError False ''boom'')), s')" by simp
  obtain sp where "w_requests (sdk_world s') ! 0 = st\<lparr>rs_db_query_count := add64 (rs_db_query_count st) 1,
        rs_raw_spans := rs_raw_spans st @ [sp]\<rparr>"
      "get_attr sp attr_db_query_summary = Some (string_value (normalize ''select 1''))"
      "sp_status_code sp = status_error"
    using query_recorded [OF r en sam rec w q] by auto
  then show ?thesis by (intro exI [of _ s'] exI [of _ sp]) simp
qed

text \<open>
  A prepared statement of a driver that lacks the context interfaces: the wrapper answers
  \<open>ErrSkip\<close> and the driver's own \<open>Exec\<close> and \<open>Query\<close> are never reached.
\<close>

lemma legacy_statement_unreachable:
  assumes "bs_exec_context (ts_base st) = None" and "bs_query_context (ts_base st) = None"
  shows "stmt_exec_context st ctx args s = Some (Return (None, Some ErrSkip), s)"
    and "stmt_query_context st ctx args s = Some (Return (None, Some ErrSkip), s)"
  using assms by (simp_all add: stmt_exec_context_def stmt_query_context_def skip_fast_path_def)

text \<open>A driver without \<open>BeginTx\<close>: the isolation level and the read-only flag are dropped silently.\<close>

lemma legacy_begin_ignores_options:
  assumes "bc_begin_tx (tn_base c) = None"
  shows "conn_begin_tx c opts s = conn_begin_tx c opts' s"
  using assms by (simp add: conn_begin_tx_def)

end
