(* ===== verification/Adapters.thy ===== *)
theory Adapters
  imports Middleware DbWrap
begin

text \<open>
  The framework adapters (\<open>adapters/gin\<close>, \<open>adapters/echo\<close>, \<open>adapters/fiber\<close>, \<open>adapters/gormr\<close>).  The
  frameworks are parameters: what the rest of a framework's chain does with the context it is given, and
  what the framework's own context answers when the chain has come back.
\<close>

section \<open>Web frameworks\<close>

text \<open>
  The rest of the chain: the SDK calls it makes, and the context and the method the framework's request
  has at the end (a handler may have replaced the request), with the status of the framework's response.
\<close>

record chain_run =
  cn_acts :: "action list"
  cn_ctx :: ctx
  cn_method :: string
  cn_status :: int

definition adapter_stamp :: "string \<Rightarrow> string \<Rightarrow> int \<Rightarrow> span \<Rightarrow> span" where
  "adapter_stamp meth route status s =
     set_int attr_http_response_status_code status
       (set_string attr_http_route route
         (set_string attr_http_request_method meth
           (set_name (meth @ '' '' @ route) s)))"

subsection \<open>Gin\<close>

text \<open>\<open>FullPath\<close>, the length and the text of \<open>c.Errors\<close>, and how \<open>Next\<close> ends.\<close>

record gin_run = chain_run +
  gn_full_path :: string
  gn_errors :: nat
  gn_errors_text :: string
  gn_result :: "unit outcome"

definition gin_outcome :: "nat \<Rightarrow> string \<Rightarrow> int \<Rightarrow> span \<Rightarrow> span" where
  "gin_outcome errors errors_text status s =
     (if status \<ge> 500 then
        (if sp_status_code s \<noteq> status_error then set_status status_error (''HTTP '' @ format_int status) s else s)
      else if 0 < errors then set_status status_error errors_text s
      else if sp_status_code s = status_unset then set_status status_ok [] s
      else s)"

definition gin_route :: "string \<Rightarrow> string" where
  "gin_route full_path = (if full_path = [] then ''/*'' else full_path)"

definition gin_finish :: "gin_run \<Rightarrow> world \<Rightarrow> world" where
  "gin_finish g w =
     (case root_span (Some (cn_ctx g)) w of
        None \<Rightarrow> w
      | Some root_ref \<Rightarrow>
          let route = gin_route (gn_full_path g); meth = cn_method g; status = cn_status g
          in finish (Some (cn_ctx g))
               (update_span root_ref
                 (\<lambda>sp. gin_outcome (gn_errors g) (gn_errors_text g) status (adapter_stamp meth route status sp)) w))"

definition gin_middleware ::
  "restlytics \<Rightarrow> http_in \<Rightarrow> (ctx \<Rightarrow> gin_run) \<Rightarrow> sdk \<Rightarrow> (unit outcome \<times> sdk) option" where
  "gin_middleware r req chain s =
     (if \<not> config_enabled (rl_cfg r) \<or> \<not> should_trace r (rq_path req) then
        (let g = chain (rq_ctx req) in map_option (\<lambda>s'. (gn_result g, s')) (run (cn_acts g) s))
      else do {
        (c, w1) \<leftarrow> start (rl_tracer r) (rq_ctx req) (rq_method req @ '' '' @ rq_path req)
                     (rq_traceparent req) (sdk_world s);
        let g = chain c;
        s2 \<leftarrow> run (cn_acts g) (s\<lparr>sdk_world := w1\<rparr>);
        Some (gn_result g, on_world (gin_finish g) s2)
      })"

subsection \<open>Echo\<close>

text \<open>
  An error is an \<open>*echo.HTTPError\<close> (a nil pointer of that type is \<^const>\<open>None\<close>) or another error.
\<close>

datatype echo_error = HttpError "int option" | OtherError

record echo_run = chain_run +
  en_path :: string
  en_result :: "echo_error option outcome"

fun echo_status :: "int \<Rightarrow> echo_error option \<Rightarrow> int option" where
  "echo_status status None = Some status"
| "echo_status status (Some (HttpError code)) = code"
| "echo_status status (Some OtherError) = Some (if status < 400 then status_internal_error else status)"

definition echo_route :: "string \<Rightarrow> string" where
  "echo_route path = (if path = [] then ''/*'' else path)"

definition plain_outcome :: "int \<Rightarrow> span \<Rightarrow> span" where
  "plain_outcome status s =
     (if status \<ge> 500 then set_status status_error (''HTTP '' @ format_int status) s
      else if sp_status_code s = status_unset then set_status status_ok [] s
      else s)"

definition nil_dereference :: string where
  "nil_dereference = ''runtime error: invalid memory address or nil pointer dereference''"

definition echo_finish :: "echo_run \<Rightarrow> echo_error option \<Rightarrow> world \<Rightarrow> unit outcome \<times> world" where
  "echo_finish e err w =
     (case root_span (Some (cn_ctx e)) w of
        None \<Rightarrow> (Return (), w)
      | Some root_ref \<Rightarrow>
          (case echo_status (cn_status e) err of
             None \<Rightarrow> (Panicked nil_dereference, w)
           | Some status \<Rightarrow>
               let route = echo_route (en_path e); meth = cn_method e
               in (Return (),
                   finish (Some (cn_ctx e))
                     (update_span root_ref (\<lambda>sp. plain_outcome status (adapter_stamp meth route status sp)) w))))"

definition echo_middleware ::
  "restlytics \<Rightarrow> http_in \<Rightarrow> (ctx \<Rightarrow> echo_run) \<Rightarrow> sdk \<Rightarrow> (echo_error option outcome \<times> sdk) option" where
  "echo_middleware r req chain s =
     (if \<not> config_enabled (rl_cfg r) \<or> \<not> should_trace r (rq_path req) then
        (let e = chain (rq_ctx req) in map_option (\<lambda>s'. (en_result e, s')) (run (cn_acts e) s))
      else do {
        (c, w1) \<leftarrow> start (rl_tracer r) (rq_ctx req) (rq_method req @ '' '' @ rq_path req)
                     (rq_traceparent req) (sdk_world s);
        let e = chain c;
        s2 \<leftarrow> run (cn_acts e) (s\<lparr>sdk_world := w1\<rparr>);
        case en_result e of
          Panicked p \<Rightarrow> Some (Panicked p, s2)
        | Return err \<Rightarrow>
            (let (ended, w3) = echo_finish e err (sdk_world s2)
             in Some (case ended of Panicked p \<Rightarrow> Panicked p | Return _ \<Rightarrow> Return err, s2\<lparr>sdk_world := w3\<rparr>))
      })"

subsection \<open>Fiber\<close>

text \<open>The matched route's path, if there is one; the handler's error as its text.\<close>

record fiber_run = chain_run +
  fb_route :: "string option"
  fb_result :: "string option outcome"

definition fiber_route :: "string option \<Rightarrow> string" where
  "fiber_route r = (case r of Some path \<Rightarrow> if path \<noteq> [] then path else ''/*'' | None \<Rightarrow> ''/*'')"

definition fiber_finish :: "fiber_run \<Rightarrow> world \<Rightarrow> world" where
  "fiber_finish f w =
     (case root_span (Some (cn_ctx f)) w of
        None \<Rightarrow> w
      | Some root_ref \<Rightarrow>
          let route = fiber_route (fb_route f); meth = cn_method f; status = cn_status f
          in finish (Some (cn_ctx f))
               (update_span root_ref (\<lambda>sp. plain_outcome status (adapter_stamp meth route status sp)) w))"

definition fiber_middleware ::
  "restlytics \<Rightarrow> http_in \<Rightarrow> (ctx \<Rightarrow> fiber_run) \<Rightarrow> sdk \<Rightarrow> (string option outcome \<times> sdk) option" where
  "fiber_middleware r req chain s =
     (if \<not> config_enabled (rl_cfg r) \<or> \<not> should_trace r (rq_path req) then
        (let f = chain (rq_ctx req) in map_option (\<lambda>s'. (fb_result f, s')) (run (cn_acts f) s))
      else do {
        (c, w1) \<leftarrow> start (rl_tracer r) (rq_ctx req) (rq_method req @ '' '' @ rq_path req)
                     (rq_traceparent req) (sdk_world s);
        let f = chain c;
        s2 \<leftarrow> run (cn_acts f) (s\<lparr>sdk_world := w1\<rparr>);
        case fb_result f of
          Panicked p \<Rightarrow> Some (Panicked p, s2)
        | Return err \<Rightarrow> Some (Return err, on_world (fiber_finish f) s2)
      })"

section \<open>What an adapter reports\<close>

text \<open>
  The report of one request: the root is named after the method and the route and carries both, the
  status, and a status code without a message.
\<close>

definition reports_request :: "trace_request \<Rightarrow> string \<Rightarrow> string \<Rightarrow> int \<Rightarrow> int \<Rightarrow> bool" where
  "reports_request p meth route status code \<longleftrightarrow>
     (\<exists>rt kids. request_spans p = rt # kids \<and> sd_name rt = meth @ '' '' @ route
        \<and> wire_attrs rt attr_http_request_method = Some (string_value meth)
        \<and> wire_attrs rt attr_http_route = Some (string_value route)
        \<and> wire_attrs rt attr_http_response_status_code = Some (int_value status)
        \<and> sd_status rt = Some \<lparr>st_code = code, st_message = []\<rparr>)"

text \<open>The status code of a root that had code \<open>old\<close> when its handlers were done.\<close>

definition final_code :: "bool \<Rightarrow> int \<Rightarrow> int" where
  "final_code failed old = (if failed then status_error else if old = status_unset then status_ok else old)"

lemma adapter_stamp_is: "plain_outcome status (adapter_stamp meth route status s)
    = (if status < 500 then http_stamp meth route status False s
       else set_status status_error (''HTTP '' @ format_int status) (adapter_stamp meth route status s))"
  by (simp add: plain_outcome_def adapter_stamp_def http_stamp_def http_outcome_def)

lemma adapter_stamp_fields:
  assumes "span_wf s"
  shows "span_wf (adapter_stamp meth route status s)"
    and "sp_name (adapter_stamp meth route status s) = meth @ '' '' @ route"
    and "sp_status_code (adapter_stamp meth route status s) = sp_status_code s"
    and "get_attr (adapter_stamp meth route status s) attr_http_request_method = Some (string_value meth)"
    and "get_attr (adapter_stamp meth route status s) attr_http_route = Some (string_value route)"
    and "get_attr (adapter_stamp meth route status s) attr_http_response_status_code = Some (int_value status)"
  using assms http_keys_distinct
  by (auto simp: adapter_stamp_def set_int_def set_string_def Let_def get_attr_set_attr http_keys_plain set_attr_wf
      span_ops_wf)

text \<open>An outcome on top of the stamp: nothing but the status changes.\<close>

definition outcome_of :: "bool \<Rightarrow> (span \<Rightarrow> span) \<Rightarrow> bool" where
  "outcome_of failed f \<longleftrightarrow>
     (\<forall>s. span_wf s \<longrightarrow> span_wf (f s) \<and> get_attr (f s) = get_attr s \<and> sp_name (f s) = sp_name s
        \<and> sp_status_code (f s) = final_code failed (sp_status_code s))"

lemma gin_outcome_of: "outcome_of (500 \<le> status \<or> 0 < n) (gin_outcome n t status)"
  by (auto simp: outcome_of_def gin_outcome_def final_code_def span_ops_wf)

lemma plain_outcome_of: "outcome_of (500 \<le> status) (plain_outcome status)"
  by (auto simp: outcome_of_def plain_outcome_def final_code_def span_ops_wf)

lemma final_code_set: "final_code b x \<noteq> status_unset"
  by (simp add: final_code_def const_defs)

lemma stamped_report:
  assumes "span_wf sp" and "outcome_of failed f"
  shows "reports_request (finish_payload st (finish_root st now (f (adapter_stamp meth route status sp))))
    meth route status (final_code failed (sp_status_code sp))"
proof -
  let ?sp = "f (adapter_stamp meth route status sp)"
  let ?rt = "finish_root st now ?sp"
  note stamp = adapter_stamp_fields [OF assms(1), of meth route status]
  have f: "span_wf ?sp" "get_attr ?sp = get_attr (adapter_stamp meth route status sp)" "sp_name ?sp = meth @ '' '' @ route"
    "sp_status_code ?sp = final_code failed (sp_status_code sp)"
    using assms(2) stamp by (auto simp: outcome_of_def)
  have wf: "span_wf ?rt"
    using finish_root_ops [of st now ?sp] run_ops_wf [OF f(1)] by auto
  have attrs: "wire_attrs (to_data ?rt) k = get_attr ?sp k" if "k \<notin> set finish_keys" for k
    using wire_attrs_to_data [OF wf] finish_root_attr [OF f(1) that] by simp
  have "sd_status (to_data ?rt) = Some \<lparr>st_code = final_code failed (sp_status_code sp), st_message = []\<rparr>"
    using wf f(4) final_code_set by (simp add: to_data_def finish_root_fields span_wf_def)
  then show ?thesis
    using attrs f stamp http_keys_distinct
    by (simp add: reports_request_def finish_payload_def to_data_def finish_root_fields)
qed

lemma stamped_sent:
  assumes "request_of (Some c) w = Some (a, st)" and "rs_sampled st" and "rs_root_span st = Some sp"
  shows "\<exists>now. w_sent (finish (Some c) (update_span (RootRef a) f w)) =
     w_sent w @ [(rs_transport st, finish_payload st (finish_root st now (f sp)))]"
proof -
  let ?st = "st\<lparr>rs_root_span := Some (f sp)\<rparr>"
  have u: "update_span (RootRef a) f w = put_request a ?st w"
    using assms by (simp add: update_span_def request_of_at)
  have "request_of (Some c) (put_request a ?st w) = Some (a, ?st)"
    by (rule request_of_put [OF assms(1)])
  moreover have "finish_payload ?st r = finish_payload st r" "finish_root ?st n r = finish_root st n r" for n r
    by (simp_all add: finish_payload_def finish_root_def)
  ultimately show ?thesis
    using finish_sent [of "Some c" "put_request a ?st w" a ?st "f sp"] assms(2) by (simp add: u) blast
qed

text \<open>
  A sampled request whose chain is done: the adapter finds the request it started in the context the
  chain left behind, and what it sends is the report.
\<close>

lemma chain_state:
  assumes "run acts (fresh_sdk rng clock) = Some s" and "start t c0 name h (sdk_world s) = Some (c, w1)"
    and "is_sampled (Some c) w1" and "run chain_acts (s\<lparr>sdk_world := w1\<rparr>) = Some s2"
    and "from_context (Some c') = from_context (Some c)"
  shows "\<exists>st sp. request_of (Some c') (sdk_world s2) = Some (length (w_requests (sdk_world s)), st) \<and> rs_sampled st
    \<and> rs_root_span st = Some sp \<and> span_wf sp \<and> rs_transport st = tc_transport t"
proof -
  have ok1: "sdk_ok (s\<lparr>sdk_world := w1\<rparr>)"
    using start_root_keeps [OF assms(2) [unfolded start_def]] run_ok [OF assms(1)] by (simp add: sdk_ok_def)
  obtain st where st: "request_of (Some c) w1 = Some (length (w_requests (sdk_world s)), st)" "rs_sampled st"
      "rs_transport st = tc_transport t"
    using start_sampled_state [OF assms(2,3)] by auto
  obtain st2 sp2 where st2: "request_of (Some c) (sdk_world s2) = Some (length (w_requests (sdk_world s)), st2)"
      "same_fixed st st2" "rs_sampled st2" "rs_root_span st2 = Some sp2" "span_wf sp2"
    using state_after_handler [OF assms(4) ok1, of "Some c"] st by auto
  moreover have "request_of (Some c') (sdk_world s2) = request_of (Some c) (sdk_world s2)"
    using assms(5) by (simp add: request_of_def)
  ultimately show ?thesis using st(3) by (auto simp: same_fixed_def)
qed

lemma root_span_at:
  "request_of c w = Some (a, st) \<Longrightarrow> rs_root_span st = Some sp \<Longrightarrow> root_span c w = Some (RootRef a)"
  by (simp add: root_span_def)

lemma adapter_report:
  assumes "request_of (Some c') w = Some (a, st)" and "rs_sampled st"
    and "rs_root_span st = Some sp" and "span_wf sp" and "rs_transport st = t" and "outcome_of failed f"
  shows "\<exists>p. w_sent (finish (Some c') (update_span (RootRef a) (\<lambda>s. f (adapter_stamp meth route status s)) w))
      = w_sent w @ [(t, p)] \<and> reports_request p meth route status (final_code failed (sp_status_code sp))"
  using stamped_sent [OF assms(1-3), of "\<lambda>s. f (adapter_stamp meth route status s)"]
    stamped_report [OF assms(4,6), of st _ meth route status] assms(5) by fastforce


lemma gin_report:
  assumes "run acts (fresh_sdk rng clock) = Some s" and "gin_middleware r req chain s = Some (res, s')"
    and "config_enabled (rl_cfg r)" and "should_trace r (rq_path req)"
    and "start (rl_tracer r) (rq_ctx req) (rq_method req @ '' '' @ rq_path req) (rq_traceparent req) (sdk_world s)
           = Some (c, w1)"
    and "is_sampled (Some c) w1" and g: "g = chain c" and ctx: "from_context (Some (cn_ctx g)) = from_context (Some c)"
  shows "\<exists>s2 st sp p. run (cn_acts g) (s\<lparr>sdk_world := w1\<rparr>) = Some s2 \<and> res = gn_result g
    \<and> request_of (Some c) (sdk_world s2) = Some (length (w_requests (sdk_world s)), st) \<and> rs_root_span st = Some sp
    \<and> w_sent (sdk_world s') = w_sent (sdk_world s2) @ [(tc_transport (rl_tracer r), p)]
    \<and> reports_request p (cn_method g) (gin_route (gn_full_path g)) (cn_status g)
        (final_code (500 \<le> cn_status g \<or> 0 < gn_errors g) (sp_status_code sp))"
proof -
  obtain s2 where s2: "run (cn_acts g) (s\<lparr>sdk_world := w1\<rparr>) = Some s2" "res = gn_result g"
    and s': "s' = on_world (gin_finish g) s2"
    using assms(2-5) g by (auto simp: gin_middleware_def Let_def bind_eq_Some_conv)
  obtain st sp where st: "request_of (Some (cn_ctx g)) (sdk_world s2) = Some (length (w_requests (sdk_world s)), st)"
      "rs_sampled st" "rs_root_span st = Some sp" "span_wf sp" "rs_transport st = tc_transport (rl_tracer r)"
    using chain_state [OF assms(1,5,6) s2(1) ctx] by blast
  have "request_of (Some c) (sdk_world s2) = Some (length (w_requests (sdk_world s)), st)"
    using st(1) ctx by (simp add: request_of_def)
  then show ?thesis
    using adapter_report [OF st gin_outcome_of] root_span_at [OF st(1,3)] s2 s' st(3)
    by (simp add: on_world_def gin_finish_def Let_def)
qed

lemma echo_report:
  assumes "run acts (fresh_sdk rng clock) = Some s" and "echo_middleware r req chain s = Some (res, s')"
    and "config_enabled (rl_cfg r)" and "should_trace r (rq_path req)"
    and "start (rl_tracer r) (rq_ctx req) (rq_method req @ '' '' @ rq_path req) (rq_traceparent req) (sdk_world s)
           = Some (c, w1)"
    and "is_sampled (Some c) w1" and g: "g = chain c" and ctx: "from_context (Some (cn_ctx g)) = from_context (Some c)"
    and res: "en_result g = Return err" and status: "echo_status (cn_status g) err = Some status"
  shows "\<exists>s2 st sp p. run (cn_acts g) (s\<lparr>sdk_world := w1\<rparr>) = Some s2 \<and> res = Return err
    \<and> request_of (Some c) (sdk_world s2) = Some (length (w_requests (sdk_world s)), st) \<and> rs_root_span st = Some sp
    \<and> w_sent (sdk_world s') = w_sent (sdk_world s2) @ [(tc_transport (rl_tracer r), p)]
    \<and> reports_request p (cn_method g) (echo_route (en_path g)) status (final_code (500 \<le> status) (sp_status_code sp))"
proof -
  obtain s2 where s2: "run (cn_acts g) (s\<lparr>sdk_world := w1\<rparr>) = Some s2"
    and r: "Some (res, s') = (let (ended, w3) = echo_finish g err (sdk_world s2)
             in Some (case ended of Panicked p \<Rightarrow> Panicked p | Return _ \<Rightarrow> Return err, s2\<lparr>sdk_world := w3\<rparr>))"
    using assms(2-5) g res by (auto simp: echo_middleware_def Let_def bind_eq_Some_conv)
  obtain st sp where st: "request_of (Some (cn_ctx g)) (sdk_world s2) = Some (length (w_requests (sdk_world s)), st)"
      "rs_sampled st" "rs_root_span st = Some sp" "span_wf sp" "rs_transport st = tc_transport (rl_tracer r)"
    using chain_state [OF assms(1,5,6) s2(1) ctx] by blast
  have "request_of (Some c) (sdk_world s2) = Some (length (w_requests (sdk_world s)), st)"
    using st(1) ctx by (simp add: request_of_def)
  then show ?thesis
    using adapter_report [OF st plain_outcome_of] root_span_at [OF st(1,3)] s2 r st(3) status
    by (simp add: echo_finish_def Let_def)
qed

lemma fiber_report:
  assumes "run acts (fresh_sdk rng clock) = Some s" and "fiber_middleware r req chain s = Some (res, s')"
    and "config_enabled (rl_cfg r)" and "should_trace r (rq_path req)"
    and "start (rl_tracer r) (rq_ctx req) (rq_method req @ '' '' @ rq_path req) (rq_traceparent req) (sdk_world s)
           = Some (c, w1)"
    and "is_sampled (Some c) w1" and g: "g = chain c" and ctx: "from_context (Some (cn_ctx g)) = from_context (Some c)"
    and res: "fb_result g = Return err"
  shows "\<exists>s2 st sp p. run (cn_acts g) (s\<lparr>sdk_world := w1\<rparr>) = Some s2 \<and> res = Return err
    \<and> request_of (Some c) (sdk_world s2) = Some (length (w_requests (sdk_world s)), st) \<and> rs_root_span st = Some sp
    \<and> w_sent (sdk_world s') = w_sent (sdk_world s2) @ [(tc_transport (rl_tracer r), p)]
    \<and> reports_request p (cn_method g) (fiber_route (fb_route g)) (cn_status g)
        (final_code (500 \<le> cn_status g) (sp_status_code sp))"
proof -
  obtain s2 where s2: "run (cn_acts g) (s\<lparr>sdk_world := w1\<rparr>) = Some s2" "res = Return err"
    and s': "s' = on_world (fiber_finish g) s2"
    using assms(2-5) g res by (auto simp: fiber_middleware_def Let_def bind_eq_Some_conv)
  obtain st sp where st: "request_of (Some (cn_ctx g)) (sdk_world s2) = Some (length (w_requests (sdk_world s)), st)"
      "rs_sampled st" "rs_root_span st = Some sp" "span_wf sp" "rs_transport st = tc_transport (rl_tracer r)"
    using chain_state [OF assms(1,5,6) s2(1) ctx] by blast
  have "request_of (Some c) (sdk_world s2) = Some (length (w_requests (sdk_world s)), st)"
    using st(1) ctx by (simp add: request_of_def)
  then show ?thesis
    using adapter_report [OF st plain_outcome_of] root_span_at [OF st(1,3)] s2 s' st(3)
    by (simp add: on_world_def fiber_finish_def Let_def)
qed


section \<open>GORM\<close>

text \<open>
  GORM's own objects are a parameter: a statement of type \<open>'db\<close> with its settings (\<open>Set\<close> and
  \<open>Get\<close>), context, SQL text, number of bound variables, table and error.
\<close>

datatype setting = SInt64 int64 | SOther

datatype gorm_error = RecordNotFound | GormError string

record 'db gorm =
  gm_set :: "'db \<Rightarrow> string \<Rightarrow> setting \<Rightarrow> 'db"
  gm_get :: "'db \<Rightarrow> string \<Rightarrow> setting option"
  gm_context :: "'db \<Rightarrow> ctx option"
  gm_sql :: "'db \<Rightarrow> string"
  gm_vars :: "'db \<Rightarrow> nat"
  gm_table :: "'db \<Rightarrow> string"
  gm_error :: "'db \<Rightarrow> gorm_error option"

record gorm_plugin =
  gp_rl :: restlytics
  gp_system :: string

definition gorm_new :: "restlytics \<Rightarrow> string \<Rightarrow> gorm_plugin" where
  "gorm_new rl sys = \<lparr>gp_rl = rl, gp_system = sys\<rparr>"

definition start_key :: string where "start_key = ''restlytics:start''"

definition gorm_cap_string :: "string \<Rightarrow> nat \<Rightarrow> string" where
  "gorm_cap_string s n = (if length s \<le> n then s else take n s)"

definition gorm_op :: "string \<Rightarrow> string" where
  "gorm_op summary =
     (let rest = dropWhile (\<lambda>c. c = CHR '' '') summary;
          verb = takeWhile (\<lambda>c. c \<noteq> CHR '' '') rest
      in if verb = [] then [] else verb)"

definition gorm_before :: "'db gorm \<Rightarrow> 'db \<Rightarrow> world \<Rightarrow> 'db \<times> world" where
  "gorm_before g db w = (let (now, w1) = now_ns w in (gm_set g db start_key (SInt64 now), w1))"

definition gorm_start :: "'db gorm \<Rightarrow> 'db \<Rightarrow> int64 \<Rightarrow> int64" where
  "gorm_start g db end_ns = (case gm_get g db start_key of Some (SInt64 n) \<Rightarrow> n | _ \<Rightarrow> end_ns)"

definition gorm_ops :: "'db gorm \<Rightarrow> gorm_plugin \<Rightarrow> 'db \<Rightarrow> span_op list" where
  "gorm_ops g p db =
     (let sql = gm_sql g db; summary = normalize sql in
      [SetString attr_category category_db,
       SetString attr_db_system (gp_system p),
       SetString attr_db_query_summary summary,
       SetName (gorm_op summary)]
      @ (if gorm_op summary \<noteq> [] then [SetString attr_db_operation_name (gorm_op summary)] else [])
      @ [SetInt attr_bindings_count (int (gm_vars g db))]
      @ (if gm_table g db \<noteq> [] then [SetString attr_db_namespace (gm_table g db)] else [])
      @ (if cf_capture_sql (rl_cfg (gp_rl p)) \<and> sql \<noteq> [] then [SetString attr_db_query_text (gorm_cap_string sql 2048)] else [])
      @ (case gm_error g db of
           Some (GormError t) \<Rightarrow> [SetStatus status_error t]
         | _ \<Rightarrow> []))"

definition gorm_after :: "'db gorm \<Rightarrow> gorm_plugin \<Rightarrow> 'db \<Rightarrow> world \<Rightarrow> world option" where
  "gorm_after g p db w =
     (let ctx = gm_context g db in
      if \<not> is_sampled ctx w then Some w
      else if cf_instrument_db (rl_cfg (gp_rl p)) = Some False then Some w
      else
        let (end_ns, w1) = now_ns w;
            start_ns = gorm_start g db end_ns;
            w2 = increment_db_query_count ctx w1
        in do {
          (child, w3) \<leftarrow> add_child_span ctx ''db.query'' start_ns end_ns w2;
          Some (update_root child (gorm_ops g p db) w3)
        })"

text \<open>
  \<open>Initialize\<close>: for every kind of operation the before callback, then the after callback, until a
  registration fails.  \<open>register\<close> is GORM's: the operation, the side and the name of a callback.
\<close>

datatype callback_side = Before | After

definition gorm_kinds :: "string list" where
  "gorm_kinds = [''create'', ''query'', ''update'', ''delete'', ''row'', ''raw'']"

fun gorm_register_all ::
  "(string \<Rightarrow> callback_side \<Rightarrow> string \<Rightarrow> 'db \<Rightarrow> 'e option \<times> 'db) \<Rightarrow> string list \<Rightarrow> 'db \<Rightarrow> 'e option \<times> 'db" where
  "gorm_register_all register [] db = (None, db)"
| "gorm_register_all register (k # ks) db =
     (case register k Before (''restlytics:before_'' @ k) db of
        (Some e, db1) \<Rightarrow> (Some e, db1)
      | (None, db1) \<Rightarrow>
          (case register k After (''restlytics:after_'' @ k) db1 of
             (Some e, db2) \<Rightarrow> (Some e, db2)
           | (None, db2) \<Rightarrow> gorm_register_all register ks db2))"

definition gorm_initialize ::
  "(string \<Rightarrow> callback_side \<Rightarrow> string \<Rightarrow> 'db \<Rightarrow> 'e option \<times> 'db) \<Rightarrow> 'db \<Rightarrow> 'e option \<times> 'db" where
  "gorm_initialize register db = gorm_register_all register gorm_kinds db"

lemma gorm_initialize_registers_all:
  "gorm_initialize (\<lambda>k side name db. (None, db @ [(k, side, name)])) db = (None, db @
     concat (map (\<lambda>k. [(k, Before, ''restlytics:before_'' @ k), (k, After, ''restlytics:after_'' @ k)]) gorm_kinds))"
  by (simp add: gorm_initialize_def gorm_kinds_def)

lemma gorm_op_name: "gorm_op = op_name"
  by (simp add: fun_eq_iff gorm_op_def op_name_def Let_def)

lemma set_start [simp]:
  "sp_start (set_attr k v s) = sp_start s" "sp_end (set_attr k v s) = sp_end s"
  by (simp_all add: set_attr_def split: option.splits)

lemma gorm_attrs:
  assumes "span_wf sp0" and "get_attr sp0 = Map.empty" and "sp = run_ops (gorm_ops g p db) sp0"
  shows "get_attr sp attr_db_query_summary = Some (string_value (normalize (gm_sql g db)))"
    and "get_attr sp attr_bindings_count = Some (int_value (int (gm_vars g db)))"
    and "get_attr sp attr_db_query_text
           = (if cf_capture_sql (rl_cfg (gp_rl p)) \<and> gm_sql g db \<noteq> []
              then Some (string_value (gorm_cap_string (gm_sql g db) 2048)) else None)"
    and "(\<exists>t. gm_error g db = Some (GormError t)) \<Longrightarrow> sp_status_code sp = status_error"
    and "sp_start sp = sp_start sp0" and "sp_end sp = sp_end sp0"
proof -
  have d: "attr_db_query_summary \<noteq> attr_db_operation_name" "attr_db_query_summary \<noteq> attr_bindings_count"
    "attr_db_query_summary \<noteq> attr_db_query_text" "attr_bindings_count \<noteq> attr_db_query_text"
    "attr_db_query_text \<noteq> attr_db_operation_name" "attr_db_query_text \<noteq> attr_bindings_count"
    "attr_db_query_text \<noteq> attr_category" "attr_db_query_text \<noteq> attr_db_system"
    "attr_db_query_text \<noteq> attr_db_query_summary" "attr_db_namespace \<noteq> attr_db_query_summary"
    "attr_db_namespace \<noteq> attr_db_query_text" "attr_db_namespace \<noteq> attr_bindings_count"
    by (simp_all add: const_defs)
  have n: "\<not> is_sensitive_attribute_key attr_db_namespace" "\<not> equal_fold attr_db_namespace attr_url_full"
    by code_simp+
  note sets = set_string_def set_int_def Let_def get_attr_set_attr db_keys_plain d d [symmetric] n set_attr_wf span_ops_wf
  have ops: "sp = (case gm_error g db of Some (GormError t) \<Rightarrow> set_status status_error t | _ \<Rightarrow> id)
     ((if cf_capture_sql (rl_cfg (gp_rl p)) \<and> gm_sql g db \<noteq> []
       then set_string attr_db_query_text (gorm_cap_string (gm_sql g db) 2048) else id)
       ((if gm_table g db \<noteq> [] then set_string attr_db_namespace (gm_table g db) else id)
         (set_int attr_bindings_count (int (gm_vars g db))
           ((if gorm_op (normalize (gm_sql g db)) \<noteq> []
             then set_string attr_db_operation_name (gorm_op (normalize (gm_sql g db))) else id)
             (set_name (gorm_op (normalize (gm_sql g db)))
               (set_string attr_db_query_summary (normalize (gm_sql g db))
                 (set_string attr_db_system (gp_system p) (set_string attr_category category_db sp0))))))))"
    unfolding assms(3) by (simp add: gorm_ops_def run_ops_def Let_def split: option.splits gorm_error.splits)
  show "get_attr sp attr_db_query_summary = Some (string_value (normalize (gm_sql g db)))"
    and "get_attr sp attr_bindings_count = Some (int_value (int (gm_vars g db)))"
    and "get_attr sp attr_db_query_text
           = (if cf_capture_sql (rl_cfg (gp_rl p)) \<and> gm_sql g db \<noteq> []
              then Some (string_value (gorm_cap_string (gm_sql g db) 2048)) else None)"
    unfolding ops using assms(1,2) by (auto simp: sets split: option.splits gorm_error.splits)
  show "(\<exists>t. gm_error g db = Some (GormError t)) \<Longrightarrow> sp_status_code sp = status_error"
    unfolding ops by (auto simp: set_status_def)
  show "sp_start sp = sp_start sp0" and "sp_end sp = sp_end sp0"
    unfolding ops by (simp_all add: span_defs set_status_def split: option.splits gorm_error.splits)
qed


section \<open>Properties\<close>

text \<open>
  C27: a traced, sampled request through the Gin middleware is reported as Gin answered it: one batch, whose
  root is named after the final method and the matched route template (never the raw path), carries both and
  the response's status, is an error for a 5xx or a collected error, and else keeps the code the handlers gave
  it or becomes OK; the handlers' end, a panic included, is the middleware's own.
\<close>
theorem gin_reports_request:
  assumes "run acts (fresh_sdk rng clock) = Some s" and "gin_middleware r req chain s = Some (res, s')"
    and "config_enabled (rl_cfg r)" and "should_trace r (rq_path req)"
    and "start (rl_tracer r) (rq_ctx req) (rq_method req @ '' '' @ rq_path req) (rq_traceparent req) (sdk_world s)
           = Some (c, w1)"
    and "is_sampled (Some c) w1" and "g = chain c" and "from_context (Some (cn_ctx g)) = from_context (Some c)"
  shows "\<exists>s2 st sp p. run (cn_acts g) (s\<lparr>sdk_world := w1\<rparr>) = Some s2 \<and> res = gn_result g
    \<and> request_of (Some c) (sdk_world s2) = Some (length (w_requests (sdk_world s)), st) \<and> rs_root_span st = Some sp
    \<and> w_sent (sdk_world s') = w_sent (sdk_world s2) @ [(tc_transport (rl_tracer r), p)]
    \<and> reports_request p (cn_method g) (gin_route (gn_full_path g)) (cn_status g)
        (final_code (500 \<le> cn_status g \<or> 0 < gn_errors g) (sp_status_code sp))"
  using assms by (rule gin_report)

definition demo_gin :: "ctx \<Rightarrow> gin_run" where
  "demo_gin c = \<lparr>cn_acts = [CountQuery (Some c)], cn_ctx = c, cn_method = ''GET'', cn_status = 404,
     gn_full_path = ''/users/:id'', gn_errors = 1, gn_errors_text = ''no such user'', gn_result = Return ()\<rparr>"

lemma gin_reports_request_witness:
  "\<exists>s' p. gin_middleware demo_handle demo_request demo_gin demo_sdk = Some (Return (), s')
    \<and> w_sent (sdk_world s') = [(7, p)] \<and> reports_request p ''GET'' ''/users/:id'' 404 status_error"
proof -
  let ?start = "start demo_tracer [] ''GET /users/42'' [] (sdk_world demo_sdk)"
  have "map_option (\<lambda>(c, w). (c, is_sampled (Some c) w, w_sent w = [])) ?start = Some ([CtxState 0], True, True)"
    by code_simp
  then obtain w1 where st: "?start = Some ([CtxState 0], w1)" and sam: "is_sampled (Some [CtxState 0]) w1"
      and e: "w_sent w1 = []"
    by (auto simp: map_option_eq_Some)
  have h: "config_enabled (rl_cfg demo_handle)" "should_trace demo_handle (rq_path demo_request)"
    by code_simp+
  have m: "gin_middleware demo_handle demo_request demo_gin demo_sdk
      = Some (Return (), on_world (gin_finish (demo_gin [CtxState 0]))
            (demo_sdk\<lparr>sdk_world := increment_db_query_count (Some [CtxState 0]) w1\<rparr>))"
    using h st by (simp add: gin_middleware_def demo_request_def demo_handle_def demo_gin_def Let_def)
  have st': "start (rl_tracer demo_handle) (rq_ctx demo_request)
      (rq_method demo_request @ '' '' @ rq_path demo_request) (rq_traceparent demo_request) (sdk_world demo_sdk)
      = Some ([CtxState 0], w1)"
    using st by (simp add: demo_handle_def demo_request_def)
  have r: "run [] (fresh_sdk demo_rng demo_clock) = Some demo_sdk" by (simp add: demo_sdk_def)
  have ctx: "from_context (Some (cn_ctx (demo_gin [CtxState 0]))) = from_context (Some [CtxState 0])"
    by (simp add: demo_gin_def)
  have "w_sent (increment_db_query_count c w1) = []" for c
    using e by (simp add: increment_db_query_count_def split: option.splits)
  then show ?thesis
    using gin_reports_request [OF r m h st' sam refl ctx] m
    by (auto simp: demo_gin_def demo_handle_def demo_tracer_def gin_route_def final_code_def)
qed

text \<open>
  Two adapters report failures as successes.  Gin: a request whose handler panics leaves exactly the
  telemetry of the same request without the panic, whatever status the writer had by then; Fiber: a request
  whose handler returns an error leaves exactly the telemetry of one that returns none.
\<close>
theorem failures_reported_as_success:
  "map_option snd (gin_middleware r req (\<lambda>c. (chain c)\<lparr>gn_result := Panicked reason\<rparr>) s)
     = map_option snd (gin_middleware r req (\<lambda>c. (chain c)\<lparr>gn_result := Return ()\<rparr>) s)
   \<and> map_option snd (fiber_middleware r req (\<lambda>c. (fchain c)\<lparr>fb_result := Return (Some e)\<rparr>) s)
     = map_option snd (fiber_middleware r req (\<lambda>c. (fchain c)\<lparr>fb_result := Return None\<rparr>) s)"
proof -
  have g: "gin_finish (x\<lparr>gn_result := o1\<rparr>) = gin_finish x" for x o1
    by (simp add: gin_finish_def fun_eq_iff Let_def split: option.splits)
  have f: "fiber_finish (x\<lparr>fb_result := o1\<rparr>) = fiber_finish x" for x o1
    by (simp add: fiber_finish_def fun_eq_iff Let_def split: option.splits)
  show ?thesis
    by (auto simp: gin_middleware_def fiber_middleware_def Let_def g f option.map_comp comp_def split_beta
        intro!: arg_cong2 [where f = Option.bind] split: option.splits bind_splits)
qed

text \<open>
  Echo and Fiber do not defer their \<open>finish\<close>: a request whose handler panics is lost, although it was
  sampled and recorded.
\<close>

lemma panic_loses_trace:
  assumes "start (rl_tracer r) (rq_ctx req) (rq_method req @ '' '' @ rq_path req) (rq_traceparent req) (sdk_world s)
           = Some (c, w1)"
    and "config_enabled (rl_cfg r)" and "should_trace r (rq_path req)"
  shows "en_result (chain c) = Panicked reason \<Longrightarrow> echo_middleware r req chain s
      = map_option (\<lambda>s2. (Panicked reason, s2)) (run (cn_acts (chain c)) (s\<lparr>sdk_world := w1\<rparr>))"
    and "fb_result (fchain c) = Panicked reason \<Longrightarrow> fiber_middleware r req fchain s
      = map_option (\<lambda>s2. (Panicked reason, s2)) (run (cn_acts (fchain c)) (s\<lparr>sdk_world := w1\<rparr>))"
  using assms by (simp_all add: echo_middleware_def fiber_middleware_def Let_def map_option_case
      split: option.splits bind_splits)



text \<open>
  With settings that keep what is put in them, the start is the time the before-callback ran.
\<close>

lemma gorm_start_recorded:
  assumes "\<And>db k v. gm_get g (gm_set g db k v) k = Some v" and "gorm_before g db w = (db1, w1)"
  shows "gorm_start g db1 end_ns = fst (now_ns w)"
  using assms by (auto simp: gorm_before_def gorm_start_def split_beta)

definition demo_gorm :: "setting option gorm" where
  "demo_gorm = \<lparr>gm_set = (\<lambda>_ _ v. Some v), gm_get = (\<lambda>db _. db), gm_context = (\<lambda>_. demo_ctx),
     gm_sql = (\<lambda>_. ''select 1''), gm_vars = (\<lambda>_. 0), gm_table = (\<lambda>_. ''users''),
     gm_error = (\<lambda>_. Some (GormError ''boom''))\<rparr>"

definition demo_plugin :: gorm_plugin where
  "demo_plugin = \<lparr>gp_rl = demo_handle, gp_system = ''sqlite''\<rparr>"


end
