(* ===== verification/Json.thy ===== *)
theory Json
  imports GoStrings GoFloat
begin

text \<open>
  \<open>encoding/json\<close> as the exporter uses it: the values \<open>Marshal\<close> writes, their text with Go's HTML-safe
  string escapes (those of Go 1.21, the version of \<open>go.mod\<close>), and a reader of JSON strings that shows what
  a receiver gets back.  A number without a point is an integer as well as a float.
\<close>

section \<open>Values\<close>

datatype json =
  JBool bool
| JInt int
| JFloat rat
| JStr string
| JArr "json list"
| JObj "(string \<times> json) list"

definition member :: "string \<Rightarrow> json \<Rightarrow> json option" where
  "member k j = (case j of JObj ms \<Rightarrow> map_of ms k | _ \<Rightarrow> None)"

lemma member_simps [simp]:
  "member k (JObj []) = None"
  "member k (JObj ((k', v) # ms)) = (if k = k' then Some v else member k (JObj ms))"
  "member k (JObj (xs @ ys)) = (case member k (JObj xs) of None \<Rightarrow> member k (JObj ys) | Some v \<Rightarrow> Some v)"
  by (auto simp: member_def map_add_def split: option.splits)

section \<open>Strings\<close>

definition hex_escape :: "nat \<Rightarrow> string" where
  "hex_escape n =
     [CHR 0x5C, CHR ''u'', digit_char (n div 4096 mod 16), digit_char (n div 256 mod 16),
      digit_char (n div 16 mod 16), digit_char (n mod 16)]"

definition quote_ascii :: "nat \<Rightarrow> string" where
  "quote_ascii r =
     (if r = 34 \<or> r = 92 then [CHR 0x5C, char_of r]
      else if r = 10 then [CHR 0x5C, CHR ''n'']
      else if r = 13 then [CHR 0x5C, CHR ''r'']
      else if r = 9 then [CHR 0x5C, CHR ''t'']
      else if r < 32 \<or> r = 60 \<or> r = 62 \<or> r = 38 then hex_escape r
      else [char_of r])"

definition quote_rune :: "nat \<times> string \<Rightarrow> string" where
  "quote_rune seg =
     (case seg of (r, bs) \<Rightarrow>
        if r < 128 then quote_ascii r
        else if r = rune_error \<and> length bs = 1 then hex_escape rune_error
        else if r = 8232 \<or> r = 8233 then hex_escape r
        else bs)"

definition json_quote :: "string \<Rightarrow> string" where
  "json_quote s = CHR 0x22 # concat (map quote_rune (segments s)) @ [CHR 0x22]"

section \<open>Reading a string back\<close>

definition simple_escape :: "char \<Rightarrow> string option" where
  "simple_escape c =
     (if c = CHR 0x22 \<or> c = CHR 0x5C \<or> c = CHR ''/'' then Some [c]
      else if c = CHR ''n'' then Some [CHR 0x0A] else if c = CHR ''r'' then Some [CHR 0x0D]
      else if c = CHR ''t'' then Some [CHR 0x09] else if c = CHR ''b'' then Some [CHR 0x08]
      else if c = CHR ''f'' then Some [CHR 0x0C] else None)"

definition put_front :: "string \<Rightarrow> (string \<times> string) option \<Rightarrow> (string \<times> string) option" where
  "put_front p r = map_option (\<lambda>(s, rest). (p @ s, rest)) r"

lemma put_front_Some [simp]: "put_front p (Some (s, rest)) = Some (p @ s, rest)"
  by (simp add: put_front_def)

lemma put_front_none [simp]: "put_front p None = None"
  by (simp add: put_front_def)

lemma put_front_append: "put_front p (put_front q r) = put_front (p @ q) r"
  by (cases r) (auto simp: put_front_def)

text \<open>The characters up to the closing quote, escapes undone, and what follows it.\<close>

function read_chars :: "string \<Rightarrow> (string \<times> string) option" where
  "read_chars [] = None"
| "read_chars (c # cs) =
     (if c = CHR 0x22 then Some ([], cs)
      else if c = CHR 0x5C then
        (case cs of
           [] \<Rightarrow> None
         | e # rest \<Rightarrow>
             if e = CHR ''u'' then
               (if length rest < 4 then None
                else case parse_digits 16 0 (take 4 rest) of
                       None \<Rightarrow> None
                     | Some n \<Rightarrow> put_front (encode_rune n) (read_chars (drop 4 rest)))
             else (case simple_escape e of None \<Rightarrow> None | Some p \<Rightarrow> put_front p (read_chars rest)))
      else if ord c < 32 then None
      else put_front [c] (read_chars cs))"
  by pat_completeness auto
termination
  by (relation "measure length") auto

declare read_chars.simps [simp del]

definition json_unquote :: "string \<Rightarrow> string option" where
  "json_unquote t =
     (case t of
        c # cs \<Rightarrow> if c = CHR 0x22 then (case read_chars cs of Some (s, []) \<Rightarrow> Some s | _ \<Rightarrow> None) else None
      | [] \<Rightarrow> None)"

section \<open>The reader undoes the writer\<close>

text \<open>What is read back: the text with every stray byte replaced by U+FFFD.\<close>

definition to_valid :: "string \<Rightarrow> string" where
  "to_valid s = concat (map (\<lambda>(r, bs). if r = rune_error \<and> length bs = 1 then encode_rune rune_error else bs) (segments s))"

lemma to_valid_valid: "valid_utf8 s \<Longrightarrow> to_valid s = s"
proof -
  assume v: "valid_utf8 s"
  have "map (\<lambda>(r, bs). if r = rune_error \<and> length bs = 1 then encode_rune rune_error else bs) (segments s)
      = map snd (segments s)"
    using v by (intro map_cong) (auto simp: valid_utf8_def list_all_iff)
  then show ?thesis using bytes_of_segments [of s] by (simp only: to_valid_def bytes_of_def)
qed

lemma parse_four_hex:
  assumes "a < 16" "b < 16" "c < 16" "d < 16"
  shows "parse_digits 16 0 [digit_char a, digit_char b, digit_char c, digit_char d]
    = Some (((a * 16 + b) * 16 + c) * 16 + d)"
proof -
  have "digit_val (digit_char x) = Some x" if "x < 16" for x
    using that by (auto simp: digit_val_def digit_char_def in_range_def)
  then show ?thesis using assms by simp
qed

lemma read_unicode:
  "read_chars (CHR 0x5C # CHR ''u'' # a # b # c # d # t)
   = (case parse_digits 16 0 [a, b, c, d] of None \<Rightarrow> None | Some n \<Rightarrow> put_front (encode_rune n) (read_chars t))"
proof -
  have d: "drop 4 (a # b # c # d # t) = t" by (simp add: eval_nat_numeral)
  show ?thesis
    by (subst read_chars.simps, cases "parse_digits 16 0 [a, b, c, d]") (simp_all add: d del: parse_digits.simps)
qed

lemma hex_escape_read:
  assumes "n < 65536"
  shows "read_chars (hex_escape n @ t) = put_front (encode_rune n) (read_chars t)"
proof -
  have eq: "((n div 4096 mod 16 * 16 + n div 256 mod 16) * 16 + n div 16 mod 16) * 16 + n mod 16 = n"
  proof -
    have a: "n div 256 = n div 16 div 16" "n div 4096 = n div 16 div 16 div 16" by (simp_all add: div_mult2_eq [symmetric])
    have "n div 16 div 16 div 16 < 16" using assms by (simp add: div_mult2_eq [symmetric] less_mult_imp_div_less)
    then show ?thesis by (simp add: a)
  qed
  have "parse_digits 16 0 [digit_char (n div 4096 mod 16), digit_char (n div 256 mod 16),
      digit_char (n div 16 mod 16), digit_char (n mod 16)]
      = Some (((n div 4096 mod 16 * 16 + n div 256 mod 16) * 16 + n div 16 mod 16) * 16 + n mod 16)"
    by (intro parse_four_hex mod_less_divisor) simp_all
  then have "parse_digits 16 0 [digit_char (n div 4096 mod 16), digit_char (n div 256 mod 16),
      digit_char (n div 16 mod 16), digit_char (n mod 16)] = Some n"
    by (simp only: eq)
  then show ?thesis by (simp only: hex_escape_def append.simps read_unicode option.case)
qed

lemma read_plain: "32 \<le> ord c \<Longrightarrow> c \<noteq> CHR 0x22 \<Longrightarrow> c \<noteq> CHR 0x5C \<Longrightarrow> read_chars (c # t) = put_front [c] (read_chars t)"
  by (simp add: read_chars.simps)

lemma quote_ascii_read:
  assumes "r < 128"
  shows "read_chars (quote_ascii r @ t) = put_front [char_of r] (read_chars t)"
proof -
  have e: "read_chars (CHR 0x5C # c # t) = put_front p (read_chars t)"
    if "simple_escape c = Some p" "c \<noteq> CHR ''u''" for c p
    using that by (simp add: read_chars.simps)
  have o: "32 \<le> ord (char_of r)" "char_of r \<noteq> CHR 0x22" "char_of r \<noteq> CHR 0x5C"
    if "\<not> r < 32" "r \<noteq> 34" "r \<noteq> 92"
    using that assms by (auto simp: ord_inject [symmetric])
  have lits: "char_of (34 :: nat) = CHR 0x22" "char_of (92 :: nat) = CHR 0x5C" "char_of (10 :: nat) = CHR 0x0A"
    "char_of (13 :: nat) = CHR 0x0D" "char_of (9 :: nat) = CHR 0x09"
    by (simp_all add: ord_inject [symmetric])
  have sp: "encode_rune r = [char_of r]" using assms by (simp add: encode_rune_def)
  consider "r = 34" | "r = 92" | "r = 10" | "r = 13" | "r = 9"
    | "r < 32 \<or> r = 60 \<or> r = 62 \<or> r = 38" "r \<noteq> 10" "r \<noteq> 13" "r \<noteq> 9"
    | "\<not> (r < 32 \<or> r = 60 \<or> r = 62 \<or> r = 38)" "r \<noteq> 34" "r \<noteq> 92"
    by blast
  then show ?thesis
  proof cases
    case 6
    then have "quote_ascii r = hex_escape r" by (auto simp: quote_ascii_def)
    then show ?thesis using assms hex_escape_read [of r t] sp by simp
  next
    case 7
    then have "quote_ascii r = [char_of r]" by (auto simp: quote_ascii_def)
    then show ?thesis using read_plain [OF o] 7 by simp
  qed (auto simp: quote_ascii_def simple_escape_def lits intro!: e)
qed

lemma read_high: "list_all (\<lambda>c. 128 \<le> ord c) bs \<Longrightarrow> read_chars (bs @ t) = put_front bs (read_chars t)"
proof (induction bs)
  case Nil
  then show ?case by (cases "read_chars t") auto
next
  case (Cons c bs)
  then have "32 \<le> ord c" "c \<noteq> CHR 0x22" "c \<noteq> CHR 0x5C" by auto
  then show ?case using Cons by (simp add: read_plain put_front_append)
qed

text \<open>Beyond ASCII, the bytes of a rune are its encoding, and none of them is an ASCII byte.\<close>

lemma decode_high:
  assumes "decode_rune c cs = (r, m)" and "\<not> r < 128" and "\<not> (r = rune_error \<and> m = 1)"
  shows "list_all (\<lambda>c. 128 \<le> ord c) (c # take (m - 1) cs)" and "m \<noteq> 1"
proof -
  have "1 < m \<and> list_all (\<lambda>c. 128 \<le> ord c) (c # take (m - 1) cs)"
    using assms
    by (auto simp: decode_rune_def decode2_def decode3_def decode4_def Let_def second_ok_def cont_ok_def
        utf8_second_def in_range_def split: if_splits list.splits)
  then show "list_all (\<lambda>c. 128 \<le> ord c) (c # take (m - 1) cs)" and "m \<noteq> 1" by auto
qed

lemma decode_separator:
  assumes "decode_rune c cs = (r, m)" and "r = 8232 \<or> r = 8233"
  shows "c # take (m - 1) cs = encode_rune r"
proof -
  have "in_range 224 239 (ord c)" and d: "decode3 (ord c) cs = (r, m)"
    using assms
    by (auto simp: decode_rune_def decode2_def decode4_def Let_def rune_error_def second_ok_def
        utf8_second_def cont_ok_def in_range_def split: if_splits list.splits)
  obtain c1 c2 rest where cs: "cs = c1 # c2 # rest" "second_ok (ord c) (ord c1)" "cont_ok (ord c2)"
      and r: "r = (ord c - 224) * 4096 + (ord c1 - 128) * 64 + (ord c2 - 128)" and m: "m = 3"
    using d assms(2) by (auto simp: decode3_def rune_error_def split: list.splits if_splits)
  have b: "ord c1 - 128 < 64" "ord c2 - 128 < 64" "128 \<le> ord c1" "128 \<le> ord c2" "224 \<le> ord c"
    using cs(2,3) \<open>in_range 224 239 (ord c)\<close>
    by (auto simp: second_ok_def utf8_second_def cont_ok_def in_range_def split: if_splits)
  obtain x y z where xyz: "ord c = 224 + x" "ord c1 = 128 + y" "ord c2 = 128 + z"
    using b(3-5) by (auto simp: nat_le_iff_add)
  then have "y < 64" "z < 64" "x * 4096 + y * 64 + z = r" using b r by simp_all
  with assms(2) have "x = 2" by (elim disjE) linarith+
  moreover from this \<open>x * 4096 + y * 64 + z = r\<close> assms(2) have "y = 0" by (elim disjE) linarith+
  moreover from calculation \<open>x * 4096 + y * 64 + z = r\<close> have "z = r - 8192" by simp
  ultimately have "c = char_of (226 :: nat)" "c1 = char_of (128 :: nat)" "c2 = char_of (r - 8192 + 128)"
    using xyz assms(2) by (auto simp: ord_inject [symmetric])
  then show ?thesis using assms(2) cs(1) m by (auto simp: encode_rune_def in_range_def)
qed

lemma read_segment:
  assumes "decode_rune c cs = (r, m)"
  shows "read_chars (quote_rune (r, c # take (m - 1) cs) @ rest)
    = put_front (if r = rune_error \<and> length (c # take (m - 1) cs) = 1 then encode_rune rune_error
                 else c # take (m - 1) cs) (read_chars rest)"
    (is "_ = put_front ?v _")
proof (cases "r < 128")
  case True
  then have "m = 1" "r = ord c"
    using assms by (auto simp: decode_rune_def decode2_def decode3_def decode4_def Let_def rune_error_def
        second_ok_def utf8_second_def cont_ok_def in_range_def split: if_splits list.splits)
  then show ?thesis
    using True quote_ascii_read [OF True, of rest] by (simp add: quote_rune_def rune_error_def)
next
  case False
  let ?bs = "c # take (m - 1) cs"
  show ?thesis
  proof (cases "r = rune_error \<and> m = 1")
    case True
    then show ?thesis
      using False hex_escape_read [of rune_error rest] by (simp add: quote_rune_def rune_error_def)
  next
    case ok: False
    note high = decode_high [OF assms False ok]
    have l: "\<not> (r = rune_error \<and> length ?bs = 1)"
      using ok high(2) assms by (auto simp: decode_rune_def decode2_def decode3_def decode4_def Let_def
          rune_error_def split: if_splits list.splits)
    show ?thesis
    proof (cases "r = 8232 \<or> r = 8233")
      case True
      then have "r < 65536" by auto
      then show ?thesis
        using True l hex_escape_read [of r rest] decode_separator [OF assms True] False
        by (auto simp: quote_rune_def rune_error_def)
    next
      case other: False
      have q: "quote_rune (r, ?bs) = ?bs"
        unfolding quote_rune_def by (simp only: prod.case False l other if_False)
      have v: "?v = ?bs" by (simp only: l if_False)
      show ?thesis unfolding q v by (rule read_high [OF high(1)])
    qed
  qed
qed

lemma read_segments:
  "read_chars (concat (map quote_rune (segments s)) @ t) = put_front (to_valid s) (read_chars t)"
proof (induction s rule: segments.induct)
  case 1
  then show ?case by (cases "read_chars t") (auto simp: to_valid_def)
next
  case (2 c cs)
  obtain r m where d: "decode_rune c cs = (r, m)" by (cases "decode_rune c cs")
  have "to_valid (c # cs) = (if r = rune_error \<and> length (c # take (m - 1) cs) = 1 then encode_rune rune_error
      else c # take (m - 1) cs) @ to_valid (drop (m - 1) cs)"
    using d by (auto simp: to_valid_def min_def split: if_splits)
  then show ?case
    using 2 d read_segment [OF d, of "concat (map quote_rune (segments (drop (m - 1) cs))) @ t"]
    by (simp add: put_front_append)
qed

lemma json_unquote_quote: "json_unquote (json_quote s) = Some (to_valid s)"
  using read_segments [of s "[CHR 0x22]"] by (simp add: json_unquote_def json_quote_def read_chars.simps)

interpretation json_text: codec json_quote json_unquote valid_utf8
  by unfold_locales (simp add: json_unquote_quote to_valid_valid)

section \<open>Text\<close>

text \<open>
  The compact text of a value.  \<open>ft\<close> is the shortest decimal text of a finite \<open>float64\<close>; nothing below
  depends on which one it is.
\<close>

fun json_text :: "(rat \<Rightarrow> string) \<Rightarrow> json \<Rightarrow> string" where
  "json_text ft (JBool b) = (if b then ''true'' else ''false'')"
| "json_text ft (JInt i) = format_int i"
| "json_text ft (JFloat d) = ft d"
| "json_text ft (JStr s) = json_quote s"
| "json_text ft (JArr xs) = ''['' @ join_with '','' (map (json_text ft) xs) @ '']''"
| "json_text ft (JObj ms) =
     ''{'' @ join_with '','' (map (\<lambda>(k, v). json_quote k @ '':'' @ json_text ft v) ms) @ ''}''"

section \<open>Reading members\<close>

fun as_str :: "json \<Rightarrow> string option" where
  "as_str (JStr s) = Some s" | "as_str _ = None"

fun as_int :: "json \<Rightarrow> int option" where
  "as_int (JInt i) = Some i" | "as_int _ = None"

fun as_bool :: "json \<Rightarrow> bool option" where
  "as_bool (JBool b) = Some b" | "as_bool _ = None"

fun as_float :: "json \<Rightarrow> f64 option" where
  "as_float (JFloat d) = Some (Fin d)" | "as_float (JInt i) = Some (Fin (of_int i))" | "as_float _ = None"

fun as_list :: "(json \<Rightarrow> 'a option) \<Rightarrow> json \<Rightarrow> 'a list option" where
  "as_list f (JArr xs) = those (map f xs)" | "as_list f _ = None"

text \<open>A member that must be there, one that may be missing, and one a missing member leaves at its zero value.\<close>

definition req :: "(json \<Rightarrow> 'a option) \<Rightarrow> string \<Rightarrow> json \<Rightarrow> 'a option" where
  "req f k j = (case member k j of None \<Rightarrow> None | Some v \<Rightarrow> f v)"

definition optional :: "(json \<Rightarrow> 'a option) \<Rightarrow> string \<Rightarrow> json \<Rightarrow> 'a option option" where
  "optional f k j = (case member k j of None \<Rightarrow> Some None | Some v \<Rightarrow> map_option Some (f v))"

definition defaulted :: "'a \<Rightarrow> (json \<Rightarrow> 'a option) \<Rightarrow> string \<Rightarrow> json \<Rightarrow> 'a option" where
  "defaulted d f k j = (case member k j of None \<Rightarrow> Some d | Some v \<Rightarrow> f v)"

lemmas member_readers = req_def optional_def defaulted_def

text \<open>A Go struct that may fail to encode, with a reader that gets back what was encoded.\<close>

locale wire_codec =
  fixes enc :: "'a \<Rightarrow> json option" and dec :: "json \<Rightarrow> 'a option"
  assumes dec_enc: "enc x = Some j \<Longrightarrow> dec j = Some x"
begin

lemma list_dec_enc: "those (map enc xs) = Some js \<Longrightarrow> those (map dec js) = Some xs"
proof (induction xs arbitrary: js)
  case (Cons x xs)
  then show ?case by (auto simp: dec_enc split: option.splits)
qed simp

lemma as_list_enc: "those (map enc xs) = Some js \<Longrightarrow> as_list dec (JArr js) = Some xs"
  by (simp add: list_dec_enc)

lemma enc_inj: "enc x = Some j \<Longrightarrow> enc y = Some j \<Longrightarrow> x = y"
  using dec_enc [of x j] dec_enc [of y j] by simp

end

lemma those_None_iff: "those (map f xs) = None \<longleftrightarrow> (\<exists>x \<in> set xs. f x = None)"
  by (induction xs) (auto split: option.splits)

lemma those_length: "those xs = Some ys \<Longrightarrow> length ys = length xs"
  by (induction xs arbitrary: ys) (auto split: option.splits)

end
