(* ===== verification/LogText.thy ===== *)
theory LogText
  imports GoRegexp Redact
begin

text \<open>
  The text side of \<open>logs.go\<close>: the patterns that scrub credentials and personal data from log text, the
  cut to a byte limit, and the keys of attributes that are not exported.
\<close>

section \<open>Patterns\<close>

text \<open>
  A class under \<open>(?i)\<close> is given by its lower-case letters; a rune is in it when its fold is.
\<close>

definition class_fold :: "(nat \<Rightarrow> bool) \<Rightarrow> re" where
  "class_fold p = Chr (\<lambda>r. p (fold_rune r))"

definition lower_letter :: "nat \<Rightarrow> bool" where
  "lower_letter r \<longleftrightarrow> in_range 97 122 r"

definition among :: "string \<Rightarrow> nat \<Rightarrow> bool" where
  "among cs r \<longleftrightarrow> (\<exists>c \<in> set cs. r = ord c)"

definition private_key_pattern :: re where
  "private_key_pattern =
     seqs [lit_fold ''-----begin '', many (none_of ''-''), lit_fold ''private key-----'',
       Star False (Chr (\<lambda>_. True)),
       lit_fold ''-----end '', many (none_of ''-''), lit_fold ''private key-----'']"

definition auth_token_pattern :: re where
  "auth_token_pattern =
     seqs [WordB, alts [lit_fold ''bearer'', lit_fold ''basic''], some blank,
       some (class_fold (\<lambda>r. lower_letter r \<or> in_range 48 57 r \<or> among ''+/_=.-'' r))]"

definition jwt_part :: re where
  "jwt_part = some (Chr (\<lambda>r. word_rune r \<or> r = 45))"

definition jwt_pattern :: re where
  "jwt_pattern = seqs [WordB, jwt_part, lit ''.'', jwt_part, lit ''.'', jwt_part, WordB]"

definition email_pattern :: re where
  "email_pattern =
     seqs [WordB, some (class_fold (\<lambda>r. lower_letter r \<or> in_range 48 57 r \<or> among ''._%+-'' r)), lit ''@'',
       some (class_fold (\<lambda>r. lower_letter r \<or> in_range 48 57 r \<or> among ''.-'' r)), lit ''.'',
       class_fold lower_letter, some (class_fold lower_letter), WordB]"

definition secret_word :: re where
  "secret_word =
     alts [lit_fold ''authorization'', lit_fold ''cookie'', lit_fold ''password'', lit_fold ''passwd'',
       lit_fold ''secret'', lit_fold ''token'', lit_fold ''access_token'', lit_fold ''refresh_token'',
       seqs [lit_fold ''api'', opt (one_of ''_-''), lit_fold ''key''], lit_fold ''credential'']"

definition assigned :: re where
  "assigned = seqs [WordB, many blank, one_of '':='', many blank]"

definition line_rest :: re where
  "line_rest = some (none_of [CHR 0x0D, CHR 0x0A])"

definition secret_pair_pattern :: re where
  "secret_pair_pattern =
     seqs [WordB, Group 1 secret_word, opt (lit_fold ''s''), assigned,
       Group 2 (some (Chr (\<lambda>r. \<not> space_rune r \<and> \<not> among '',;&'' r)))]"

definition content_pattern :: re where
  "content_pattern =
     seqs [WordB, Group 1 (alts [lit_fold ''request'', lit_fold ''response'']), opt (one_of '' _-''),
       Group 2 (alts [lit_fold ''body'', lit_fold ''payload'']), assigned, line_rest]"

definition exception_pattern :: re where
  "exception_pattern =
     seqs [WordB, Group 1 (alts [lit_fold ''exception'', Seq (lit_fold ''stack'') (opt (lit_fold ''trace'')),
         Seq (lit_fold ''binding'') (opt (lit_fold ''s''))]), assigned, line_rest]"

definition absolute_url_pattern :: re where
  "absolute_url_pattern =
     seqs [lit_fold ''http'', opt (lit_fold ''s''), lit ''://'',
       some (Chr (\<lambda>r. \<not> space_rune r \<and> \<not> among [CHR 0x22, CHR 0x27, CHR ''<'', CHR ''>''] r))]"

section \<open>Scrubbing and cutting\<close>

definition redacted_mark :: string where "redacted_mark = ''[REDACTED]''"

text \<open>The replacement \<open>$1=[REDACTED]\<close>.\<close>

definition pair_replacement :: "(nat \<times> string) list \<Rightarrow> string" where
  "pair_replacement caps =
     (case map_of caps 1 of None \<Rightarrow> [] | Some name \<Rightarrow> name) @ ''=[REDACTED]''"

definition redact_log_text :: "string \<Rightarrow> string" where
  "redact_log_text raw =
     (if raw = [] then raw
      else
        let r = replace_all private_key_pattern redacted_mark raw;
            r = replace_all_func absolute_url_pattern redact_url r;
            r = replace_all auth_token_pattern redacted_mark r;
            r = replace_all jwt_pattern redacted_mark r;
            r = replace_all email_pattern redacted_mark r;
            r = replace_from secret_pair_pattern (\<lambda>_. pair_replacement) None (segments r);
            r = replace_all content_pattern redacted_mark r;
            r = replace_all exception_pattern redacted_mark r
        in r)"

text \<open>The loop that drops trailing bytes until what is left is valid UTF-8.\<close>

function drop_invalid_tail :: "string \<Rightarrow> string" where
  "drop_invalid_tail s = (if valid_utf8 s then s else drop_invalid_tail (butlast s))"
  by pat_completeness auto
termination
  by (relation "measure length") (auto simp: valid_utf8_def intro!: diff_less)

declare drop_invalid_tail.simps [simp del]

definition truncate_log_text :: "string \<Rightarrow> nat \<Rightarrow> string" where
  "truncate_log_text s n = (if length s \<le> n then s else drop_invalid_tail (take n s))"

section \<open>Sensitive log keys\<close>

definition log_key_segments :: "string list" where
  "log_key_segments = [''err'', ''error'', ''errors'', ''exception'', ''exceptions'', ''binding'', ''bindings'']"

definition is_sensitive_log_attribute_key :: "string \<Rightarrow> bool" where
  "is_sensitive_log_attribute_key key \<longleftrightarrow>
     is_sensitive_attribute_key key
     \<or> list_ex (\<lambda>segment. segment \<in> set log_key_segments) (split_on (CHR ''.'') (normalize_key key))"

section \<open>The cut keeps whole runes\<close>

lemma decode_rune_stable:
  assumes "decode_rune c cs = (r, m)" and "\<not> (r = rune_error \<and> m = 1)"
  shows "0 < m \<and> m \<le> 4 \<and> m - 1 \<le> length cs \<and> (\<forall>ys. decode_rune c (take (m - 1) cs @ ys) = (r, m))"
  using assms
  by (auto simp: decode_rune_def decode2_def decode3_def decode4_def Let_def
      split: if_splits list.splits)

lemma valid_utf8_Cons:
  assumes "decode_rune c cs = (r, m)" and "\<not> (r = rune_error \<and> m = 1)"
  shows "valid_utf8 (c # take (m - 1) cs @ ys) = valid_utf8 ys"
  using decode_rune_stable [OF assms] assms(2) by (auto simp: valid_utf8_def)

lemma valid_cut_near:
  "valid_utf8 s \<Longrightarrow> n \<le> length s \<Longrightarrow> \<exists>k. k \<le> n \<and> n \<le> k + 3 \<and> valid_utf8 (take k s)"
proof (induction s arbitrary: n rule: segments.induct)
  case 1
  then show ?case by auto
next
  case (2 c cs)
  obtain r m where d: "decode_rune c cs = (r, m)" by (cases "decode_rune c cs")
  have good: "\<not> (r = rune_error \<and> m = 1)"
  proof
    assume "r = rune_error \<and> m = 1"
    with d 2(2) show False by (simp add: valid_utf8_def)
  qed
  note st = decode_rune_stable [OF d good]
  let ?rest = "drop (m - 1) cs"
  have split: "c # cs = c # take (m - 1) cs @ ?rest" by simp
  then have v: "valid_utf8 ?rest" using 2(2) valid_utf8_Cons [OF d good, of ?rest] by simp
  show ?case
  proof (cases "n < m")
    case True
    then have "n \<le> 3" using st by simp
    then show ?thesis by (intro exI [of _ 0]) (simp add: valid_utf8_def)
  next
    case False
    have "n - m \<le> length ?rest" using 2(3) st False by simp
    then obtain k where k: "k \<le> n - m" "n - m \<le> k + 3" "valid_utf8 (take k ?rest)"
      using 2(1) [of "n - m"] v d by auto
    have "take (m + k) (c # cs) = c # take (m - 1) cs @ take k ?rest"
      using st by (cases m) (simp_all add: take_add)
    then have "valid_utf8 (take (m + k) (c # cs))"
      using k(3) valid_utf8_Cons [OF d good, of "take k ?rest"] by simp
    then show ?thesis using k False by (intro exI [of _ "m + k"]) auto
  qed
qed

lemma drop_invalid_tail_longest:
  "\<exists>k \<le> length s. drop_invalid_tail s = take k s \<and> valid_utf8 (take k s)
     \<and> (\<forall>j. k < j \<and> j \<le> length s \<longrightarrow> \<not> valid_utf8 (take j s))"
proof (induction s rule: drop_invalid_tail.induct)
  case (1 s)
  show ?case
  proof (cases "valid_utf8 s")
    case True
    then show ?thesis by (intro exI [of _ "length s"]) (simp add: drop_invalid_tail.simps)
  next
    case False
    then obtain k where k: "k \<le> length (butlast s)" "drop_invalid_tail s = take k (butlast s)"
        "valid_utf8 (take k (butlast s))"
        "\<forall>j. k < j \<and> j \<le> length (butlast s) \<longrightarrow> \<not> valid_utf8 (take j (butlast s))"
      using 1 by (auto simp: drop_invalid_tail.simps [of s])
    have t: "take j (butlast s) = take j s" if "j \<le> length (butlast s)" for j
      using that by (simp add: butlast_conv_take)
    have "\<not> valid_utf8 (take j s)" if "k < j" "j \<le> length s" for j
      using that k(4) t [of j] False by (cases "j = length s") auto
    with k t show ?thesis by (intro exI [of _ k]) auto
  qed
qed

lemma truncate_bounds:
  "length (truncate_log_text s n) \<le> n \<and> has_prefix s (truncate_log_text s n)
   \<and> (n < length s \<longrightarrow> valid_utf8 (truncate_log_text s n))
   \<and> (length s \<le> n \<longrightarrow> truncate_log_text s n = s)
   \<and> (valid_utf8 s \<and> n < length s \<longrightarrow> n \<le> length (truncate_log_text s n) + 3)"
proof (cases "length s \<le> n")
  case True
  then show ?thesis by (simp add: truncate_log_text_def has_prefix_def)
next
  case False
  obtain k where k: "k \<le> n" "drop_invalid_tail (take n s) = take k s" "valid_utf8 (take k s)"
      "\<And>j. k < j \<Longrightarrow> j \<le> n \<Longrightarrow> \<not> valid_utf8 (take j s)"
    using drop_invalid_tail_longest [of "take n s"] False by (auto simp: min_def)
  have "n \<le> k + 3" if v: "valid_utf8 s"
  proof -
    obtain j where "j \<le> n" "n \<le> j + 3" "valid_utf8 (take j s)"
      using valid_cut_near [OF v, of n] False by auto
    with k(4) [of j] show ?thesis by (cases "k < j") auto
  qed
  with False k show ?thesis by (simp add: truncate_log_text_def has_prefix_def)
qed

text \<open>
  The cut of a log text respects the byte limit and never splits a rune: the result is a prefix
  within the limit, valid UTF-8 whenever something was cut off, and for a valid text at most three
  bytes shorter than the limit allows.
\<close>
theorem log_text_cut:
  "length (truncate_log_text s n) \<le> n \<and> has_prefix s (truncate_log_text s n)
   \<and> (n < length s \<longrightarrow> valid_utf8 (truncate_log_text s n))
   \<and> (length s \<le> n \<longrightarrow> truncate_log_text s n = s)
   \<and> (valid_utf8 s \<and> n < length s \<longrightarrow> n \<le> length (truncate_log_text s n) + 3)"
  by (rule truncate_bounds)

section \<open>What the patterns miss\<close>

text \<open>
  The pair pattern wants a word boundary before the secret word and the separator right after it: a
  prefixed name, and a quoted JSON key, keep their values.
\<close>

lemma prefixed_secret_kept:
  "redact_log_text ''login password=hunter2 ok'' = ''login password=[REDACTED] ok''
   \<and> redact_log_text ''login db_password=hunter2 ok'' = ''login db_password=hunter2 ok''"
  by code_simp

lemma json_secret_kept:
  "redact_log_text (concat [[CHR 0x22], ''password'', [CHR 0x22], '':'', [CHR 0x22], ''hunter2'', [CHR 0x22]])
   = concat [[CHR 0x22], ''password'', [CHR 0x22], '':'', [CHR 0x22], ''hunter2'', [CHR 0x22]]"
  by code_simp

end
