(* ===== verification/GoTime.thy ===== *)
theory GoTime
  imports GoStrings
begin

text \<open>
  \<open>time.Time\<close> as the logs use it: an instant in seconds and nanoseconds of the Unix epoch, its count of
  nanoseconds as an \<open>int64\<close>, and its RFC 3339 text in UTC.  Dates are those of the proleptic Gregorian
  calendar.
\<close>

record go_time =
  gt_sec :: int
  gt_nsec :: int

text \<open>The zero time is January 1 of the year 1.\<close>

definition time_is_zero :: "go_time \<Rightarrow> bool" where
  "time_is_zero t \<longleftrightarrow> gt_sec t = - 62135596800 \<and> gt_nsec t = 0"

definition unix_nano :: "go_time \<Rightarrow> int64" where
  "unix_nano t = wrap64 (gt_sec t * 10 ^ 9 + gt_nsec t)"

definition time_of_unix_nano :: "int64 \<Rightarrow> go_time" where
  "time_of_unix_nano n = \<lparr>gt_sec = n div 10 ^ 9, gt_nsec = n mod 10 ^ 9\<rparr>"

lemma unix_nano_of [simp]: "in64 n \<Longrightarrow> unix_nano (time_of_unix_nano n) = n"
  by (simp add: unix_nano_def time_of_unix_nano_def int64_simps)

section \<open>The calendar\<close>

text \<open>
  \<open>absDate\<close>: days since January 1 of the year 1, in cycles of 400, 100, 4 and 1 years; the last year
  of a cycle may have one day more than its share, hence the corrections by a quarter.
\<close>

definition is_leap :: "int \<Rightarrow> bool" where
  "is_leap year \<longleftrightarrow> year mod 4 = 0 \<and> (year mod 100 \<noteq> 0 \<or> year mod 400 = 0)"

definition year_day :: "int \<Rightarrow> int \<times> int" where
  "year_day days =
     (let d = days + 719162;
          n400 = d div 146097; d = d mod 146097;
          n100 = d div 36524; n100 = n100 - n100 div 4; d = d - 36524 * n100;
          n4 = d div 1461; d = d - 1461 * n4;
          n1 = d div 365; n1 = n1 - n1 div 4; d = d - 365 * n1
      in (400 * n400 + 100 * n100 + 4 * n4 + n1 + 1, d))"

definition month_lengths :: "int \<Rightarrow> int list" where
  "month_lengths year = [31, if is_leap year then 29 else 28, 31, 30, 31, 30, 31, 31, 30, 31, 30, 31]"

fun month_of :: "int \<Rightarrow> int list \<Rightarrow> int \<Rightarrow> int \<times> int" where
  "month_of m [] d = (m, d + 1)"
| "month_of m (len # rest) d = (if d < len then (m, d + 1) else month_of (m + 1) rest (d - len))"

definition civil_from_days :: "int \<Rightarrow> int \<times> int \<times> int" where
  "civil_from_days days =
     (let (year, yday) = year_day days; (month, day) = month_of 1 (month_lengths year) yday
      in (year, month, day))"

section \<open>RFC 3339 in UTC\<close>

definition pad_int :: "nat \<Rightarrow> int \<Rightarrow> string" where
  "pad_int n v =
     (let ds = dec_digits (nat (abs v)); padded = replicate (n - length ds) (CHR ''0'') @ ds
      in if v < 0 then CHR ''-'' # padded else padded)"

text \<open>The fraction: nine digits without the trailing zeros, and nothing for a whole second.\<close>

definition frac_nano :: "int \<Rightarrow> string" where
  "frac_nano nsec =
     (let ds = rev (dropWhile (\<lambda>c. c = CHR ''0'') (rev (pad_int 9 nsec)))
      in if ds = [] then [] else CHR ''.'' # ds)"

definition rfc3339_nano :: "go_time \<Rightarrow> string" where
  "rfc3339_nano t =
     (let days = gt_sec t div 86400; sod = gt_sec t mod 86400;
          (y, m, d) = civil_from_days days
      in pad_int 4 y @ ''-'' @ pad_int 2 m @ ''-'' @ pad_int 2 d @ ''T''
         @ pad_int 2 (sod div 3600) @ '':'' @ pad_int 2 (sod mod 3600 div 60) @ '':'' @ pad_int 2 (sod mod 60)
         @ frac_nano (gt_nsec t) @ ''Z'')"

text \<open>A leap day, the last day of a 400-year cycle, and the zero time.\<close>

lemma rfc3339_examples:
  "rfc3339_nano \<lparr>gt_sec = 1709210096, gt_nsec = 120000000\<rparr> = ''2024-02-29T12:34:56.12Z''"
  "rfc3339_nano \<lparr>gt_sec = 978220800, gt_nsec = 0\<rparr> = ''2000-12-31T00:00:00Z''"
  "rfc3339_nano \<lparr>gt_sec = - 62135596800, gt_nsec = 0\<rparr> = ''0001-01-01T00:00:00Z''"
  by code_simp+

end
