(* ===== verification/Logs.thy ===== *)
theory Logs
  imports LogText GoTime Middleware
begin

text \<open>
  The handler side of \<open>logs.go\<close>: the \<open>slog.Handler\<close> that sends a redacted copy of every qualifying
  record and hands the original on to the application's own handler.
\<close>

section \<open>The wire records\<close>

record log_record_data =
  lr_time :: string
  lr_observed_time :: string
  lr_severity_number :: int
  lr_severity_text :: string
  lr_body :: any_value
  lr_attributes :: "key_value list"
  lr_dropped_count :: int
  lr_flags :: "int option"
  lr_trace_id :: string
  lr_span_id :: string

record scope_logs =
  sl_scope :: scope
  sl_records :: "log_record_data list"

record resource_logs =
  rlg_resource :: resource
  rlg_scope_logs :: "scope_logs list"

record logs_request =
  lg_resource_logs :: "resource_logs list"

definition build_logs_payload :: "string \<Rightarrow> string \<Rightarrow> log_record_data list \<Rightarrow> logs_request" where
  "build_logs_payload service_name environment records =
     \<lparr>lg_resource_logs =
        [\<lparr>rlg_resource = \<lparr>rc_attributes = resource_attributes service_name environment\<rparr>,
          rlg_scope_logs =
            [\<lparr>sl_scope = \<lparr>sc_name = sdk_name, sc_version = sdk_version\<rparr>, sl_records = records\<rparr>]\<rparr>]\<rparr>"

text \<open>The records of a request, as a receiver reads them off.\<close>

definition request_records :: "logs_request \<Rightarrow> log_record_data list" where
  "request_records p =
     concat (map (\<lambda>r. concat (map sl_records (rlg_scope_logs r))) (lg_resource_logs p))"

lemma request_records_build [simp]: "request_records (build_logs_payload s e rs) = rs"
  by (simp add: request_records_def build_logs_payload_def)

section \<open>Severities and limits\<close>

definition severity_debug :: int where [const_defs]: "severity_debug = 5"
definition severity_info :: int where [const_defs]: "severity_info = 9"
definition severity_warn :: int where [const_defs]: "severity_warn = 13"
definition severity_error :: int where [const_defs]: "severity_error = 17"
definition severity_error2 :: int where [const_defs]: "severity_error2 = 18"
definition severity_fatal :: int where [const_defs]: "severity_fatal = 21"
definition max_log_body_bytes :: nat where [const_defs]: "max_log_body_bytes = 8192"
definition max_log_attr_bytes :: nat where [const_defs]: "max_log_attr_bytes = 2048"
definition max_log_attributes :: nat where [const_defs]: "max_log_attributes = 64"
definition max_log_group_depth :: nat where [const_defs]: "max_log_group_depth = 8"

text \<open>\<open>slog.LevelInfo\<close>, \<open>LevelWarn\<close> and \<open>LevelError\<close> are 0, 4 and 8.\<close>

definition slog_severity :: "int \<Rightarrow> int \<times> string" where
  "slog_severity level =
     (if level < 0 then (severity_debug, ''DEBUG'')
      else if level < 4 then (severity_info, ''INFO'')
      else if level < 8 then (severity_warn, ''WARN'')
      else if level < 8 + 4 then (severity_error, ''ERROR'')
      else if level < 8 + 8 then (severity_error2, ''ERROR2'')
      else (severity_fatal, ''FATAL''))"

section \<open>slog values\<close>

text \<open>
  What a \<open>KindAny\<close> value holds matters only as far as the type switch looks at it.  A \<open>LogValuer\<close> is
  an object of the application: an identity, with what its method answers (\<^const>\<open>None\<close> when it panics)
  given by the parameter \<open>vf\<close> of the functions below.
\<close>

datatype any_kind = AnyString string | AnyTime go_time | AnyDuration int64 | AnyOther

datatype slog_value =
  SString string
| SBool bool
| SInt64 int64
| SUint64 nat
| SFloat64 f64
| SDuration int64
| STime go_time
| SAny any_kind
| SGroup "slog_attr list"
| SValuer nat
and slog_attr = Attr string slog_value

type_synonym valuers = "nat \<Rightarrow> slog_value option"

text \<open>
  \<open>Value.Resolve\<close> calls \<open>LogValue\<close> at most a hundred times; a panic, or one call too many, gives an
  error value.
\<close>

fun resolve :: "valuers \<Rightarrow> nat \<Rightarrow> slog_value \<Rightarrow> slog_value" where
  "resolve vf 0 v = SAny AnyOther"
| "resolve vf (Suc n) v =
     (case v of
        SValuer i \<Rightarrow> (case vf i of None \<Rightarrow> SAny AnyOther | Some v' \<Rightarrow> resolve vf n v')
      | _ \<Rightarrow> v)"

definition resolve_value :: "valuers \<Rightarrow> slog_value \<Rightarrow> slog_value" where
  "resolve_value vf v = resolve vf 100 v"

fun log_any_value :: "slog_value \<Rightarrow> any_value option" where
  "log_any_value (SString s) = Some (string_value (truncate_log_text (redact_log_text s) max_log_attr_bytes))"
| "log_any_value (SBool b) = Some (bool_value b)"
| "log_any_value (SInt64 i) = Some (int_value i)"
| "log_any_value (SUint64 n) =
     (if int n \<le> max_int64 then Some (int_value (int n)) else Some (string_value (dec_digits n)))"
| "log_any_value (SFloat64 d) = Some (double_value d)"
| "log_any_value (SDuration d) = Some (int_value d)"
| "log_any_value (STime t) = Some (string_value (rfc3339_nano t))"
| "log_any_value (SAny k) =
     (case k of
        AnyString s \<Rightarrow> Some (string_value (truncate_log_text (redact_log_text s) max_log_attr_bytes))
      | AnyTime t \<Rightarrow> Some (string_value (rfc3339_nano t))
      | AnyDuration d \<Rightarrow> Some (int_value d)
      | AnyOther \<Rightarrow> None)"
| "log_any_value (SGroup as) = None"
| "log_any_value (SValuer i) = None"

text \<open>One attribute, its group's members included: the list of exported attributes and the count of dropped ones.\<close>

type_synonym attr_acc = "key_value list \<times> int"

function append_log_attr :: "valuers \<Rightarrow> string list \<Rightarrow> slog_attr \<Rightarrow> nat \<Rightarrow> attr_acc \<Rightarrow> attr_acc" where
  "append_log_attr vf groups (Attr name v) depth (out, dropped) =
     (if depth > max_log_group_depth then (out, dropped + 1)
      else
        (case resolve_value vf v of
           SGroup children \<Rightarrow>
             (let next_groups = (if name \<noteq> [] then groups @ [name] else groups)
              in fold (\<lambda>child acc. append_log_attr vf next_groups child (Suc depth) acc) children (out, dropped))
         | value \<Rightarrow>
             if name = [] \<or> length out \<ge> max_log_attributes then (out, dropped + 1)
             else
               (let key = join_with ''.'' (groups @ [name]) in
                if length key > 256 \<or> is_sensitive_log_attribute_key key then (out, dropped + 1)
                else
                  (case log_any_value value of
                     None \<Rightarrow> (out, dropped + 1)
                   | Some converted \<Rightarrow> (out @ [\<lparr>kv_key = key, kv_value = converted\<rparr>], dropped)))))"
  by pat_completeness auto
termination
  by (relation "measure (\<lambda>(vf, groups, attr, depth, acc). Suc max_log_group_depth - depth)") auto

declare append_log_attr.simps [simp del]

section \<open>The handler\<close>

record slog_record =
  sr_time :: go_time
  sr_level :: int
  sr_message :: string
  sr_attrs :: "slog_attr list"

text \<open>The application's own handler: an object of type \<open>'h\<close> with the four methods of the interface.\<close>

record 'h host_handler =
  hh_enabled :: "'h \<Rightarrow> int \<Rightarrow> bool"
  hh_handle :: "'h \<Rightarrow> slog_record \<Rightarrow> string option outcome"
  hh_with_attrs :: "'h \<Rightarrow> slog_attr list \<Rightarrow> 'h"
  hh_with_group :: "'h \<Rightarrow> string \<Rightarrow> 'h"

record 'h slog_handler =
  sh_next :: "'h option"
  sh_transport :: "iface option"
  sh_enabled :: bool
  sh_min_severity :: int
  sh_service_name :: string
  sh_environment :: string
  sh_attrs :: "slog_attr list"
  sh_groups :: "string list"

text \<open>
  A transport is an identity; the null transport and the handle's logs transport are two of them.
\<close>

definition new_slog_handler ::
  "iface \<Rightarrow> (config \<times> iface option) option \<Rightarrow> 'h option \<Rightarrow> 'h slog_handler" where
  "new_slog_handler null_transport rl nxt =
     (let h = \<lparr>sh_next = nxt, sh_transport = Some null_transport, sh_enabled = False,
               sh_min_severity = severity_warn, sh_service_name = [], sh_environment = [],
               sh_attrs = [], sh_groups = []\<rparr>
      in case rl of
           None \<Rightarrow> h
         | Some (cfg, logs_transport) \<Rightarrow>
             h\<lparr>sh_transport := (case logs_transport of None \<Rightarrow> Some null_transport | Some t \<Rightarrow> Some t),
               sh_enabled := cf_logs cfg \<and> config_enabled cfg,
               sh_min_severity := cf_logs_min_severity cfg,
               sh_service_name := cf_service_name cfg,
               sh_environment := cf_environment cfg\<rparr>)"

text \<open>\<open>clone\<close>: copies of both slices, so that an append to the copy never writes into the original's arrays.\<close>

definition clone_handler :: "'h slog_handler \<Rightarrow> 'h slog_handler" where
  "clone_handler h = h\<lparr>sh_attrs := [] @ sh_attrs h, sh_groups := [] @ sh_groups h\<rparr>"

definition handler_enabled :: "'h host_handler \<Rightarrow> 'h slog_handler \<Rightarrow> int \<Rightarrow> bool" where
  "handler_enabled hh h level =
     (let capture = sh_enabled h \<and> fst (slog_severity level) \<ge> sh_min_severity h
      in case sh_next h of None \<Rightarrow> capture | Some n \<Rightarrow> capture \<or> hh_enabled hh n level)"

definition with_attrs :: "'h host_handler \<Rightarrow> 'h slog_handler \<Rightarrow> slog_attr list \<Rightarrow> 'h slog_handler" where
  "with_attrs hh h attrs =
     (let copy = clone_handler h
      in copy\<lparr>sh_attrs := sh_attrs copy @ attrs, sh_next := map_option (\<lambda>n. hh_with_attrs hh n attrs) (sh_next h)\<rparr>)"

definition with_group :: "'h host_handler \<Rightarrow> 'h slog_handler \<Rightarrow> string \<Rightarrow> 'h slog_handler" where
  "with_group hh h name =
     (if name = [] then h
      else
        (let copy = clone_handler h
         in copy\<lparr>sh_groups := sh_groups copy @ [name],
                 sh_next := map_option (\<lambda>n. hh_with_group hh n name) (sh_next h)\<rparr>))"

definition record_attributes :: "valuers \<Rightarrow> 'h slog_handler \<Rightarrow> slog_record \<Rightarrow> attr_acc" where
  "record_attributes vf h r =
     (let append_attr = (\<lambda>a acc. append_log_attr vf (sh_groups h) a 0 acc)
      in fold append_attr (sr_attrs r) (fold append_attr (sh_attrs h) ([], 0)))"

definition valid_correlation_id :: "string \<Rightarrow> nat \<Rightarrow> bool" where
  "valid_correlation_id value n \<longleftrightarrow> length value = n \<and> is_hex value \<and> \<not> is_all_zero_hex value"

definition log_record_of ::
  "valuers \<Rightarrow> 'h slog_handler \<Rightarrow> ctx option \<Rightarrow> slog_record \<Rightarrow> world \<Rightarrow> log_record_data \<times> world" where
  "log_record_of vf h c r w =
     (let (observed, w1) = now_ns w;
          observed_time = time_of_unix_nano observed;
          event_time = (if time_is_zero (sr_time r) then observed_time else sr_time r);
          (attrs, dropped) = record_attributes vf h r;
          rec = \<lparr>lr_time = format_int (unix_nano event_time),
                 lr_observed_time = format_int (unix_nano observed_time),
                 lr_severity_number = fst (slog_severity (sr_level r)),
                 lr_severity_text = snd (slog_severity (sr_level r)),
                 lr_body = string_value (truncate_log_text (redact_log_text (sr_message r)) max_log_body_bytes),
                 lr_attributes = attrs, lr_dropped_count = dropped, lr_flags = None,
                 lr_trace_id = [], lr_span_id = []\<rparr>;
          trace_id = current_trace_id c w1;
          span_id = current_span_id c w1
      in (if valid_correlation_id trace_id 32 \<and> valid_correlation_id span_id 16
          then rec\<lparr>lr_trace_id := trace_id, lr_span_id := span_id, lr_flags := Some (fst (current_trace_flags c w1))\<rparr>
          else rec, w1))"

text \<open>
  The capture: the payload handed to a transport's \<open>SendLogs\<close>, if any.  Whatever the transport does,
  a panic included, ends in the deferred recover.
\<close>

definition capture_safely ::
  "valuers \<Rightarrow> 'h slog_handler \<Rightarrow> ctx option \<Rightarrow> slog_record \<Rightarrow> world \<Rightarrow> (iface \<times> logs_request) option \<times> world" where
  "capture_safely vf h c r w =
     (case sh_transport h of
        None \<Rightarrow> (None, w)
      | Some t \<Rightarrow>
          if \<not> sh_enabled h then (None, w)
          else if fst (slog_severity (sr_level r)) < sh_min_severity h then (None, w)
          else
            (let (rec, w1) = log_record_of vf h c r w
             in (Some (t, build_logs_payload (sh_service_name h) (sh_environment h) [rec]), w1)))"

definition handle ::
  "'h host_handler \<Rightarrow> valuers \<Rightarrow> 'h slog_handler \<Rightarrow> ctx option \<Rightarrow> slog_record \<Rightarrow> world
   \<Rightarrow> string option outcome \<times> (iface \<times> logs_request) option \<times> world" where
  "handle hh vf h c r w =
     (let (sent, w1) = capture_safely vf h c r w
      in (case sh_next h of
            None \<Rightarrow> Return None
          | Some n \<Rightarrow> if hh_enabled hh n (sr_level r) then hh_handle hh n r else Return None,
          sent, w1))"

section \<open>Attributes: flatten, filter, take\<close>

text \<open>
  The reference reading of the attribute loop: the leaves of the groups in order, each with its path,
  its key and its resolved value (\<^const>\<open>None\<close> for what lies deeper than the limit).
\<close>

type_synonym leaf = "(string list \<times> string \<times> slog_value) option"

function leaves :: "valuers \<Rightarrow> string list \<Rightarrow> slog_attr \<Rightarrow> nat \<Rightarrow> leaf list" where
  "leaves vf groups (Attr name v) depth =
     (if depth > max_log_group_depth then [None]
      else
        (case resolve_value vf v of
           SGroup children \<Rightarrow>
             concat (map (\<lambda>child. leaves vf (if name \<noteq> [] then groups @ [name] else groups) child (Suc depth)) children)
         | value \<Rightarrow> [Some (groups, name, value)]))"
  by pat_completeness auto
termination
  by (relation "measure (\<lambda>(vf, groups, attr, depth). Suc max_log_group_depth - depth)") auto

declare leaves.simps [simp del]

definition keep_leaf :: "leaf \<Rightarrow> key_value option" where
  "keep_leaf l =
     (case l of
        None \<Rightarrow> None
      | Some (groups, name, value) \<Rightarrow>
          (let key = join_with ''.'' (groups @ [name]) in
           if name = [] \<or> length key > 256 \<or> is_sensitive_log_attribute_key key then None
           else map_option (\<lambda>v. \<lparr>kv_key = key, kv_value = v\<rparr>) (log_any_value value)))"

definition add_leaf :: "leaf \<Rightarrow> attr_acc \<Rightarrow> attr_acc" where
  "add_leaf l acc =
     (case keep_leaf l of
        None \<Rightarrow> (fst acc, snd acc + 1)
      | Some kv \<Rightarrow> if length (fst acc) \<ge> max_log_attributes then (fst acc, snd acc + 1) else (fst acc @ [kv], snd acc))"

lemma append_log_attr_leaves:
  "append_log_attr vf groups a depth acc = fold add_leaf (leaves vf groups a depth) acc"
proof (induction vf groups a depth arbitrary: acc rule: leaves.induct)
  case (1 vf groups name v depth)
  have step: "fold (\<lambda>child acc. append_log_attr vf gs child (Suc depth) acc) cs acc
      = fold add_leaf (concat (map (\<lambda>child. leaves vf gs child (Suc depth)) cs)) acc"
    if "\<And>x acc. x \<in> set cs \<Longrightarrow> append_log_attr vf gs x (Suc depth) acc = fold add_leaf (leaves vf gs x (Suc depth)) acc"
    for gs cs acc
    using that by (induction cs arbitrary: acc) auto
  obtain out dropped where acc: "acc = (out, dropped)" by (cases acc)
  show ?case
  proof (cases "depth > max_log_group_depth")
    case True
    then show ?thesis
      by (simp add: acc append_log_attr.simps [of vf groups name v] leaves.simps [of vf groups name v]
          add_leaf_def keep_leaf_def)
  next
    case False
    then show ?thesis
    proof (cases "resolve_value vf v")
      case (SGroup cs)
      with False 1 [OF False SGroup] show ?thesis
        by (simp add: acc append_log_attr.simps [of vf groups name v] leaves.simps [of vf groups name v] Let_def step)
    qed (auto simp: acc append_log_attr.simps [of vf groups name v] leaves.simps [of vf groups name v]
        add_leaf_def keep_leaf_def Let_def split: option.splits any_kind.splits)
  qed
qed

lemma fold_add_leaf:
  assumes "length out \<le> max_log_attributes"
  shows "fold add_leaf ls (out, d)
     = (take max_log_attributes (out @ List.map_filter keep_leaf ls),
        d + int (length out + length ls
             - length (take max_log_attributes (out @ List.map_filter keep_leaf ls))))"
  using assms
proof (induction ls arbitrary: out d)
  case Nil
  then show ?case by (simp add: map_filter_simps)
next
  case (Cons l ls)
  let ?m = "List.map_filter keep_leaf ls"
  have le: "length ?m \<le> length ls"
    by (induction ls) (auto simp: map_filter_simps split: option.splits)
  show ?case
  proof (cases "keep_leaf l")
    case None
    then show ?thesis
      using Cons le by (auto simp: add_leaf_def map_filter_simps of_nat_diff)
  next
    case (Some kv)
    show ?thesis
    proof (cases "length out < max_log_attributes")
      case True
      then show ?thesis
        using Cons.IH [of "out @ [kv]" d] Some by (simp add: add_leaf_def map_filter_simps)
    next
      case False
      then have "length out = max_log_attributes" using Cons.prems by simp
      then show ?thesis
        using Cons.IH [of out "d + 1"] Some by (simp add: add_leaf_def map_filter_simps)
    qed
  qed
qed

definition record_leaves :: "valuers \<Rightarrow> 'h slog_handler \<Rightarrow> slog_record \<Rightarrow> leaf list" where
  "record_leaves vf h r = concat (map (\<lambda>a. leaves vf (sh_groups h) a 0) (sh_attrs h @ sr_attrs r))"

lemma log_attrs_taken:
  "record_attributes vf h r =
     (take max_log_attributes (List.map_filter keep_leaf (record_leaves vf h r)),
      int (length (record_leaves vf h r)
           - length (take max_log_attributes (List.map_filter keep_leaf (record_leaves vf h r)))))"
proof -
  have "fold (\<lambda>a acc. append_log_attr vf gs a 0 acc) as acc
      = fold add_leaf (concat (map (\<lambda>a. leaves vf gs a 0) as)) acc" for gs as acc
    by (induction as arbitrary: acc) (simp_all add: append_log_attr_leaves)
  then have "record_attributes vf h r = fold add_leaf (record_leaves vf h r) ([], 0)"
    by (simp add: record_attributes_def record_leaves_def)
  then show ?thesis by (simp add: fold_add_leaf)
qed

text \<open>
  C34: the attribute loop is flatten, filter, take: of the leaves of the handler's and the record's
  groups, in order, the exported ones are the first sixty-four that pass the key and value rules, and
  the dropped count accounts for every other leaf.
\<close>
theorem log_attrs_reference:
  "record_attributes vf h r =
     (take max_log_attributes (List.map_filter keep_leaf (record_leaves vf h r)),
      int (length (record_leaves vf h r)
           - length (take max_log_attributes (List.map_filter keep_leaf (record_leaves vf h r)))))"
  by (rule log_attrs_taken)

section \<open>What leaves the process\<close>

text \<open>An attribute value: exactly one field, and a text only cut to its limit or of a time or a number.\<close>

definition log_text_ok :: "string \<Rightarrow> bool" where
  "log_text_ok s \<longleftrightarrow> length s \<le> max_log_attr_bytes \<or> (\<exists>t. s = rfc3339_nano t) \<or> (\<exists>n. s = dec_digits n)"

definition log_attr_ok :: "key_value \<Rightarrow> bool" where
  "log_attr_ok kv \<longleftrightarrow>
     kv_key kv \<noteq> [] \<and> length (kv_key kv) \<le> 256 \<and> \<not> is_sensitive_log_attribute_key (kv_key kv)
     \<and> one_field (kv_value kv) \<and> (\<forall>s. av_string (kv_value kv) = Some s \<longrightarrow> log_text_ok s)"

definition log_ids_ok :: "log_record_data \<Rightarrow> bool" where
  "log_ids_ok d \<longleftrightarrow>
     (if lr_trace_id d = [] then lr_span_id d = [] \<and> lr_flags d = None
      else valid_correlation_id (lr_trace_id d) 32 \<and> valid_correlation_id (lr_span_id d) 16 \<and> lr_flags d \<noteq> None)"

lemma value_string [simp]:
  "av_string (string_value s) = Some s" "av_string (int_value i) = None" "av_string (bool_value b) = None"
  "av_string (double_value d) = None"
  by (simp_all add: string_value_def int_value_def bool_value_def double_value_def empty_value_def)

lemma log_text_cut_le: "length (truncate_log_text s n) \<le> n"
  using truncate_bounds by blast

lemma log_any_value_ok:
  "log_any_value v = Some x \<Longrightarrow> one_field x \<and> (\<forall>s. av_string x = Some s \<longrightarrow> log_text_ok s)"
  by (induction v rule: log_any_value.induct)
    (auto simp: log_text_ok_def log_text_cut_le split: if_splits any_kind.splits)

lemma join_with_nonempty: "x \<noteq> [] \<Longrightarrow> join_with sep (xs @ [x]) \<noteq> []"
proof (induction xs)
  case (Cons a xs)
  then show ?case by (cases xs) auto
qed simp

lemma keep_leaf_ok: "keep_leaf l = Some kv \<Longrightarrow> log_attr_ok kv"
  by (auto simp: keep_leaf_def log_attr_ok_def Let_def log_any_value_ok join_with_nonempty
      split: option.splits prod.splits if_splits)

lemma kept_leaves_ok: "list_all log_attr_ok (List.map_filter keep_leaf ls)"
  by (induction ls) (auto simp: map_filter_simps keep_leaf_ok split: option.splits)

lemma record_attributes_kept:
  "record_attributes vf h r = (attrs, dropped) \<Longrightarrow> length attrs \<le> max_log_attributes \<and> list_all log_attr_ok attrs"
  using kept_leaves_ok [of "record_leaves vf h r"]
  by (auto simp: log_attrs_taken list_all_iff dest!: in_set_takeD)

lemma log_record_of_fields:
  assumes "log_record_of vf h c r w = (d, w')"
  shows "lr_severity_number d = fst (slog_severity (sr_level r))"
    and "lr_body d = string_value (truncate_log_text (redact_log_text (sr_message r)) max_log_body_bytes)"
    and "(lr_attributes d, lr_dropped_count d) = record_attributes vf h r"
    and "log_ids_ok d"
    and "lr_trace_id d = (if valid_correlation_id (current_trace_id c w) 32 \<and> valid_correlation_id (current_span_id c w) 16
           then current_trace_id c w else [])"
    and "lr_span_id d = (if valid_correlation_id (current_trace_id c w) 32 \<and> valid_correlation_id (current_span_id c w) 16
           then current_span_id c w else [])"
    and "lr_trace_id d \<noteq> [] \<Longrightarrow> lr_flags d = Some (fst (current_trace_flags c w))"
proof -
  have q: "request_of c (snd (now_ns w)) = request_of c w"
    using same_record_request [OF same_record_now] .
  have ids: "current_trace_id c (snd (now_ns w)) = current_trace_id c w"
      "current_span_id c (snd (now_ns w)) = current_span_id c w"
      "current_trace_flags c (snd (now_ns w)) = current_trace_flags c w"
    by (simp_all add: current_trace_id_def current_span_id_def current_trace_flags_def q)
  obtain attrs dropped where a: "record_attributes vf h r = (attrs, dropped)" by fastforce
  note facts = assms [unfolded log_record_of_def Let_def split_beta a fst_conv snd_conv ids, THEN sym]
  show "lr_severity_number d = fst (slog_severity (sr_level r))"
    "lr_body d = string_value (truncate_log_text (redact_log_text (sr_message r)) max_log_body_bytes)"
    "(lr_attributes d, lr_dropped_count d) = record_attributes vf h r" "log_ids_ok d"
    "lr_trace_id d = (if valid_correlation_id (current_trace_id c w) 32 \<and> valid_correlation_id (current_span_id c w) 16
           then current_trace_id c w else [])"
    "lr_span_id d = (if valid_correlation_id (current_trace_id c w) 32 \<and> valid_correlation_id (current_span_id c w) 16
           then current_span_id c w else [])"
    "lr_trace_id d \<noteq> [] \<Longrightarrow> lr_flags d = Some (fst (current_trace_flags c w))"
    using facts by (auto simp: a log_ids_ok_def valid_correlation_id_def split: if_splits)
qed

lemma capture_sends:
  "capture_safely vf h c r w = (Some (t, p), w') \<longleftrightarrow>
     sh_transport h = Some t \<and> sh_enabled h \<and> sh_min_severity h \<le> fst (slog_severity (sr_level r))
     \<and> (\<exists>d. log_record_of vf h c r w = (d, w')
          \<and> p = build_logs_payload (sh_service_name h) (sh_environment h) [d])"
  by (cases "log_record_of vf h c r w") (auto simp: capture_safely_def split: option.splits if_splits)

lemma capture_shape:
  assumes "capture_safely vf h c r w = (Some (t, p), w')"
  shows "\<exists>d. request_records p = [d] \<and> sh_min_severity h \<le> lr_severity_number d
    \<and> (\<exists>body. lr_body d = string_value body \<and> length body \<le> max_log_body_bytes)
    \<and> length (lr_attributes d) \<le> max_log_attributes \<and> list_all log_attr_ok (lr_attributes d) \<and> log_ids_ok d"
proof -
  obtain d where d: "log_record_of vf h c r w = (d, w')" "sh_min_severity h \<le> fst (slog_severity (sr_level r))"
      "p = build_logs_payload (sh_service_name h) (sh_environment h) [d]"
    using assms by (auto simp: capture_sends)
  note f = log_record_of_fields [OF d(1)]
  show ?thesis
    using d(2,3) f(1,2,4) record_attributes_kept [OF f(3) [symmetric]] log_text_cut_le
    by (intro exI [of _ d]) auto
qed


text \<open>
  C24: a log record written inside a request of an enabled SDK carries that request's trace id, its root
  span's id and its sampling flag; outside of one it carries none.
\<close>
theorem log_carries_request:
  assumes "run acts (fresh_sdk rng clock) = Some s"
    and "capture_safely vf h c r (sdk_world s) = (Some (t, p), w')"
  shows "\<exists>d. request_records p = [d]
    \<and> (case request_of c (sdk_world s) of
         None \<Rightarrow> lr_trace_id d = [] \<and> lr_span_id d = [] \<and> lr_flags d = None
       | Some (a, st) \<Rightarrow>
           if rs_enabled st
           then lr_trace_id d = rs_trace_id st \<and> lr_span_id d = rs_root_span_id st
             \<and> lr_flags d = Some (if rs_sampled st then 1 else 0)
           else lr_trace_id d = [] \<and> lr_span_id d = [] \<and> lr_flags d = None)"
proof -
  obtain d where d: "log_record_of vf h c r (sdk_world s) = (d, w')"
      and p: "p = build_logs_payload (sh_service_name h) (sh_environment h) [d]"
    using assms(2) by (auto simp: capture_sends)
  note f = log_record_of_fields [OF d]
  have none: "lr_trace_id d = [] \<and> lr_span_id d = [] \<and> lr_flags d = None" if "current_trace_id c (sdk_world s) = []"
    using f(4,5) that by (auto simp: log_ids_ok_def valid_correlation_id_def)
  have some: "lr_trace_id d = rs_trace_id st \<and> lr_span_id d = rs_root_span_id st
      \<and> lr_flags d = Some (if rs_sampled st then 1 else 0)"
    if q: "request_of c (sdk_world s) = Some (a, st)" and en: "rs_enabled st" for a st
  proof -
    have "request_ok st"
      using run_ok [OF assms(1)] world_request [OF _ q] by (simp add: sdk_ok_def)
    then have "valid_id 32 (rs_trace_id st)" "valid_id 16 (rs_root_span_id st)" by (simp_all add: request_ok_def)
    then have v: "valid_correlation_id (rs_trace_id st) 32" "valid_correlation_id (rs_root_span_id st) 16"
      by (simp_all add: valid_id_def valid_correlation_id_def)
    then have "rs_trace_id st \<noteq> []" by (auto simp: valid_correlation_id_def)
    then show ?thesis
      using f(5,6,7) q en v by (auto simp: current_trace_id_def current_span_id_def current_trace_flags_def)
  qed
  show ?thesis
    using none some p
    by (intro exI [of _ d]) (auto simp: current_trace_id_def split: option.splits)
qed

text \<open>
  The slog handler and the application's own compose: Enabled answers true exactly when Handle would
  export the record or the application's handler wants it, and Handle's answer is the application
  handler's own (no error without one), whatever the capture did.
\<close>
theorem log_handler_composes:
  assumes "sh_transport h \<noteq> None"
  shows "(handler_enabled hh h (sr_level r) \<longleftrightarrow>
       fst (capture_safely vf h c r w) \<noteq> None
       \<or> (\<exists>n. sh_next h = Some n \<and> hh_enabled hh n (sr_level r)))
    \<and> fst (handle hh vf h c r w)
      = (case sh_next h of
           None \<Rightarrow> Return None
         | Some n \<Rightarrow> if hh_enabled hh n (sr_level r) then hh_handle hh n r else Return None)
    \<and> fst (snd (handle hh vf h c r w)) = fst (capture_safely vf h c r w)"
  using assms
  by (auto simp: handler_enabled_def handle_def capture_safely_def split_beta Let_def split: option.splits)

section \<open>At work\<close>

definition demo_host :: "unit host_handler" where
  "demo_host = \<lparr>hh_enabled = (\<lambda>_ level. 8 \<le> level), hh_handle = (\<lambda>_ _. Return (Some ''disk full'')),
     hh_with_attrs = (\<lambda>n _. n), hh_with_group = (\<lambda>n _. n)\<rparr>"

definition demo_log_handler :: "unit slog_handler" where
  "demo_log_handler = \<lparr>sh_next = Some (), sh_transport = Some 9, sh_enabled = True, sh_min_severity = severity_warn,
     sh_service_name = ''svc'', sh_environment = ''test'', sh_attrs = [], sh_groups = []\<rparr>"

definition demo_log :: slog_record where
  "demo_log = \<lparr>sr_time = \<lparr>gt_sec = 1, gt_nsec = 5\<rparr>, sr_level = 8, sr_message = ''lost'',
     sr_attrs = [Attr ''user'' (SInt64 7), Attr ''password'' (SString ''x''), Attr [] (SBool True)]\<rparr>"

lemma demo_capture:
  "\<exists>p w'. capture_safely vf demo_log_handler c demo_log w = (Some (9, p), w')"
  by (simp add: capture_safely_def demo_log_handler_def demo_log_def slog_severity_def split_beta const_defs)


lemma log_carries_request_witness:
  "\<exists>p d. request_records p = [d] \<and> lr_trace_id d = demo_trace_id \<and> lr_span_id d = demo_span_id
     \<and> lr_flags d = Some 1"
proof -
  obtain s st where r: "run demo_acts (fresh_sdk demo_rng demo_clock) = Some s"
    and q: "request_of demo_ctx (sdk_world s) = Some (0, st)" "rs_sampled st" "rs_trace_id st = demo_trace_id"
      "rs_root_span_id st = demo_span_id"
    using demo_open by blast
  have "request_ok st" using run_ok [OF r] world_request [OF _ q(1)] by (simp add: sdk_ok_def)
  then have en: "rs_enabled st" using q(2) unfolding request_ok_def by blast
  obtain p w' where c: "capture_safely (\<lambda>_. None) demo_log_handler demo_ctx demo_log (sdk_world s) = (Some (9, p), w')"
    using demo_capture by blast
  from log_carries_request [OF r c] q en show ?thesis by auto
qed

lemma log_handler_composes_witness:
  "handler_enabled demo_host demo_log_handler (sr_level demo_log)
   \<and> fst (handle demo_host (\<lambda>_. None) demo_log_handler None demo_log (sdk_world demo_sdk)) = Return (Some ''disk full'')"
proof -
  have "sh_transport demo_log_handler \<noteq> None" by (simp add: demo_log_handler_def)
  from log_handler_composes [OF this, of demo_host demo_log "\<lambda>_. None" None "sdk_world demo_sdk"] show ?thesis
    by (simp add: demo_log_handler_def demo_host_def demo_log_def)
qed

text \<open>
  Attributes added before a group are exported under that group too, where \<open>slog\<close> qualifies only what
  comes after \<open>WithGroup\<close>; the application's own handler and the exported copy disagree on the key.
\<close>

lemma later_group_captures_earlier_attrs:
  "fst (record_attributes (\<lambda>_. None)
      (with_group demo_host (with_attrs demo_host demo_log_handler [Attr ''user'' (SBool True)]) ''http'')
      (demo_log\<lparr>sr_attrs := []\<rparr>))
   = [\<lparr>kv_key = ''http.user'', kv_value = bool_value True\<rparr>]"
  by code_simp

end
