(* ===== verification/Wire.thy ===== *)
theory Wire
  imports Json Logs
begin

text \<open>
  The struct tags of \<open>otlp.go\<close> and \<open>logs.go\<close>: how a request is written as JSON, which fields are left out
  when empty, and what a receiver reads back.  \<open>Marshal\<close> fails on a NaN or an infinity; everything else
  of these structs can be written.
\<close>

section \<open>Members\<close>

definition str_member :: "string \<Rightarrow> string \<Rightarrow> (string \<times> json) list" where
  "str_member k s = [(k, JStr s)]"

text \<open>\<open>omitempty\<close> on strings, slices, ints and pointers.\<close>

definition str_omit :: "string \<Rightarrow> string \<Rightarrow> (string \<times> json) list" where
  "str_omit k s = (if s = [] then [] else [(k, JStr s)])"

definition arr_omit :: "string \<Rightarrow> json list \<Rightarrow> (string \<times> json) list" where
  "arr_omit k xs = (if xs = [] then [] else [(k, JArr xs)])"

definition int_omit :: "string \<Rightarrow> int \<Rightarrow> (string \<times> json) list" where
  "int_omit k i = (if i = 0 then [] else [(k, JInt i)])"

definition ptr_omit :: "string \<Rightarrow> ('a \<Rightarrow> json) \<Rightarrow> 'a option \<Rightarrow> (string \<times> json) list" where
  "ptr_omit k f x = (case x of None \<Rightarrow> [] | Some v \<Rightarrow> [(k, f v)])"

named_theorems wire_defs "the members of the wire structs"

lemmas [wire_defs] = str_member_def str_omit_def arr_omit_def int_omit_def ptr_omit_def

section \<open>Traces\<close>

definition double_members :: "f64 option \<Rightarrow> (string \<times> json) list option" where
  "double_members d =
     (case d of
        None \<Rightarrow> Some []
      | Some (Fin r) \<Rightarrow> Some [(''doubleValue'', JFloat r)]
      | Some _ \<Rightarrow> None)"

definition any_json :: "any_value \<Rightarrow> json option" where
  "any_json v = do {
     ds \<leftarrow> double_members (av_double v);
     Some (JObj (ptr_omit ''stringValue'' JStr (av_string v) @ ptr_omit ''boolValue'' JBool (av_bool v)
                 @ ptr_omit ''intValue'' JStr (av_int v) @ ds))
   }"

definition kv_json :: "key_value \<Rightarrow> json option" where
  "kv_json kv = do { v \<leftarrow> any_json (kv_value kv); Some (JObj [(''key'', JStr (kv_key kv)), (''value'', v)]) }"

definition status_json :: "status \<Rightarrow> json" where
  "status_json st = JObj ((''code'', JInt (st_code st)) # str_omit ''message'' (st_message st))"

definition link_json :: "span_link \<Rightarrow> json option" where
  "link_json l = do {
     as \<leftarrow> those (map kv_json (ln_attributes l));
     Some (JObj (str_member ''traceId'' (ln_trace_id l) @ str_member ''spanId'' (ln_span_id l)
                 @ arr_omit ''attributes'' as))
   }"

definition span_json :: "span_data \<Rightarrow> json option" where
  "span_json s = do {
     as \<leftarrow> those (map kv_json (sd_attributes s));
     ls \<leftarrow> those (map link_json (sd_links s));
     Some (JObj (str_member ''traceId'' (sd_trace_id s) @ str_member ''spanId'' (sd_span_id s)
                 @ str_omit ''parentSpanId'' (sd_parent_span_id s) @ str_member ''name'' (sd_name s)
                 @ [(''kind'', JInt (sd_kind s))]
                 @ str_member ''startTimeUnixNano'' (sd_start s) @ str_member ''endTimeUnixNano'' (sd_end s)
                 @ arr_omit ''attributes'' as @ arr_omit ''links'' ls
                 @ ptr_omit ''status'' status_json (sd_status s)))
   }"

definition scope_json :: "scope \<Rightarrow> json" where
  "scope_json s = JObj (str_omit ''name'' (sc_name s) @ str_omit ''version'' (sc_version s))"

definition scope_spans_json :: "scope_spans \<Rightarrow> json option" where
  "scope_spans_json s = do {
     xs \<leftarrow> those (map span_json (ss_spans s));
     Some (JObj [(''scope'', scope_json (ss_scope s)), (''spans'', JArr xs)])
   }"

definition resource_json :: "resource \<Rightarrow> json option" where
  "resource_json r = do { as \<leftarrow> those (map kv_json (rc_attributes r)); Some (JObj (arr_omit ''attributes'' as)) }"

definition resource_spans_json :: "resource_spans \<Rightarrow> json option" where
  "resource_spans_json r = do {
     rc \<leftarrow> resource_json (rsp_resource r);
     xs \<leftarrow> those (map scope_spans_json (rsp_scope_spans r));
     Some (JObj [(''resource'', rc), (''scopeSpans'', JArr xs)])
   }"

definition trace_json :: "trace_request \<Rightarrow> json option" where
  "trace_json p = do {
     xs \<leftarrow> those (map resource_spans_json (tr_resource_spans p));
     Some (JObj [(''resourceSpans'', JArr xs)])
   }"

section \<open>Logs\<close>

definition record_json :: "log_record_data \<Rightarrow> json option" where
  "record_json d = do {
     body \<leftarrow> any_json (lr_body d);
     as \<leftarrow> those (map kv_json (lr_attributes d));
     Some (JObj (str_member ''timeUnixNano'' (lr_time d) @ str_omit ''observedTimeUnixNano'' (lr_observed_time d)
                 @ [(''severityNumber'', JInt (lr_severity_number d))]
                 @ str_omit ''severityText'' (lr_severity_text d) @ [(''body'', body)]
                 @ arr_omit ''attributes'' as @ int_omit ''droppedAttributesCount'' (lr_dropped_count d)
                 @ ptr_omit ''flags'' JInt (lr_flags d)
                 @ str_omit ''traceId'' (lr_trace_id d) @ str_omit ''spanId'' (lr_span_id d)))
   }"

definition scope_logs_json :: "scope_logs \<Rightarrow> json option" where
  "scope_logs_json s = do {
     xs \<leftarrow> those (map record_json (sl_records s));
     Some (JObj [(''scope'', scope_json (sl_scope s)), (''logRecords'', JArr xs)])
   }"

definition resource_logs_json :: "resource_logs \<Rightarrow> json option" where
  "resource_logs_json r = do {
     rc \<leftarrow> resource_json (rlg_resource r);
     xs \<leftarrow> those (map scope_logs_json (rlg_scope_logs r));
     Some (JObj [(''resource'', rc), (''scopeLogs'', JArr xs)])
   }"

definition logs_json :: "logs_request \<Rightarrow> json option" where
  "logs_json p = do {
     xs \<leftarrow> those (map resource_logs_json (lg_resource_logs p));
     Some (JObj [(''resourceLogs'', JArr xs)])
   }"

section \<open>The receiver's side\<close>

definition read_any :: "json \<Rightarrow> any_value option" where
  "read_any j = do {
     s \<leftarrow> optional as_str ''stringValue'' j; b \<leftarrow> optional as_bool ''boolValue'' j;
     i \<leftarrow> optional as_str ''intValue'' j; d \<leftarrow> optional as_float ''doubleValue'' j;
     Some \<lparr>av_string = s, av_bool = b, av_int = i, av_double = d\<rparr>
   }"

definition read_kv :: "json \<Rightarrow> key_value option" where
  "read_kv j = do { k \<leftarrow> req as_str ''key'' j; v \<leftarrow> req read_any ''value'' j; Some \<lparr>kv_key = k, kv_value = v\<rparr> }"

definition read_status :: "json \<Rightarrow> status option" where
  "read_status j = do {
     c \<leftarrow> req as_int ''code'' j; m \<leftarrow> defaulted [] as_str ''message'' j; Some \<lparr>st_code = c, st_message = m\<rparr>
   }"

definition read_link :: "json \<Rightarrow> span_link option" where
  "read_link j = do {
     t \<leftarrow> req as_str ''traceId'' j; s \<leftarrow> req as_str ''spanId'' j;
     as \<leftarrow> defaulted [] (as_list read_kv) ''attributes'' j;
     Some \<lparr>ln_trace_id = t, ln_span_id = s, ln_attributes = as\<rparr>
   }"

definition read_span :: "json \<Rightarrow> span_data option" where
  "read_span j = do {
     t \<leftarrow> req as_str ''traceId'' j; s \<leftarrow> req as_str ''spanId'' j; p \<leftarrow> defaulted [] as_str ''parentSpanId'' j;
     n \<leftarrow> req as_str ''name'' j; k \<leftarrow> req as_int ''kind'' j;
     b \<leftarrow> req as_str ''startTimeUnixNano'' j; e \<leftarrow> req as_str ''endTimeUnixNano'' j;
     as \<leftarrow> defaulted [] (as_list read_kv) ''attributes'' j; ls \<leftarrow> defaulted [] (as_list read_link) ''links'' j;
     st \<leftarrow> optional read_status ''status'' j;
     Some \<lparr>sd_trace_id = t, sd_span_id = s, sd_parent_span_id = p, sd_name = n, sd_kind = k, sd_start = b,
           sd_end = e, sd_attributes = as, sd_links = ls, sd_status = st\<rparr>
   }"

definition read_scope :: "json \<Rightarrow> scope option" where
  "read_scope j = do {
     n \<leftarrow> defaulted [] as_str ''name'' j; v \<leftarrow> defaulted [] as_str ''version'' j; Some \<lparr>sc_name = n, sc_version = v\<rparr>
   }"

definition read_scope_spans :: "json \<Rightarrow> scope_spans option" where
  "read_scope_spans j = do {
     s \<leftarrow> req read_scope ''scope'' j; xs \<leftarrow> req (as_list read_span) ''spans'' j;
     Some \<lparr>ss_scope = s, ss_spans = xs\<rparr>
   }"

definition read_resource :: "json \<Rightarrow> resource option" where
  "read_resource j = do { as \<leftarrow> defaulted [] (as_list read_kv) ''attributes'' j; Some \<lparr>rc_attributes = as\<rparr> }"

definition read_resource_spans :: "json \<Rightarrow> resource_spans option" where
  "read_resource_spans j = do {
     r \<leftarrow> req read_resource ''resource'' j; xs \<leftarrow> req (as_list read_scope_spans) ''scopeSpans'' j;
     Some \<lparr>rsp_resource = r, rsp_scope_spans = xs\<rparr>
   }"

definition read_trace :: "json \<Rightarrow> trace_request option" where
  "read_trace j = do {
     xs \<leftarrow> req (as_list read_resource_spans) ''resourceSpans'' j; Some \<lparr>tr_resource_spans = xs\<rparr>
   }"

definition read_record :: "json \<Rightarrow> log_record_data option" where
  "read_record j = do {
     t \<leftarrow> req as_str ''timeUnixNano'' j; ot \<leftarrow> defaulted [] as_str ''observedTimeUnixNano'' j;
     n \<leftarrow> req as_int ''severityNumber'' j; sev \<leftarrow> defaulted [] as_str ''severityText'' j;
     b \<leftarrow> req read_any ''body'' j; as \<leftarrow> defaulted [] (as_list read_kv) ''attributes'' j;
     d \<leftarrow> defaulted 0 as_int ''droppedAttributesCount'' j; f \<leftarrow> optional as_int ''flags'' j;
     tid \<leftarrow> defaulted [] as_str ''traceId'' j; sid \<leftarrow> defaulted [] as_str ''spanId'' j;
     Some \<lparr>lr_time = t, lr_observed_time = ot, lr_severity_number = n, lr_severity_text = sev, lr_body = b,
           lr_attributes = as, lr_dropped_count = d, lr_flags = f, lr_trace_id = tid, lr_span_id = sid\<rparr>
   }"

definition read_scope_logs :: "json \<Rightarrow> scope_logs option" where
  "read_scope_logs j = do {
     s \<leftarrow> req read_scope ''scope'' j; xs \<leftarrow> req (as_list read_record) ''logRecords'' j;
     Some \<lparr>sl_scope = s, sl_records = xs\<rparr>
   }"

definition read_resource_logs :: "json \<Rightarrow> resource_logs option" where
  "read_resource_logs j = do {
     r \<leftarrow> req read_resource ''resource'' j; xs \<leftarrow> req (as_list read_scope_logs) ''scopeLogs'' j;
     Some \<lparr>rlg_resource = r, rlg_scope_logs = xs\<rparr>
   }"

definition read_logs :: "json \<Rightarrow> logs_request option" where
  "read_logs j = do {
     xs \<leftarrow> req (as_list read_resource_logs) ''resourceLogs'' j; Some \<lparr>lg_resource_logs = xs\<rparr>
   }"

section \<open>Reading undoes writing\<close>

lemmas wire_simps = wire_defs member_readers bind_eq_Some_conv

lemma read_any_json: "any_json v = Some j \<Longrightarrow> read_any j = Some v"
  by (cases v) (auto simp: any_json_def read_any_def double_members_def wire_simps split: option.splits f64.splits)

interpretation any_wire: wire_codec any_json read_any
  by unfold_locales (rule read_any_json)

interpretation kv_wire: wire_codec kv_json read_kv
  by unfold_locales (auto simp: kv_json_def read_kv_def wire_simps any_wire.dec_enc)

lemma read_status_json [simp]: "read_status (status_json st) = Some st"
  by (simp add: read_status_def status_json_def wire_simps)

lemma read_scope_json [simp]: "read_scope (scope_json s) = Some s"
  by (simp add: read_scope_def scope_json_def wire_simps)

lemma those_map_Nil [simp]: "those (map f xs) = Some [] \<longleftrightarrow> xs = []"
  by (cases xs) (auto split: option.splits)

interpretation link_wire: wire_codec link_json read_link
  by unfold_locales (auto simp: link_json_def read_link_def wire_simps kv_wire.list_dec_enc)

text \<open>The two large structs, field by field.\<close>

lemma read_span_json:
  assumes "span_json s = Some j"
  shows "read_span j = Some s"
proof -
  obtain as ls where as: "those (map kv_json (sd_attributes s)) = Some as"
    and ls: "those (map link_json (sd_links s)) = Some ls"
    and j: "j = JObj (str_member ''traceId'' (sd_trace_id s) @ str_member ''spanId'' (sd_span_id s)
                 @ str_omit ''parentSpanId'' (sd_parent_span_id s) @ str_member ''name'' (sd_name s)
                 @ [(''kind'', JInt (sd_kind s))]
                 @ str_member ''startTimeUnixNano'' (sd_start s) @ str_member ''endTimeUnixNano'' (sd_end s)
                 @ arr_omit ''attributes'' as @ arr_omit ''links'' ls
                 @ ptr_omit ''status'' status_json (sd_status s))"
    using assms by (auto simp: span_json_def bind_eq_Some_conv)
  have rd: "those (map read_kv as) = Some (sd_attributes s)" "those (map read_link ls) = Some (sd_links s)"
    using kv_wire.list_dec_enc [OF as] link_wire.list_dec_enc [OF ls] .
  have "req as_str ''traceId'' j = Some (sd_trace_id s)" "req as_str ''spanId'' j = Some (sd_span_id s)"
    "defaulted [] as_str ''parentSpanId'' j = Some (sd_parent_span_id s)" "req as_str ''name'' j = Some (sd_name s)"
    "req as_int ''kind'' j = Some (sd_kind s)" "req as_str ''startTimeUnixNano'' j = Some (sd_start s)"
    "req as_str ''endTimeUnixNano'' j = Some (sd_end s)"
    "defaulted [] (as_list read_kv) ''attributes'' j = Some (sd_attributes s)"
    "defaulted [] (as_list read_link) ''links'' j = Some (sd_links s)"
    "optional read_status ''status'' j = Some (sd_status s)"
    unfolding j using rd by (auto simp: wire_defs member_readers split: option.split)
  then show ?thesis by (simp add: read_span_def)
qed

interpretation span_wire: wire_codec span_json read_span
  by unfold_locales (rule read_span_json)

interpretation scope_spans_wire: wire_codec scope_spans_json read_scope_spans
  by unfold_locales (auto simp: scope_spans_json_def read_scope_spans_def wire_simps span_wire.list_dec_enc)

interpretation resource_wire: wire_codec resource_json read_resource
  by unfold_locales (auto simp: resource_json_def read_resource_def wire_simps kv_wire.list_dec_enc)

interpretation resource_spans_wire: wire_codec resource_spans_json read_resource_spans
  by unfold_locales
    (auto simp: resource_spans_json_def read_resource_spans_def wire_simps resource_wire.dec_enc
      scope_spans_wire.list_dec_enc)

interpretation trace_wire: wire_codec trace_json read_trace
  by unfold_locales (auto simp: trace_json_def read_trace_def wire_simps resource_spans_wire.list_dec_enc)

lemma read_record_json:
  assumes "record_json d = Some j"
  shows "read_record j = Some d"
proof -
  obtain body as where body: "any_json (lr_body d) = Some body" and as: "those (map kv_json (lr_attributes d)) = Some as"
    and j: "j = JObj (str_member ''timeUnixNano'' (lr_time d) @ str_omit ''observedTimeUnixNano'' (lr_observed_time d)
                 @ [(''severityNumber'', JInt (lr_severity_number d))]
                 @ str_omit ''severityText'' (lr_severity_text d) @ [(''body'', body)]
                 @ arr_omit ''attributes'' as @ int_omit ''droppedAttributesCount'' (lr_dropped_count d)
                 @ ptr_omit ''flags'' JInt (lr_flags d)
                 @ str_omit ''traceId'' (lr_trace_id d) @ str_omit ''spanId'' (lr_span_id d))"
    using assms by (auto simp: record_json_def bind_eq_Some_conv)
  have rd: "those (map read_kv as) = Some (lr_attributes d)" "read_any body = Some (lr_body d)"
    using kv_wire.list_dec_enc [OF as] any_wire.dec_enc [OF body] .
  have "req as_str ''timeUnixNano'' j = Some (lr_time d)"
    "defaulted [] as_str ''observedTimeUnixNano'' j = Some (lr_observed_time d)"
    "req as_int ''severityNumber'' j = Some (lr_severity_number d)"
    "defaulted [] as_str ''severityText'' j = Some (lr_severity_text d)"
    "req read_any ''body'' j = Some (lr_body d)"
    "defaulted [] (as_list read_kv) ''attributes'' j = Some (lr_attributes d)"
    "defaulted 0 as_int ''droppedAttributesCount'' j = Some (lr_dropped_count d)"
    "optional as_int ''flags'' j = Some (lr_flags d)"
    "defaulted [] as_str ''traceId'' j = Some (lr_trace_id d)" "defaulted [] as_str ''spanId'' j = Some (lr_span_id d)"
    unfolding j using rd by (auto simp: wire_defs member_readers split: option.split)
  then show ?thesis by (simp add: read_record_def)
qed

interpretation record_wire: wire_codec record_json read_record
  by unfold_locales (rule read_record_json)

interpretation scope_logs_wire: wire_codec scope_logs_json read_scope_logs
  by unfold_locales (auto simp: scope_logs_json_def read_scope_logs_def wire_simps record_wire.list_dec_enc)

interpretation resource_logs_wire: wire_codec resource_logs_json read_resource_logs
  by unfold_locales
    (auto simp: resource_logs_json_def read_resource_logs_def wire_simps resource_wire.dec_enc
      scope_logs_wire.list_dec_enc)

interpretation logs_wire: wire_codec logs_json read_logs
  by unfold_locales (auto simp: logs_json_def read_logs_def wire_simps resource_logs_wire.list_dec_enc)

end
