(* ===== verification/GoParseFloat.thy ===== *)
theory GoParseFloat
  imports GoFloat GoStrings
begin

text \<open>
  \<open>strconv.ParseFloat(s, 64)\<close>: the special values, decimal and hexadecimal literals with underscores,
  and the correct rounding of the number written to a \<open>float64\<close>.  An error is \<^const>\<open>None\<close>.
\<close>

section \<open>Rounding to a float64\<close>

text \<open>The least shift that brings a large quotient below \<open>2\<^sup>5\<^sup>3\<close>.\<close>

function scale_down :: "nat \<Rightarrow> nat \<Rightarrow> nat \<Rightarrow> nat" where
  "scale_down num den j =
     (if den = 0 \<or> num < 2 ^ 53 * den * 2 ^ j then j else scale_down num den (Suc j))"
  by pat_completeness auto
termination
proof (relation "measure (\<lambda>(num, den, j). 2 * num - den * 2 ^ j)")
  fix num den j :: nat
  assume a: "\<not> (den = 0 \<or> num < 2 ^ 53 * den * 2 ^ j)"
  then have "den * 2 ^ j < den * 2 ^ Suc j" by simp
  moreover have "1 * (den * 2 ^ j) \<le> 2 ^ 53 * (den * 2 ^ j)" by (rule mult_le_mono1) simp
  then have "den * 2 ^ j \<le> num" using a by (simp add: mult.assoc)
  then have "den * 2 ^ j < 2 * num" using a by (cases num) auto
  ultimately show "((num, den, Suc j), num, den, j) \<in> measure (\<lambda>(num, den, j). 2 * num - den * 2 ^ j)"
    unfolding in_measure split_conv by (intro diff_less_mono2)
qed simp

declare scale_down.simps [simp del]

text \<open>
  The nearest \<open>float64\<close> of a quotient: 53 bits, fewer below \<open>2\<^sup>-\<^sup>1\<^sup>0\<^sup>2\<^sup>2\<close>; \<^const>\<open>None\<close> is an overflow.
\<close>

definition nearest_f64 :: "nat \<Rightarrow> nat \<Rightarrow> rat option" where
  "nearest_f64 num den =
     (if num = 0 then Some 0
      else
        let v = (if num < 2 ^ 53 * den
                 then (let k = min 1074 (scale_exp num den 0)
                       in of_nat (round_half_even (num * 2 ^ k) den) / 2 ^ k)
                 else (let j = scale_down num den 0
                       in of_nat (round_half_even num (den * 2 ^ j)) * 2 ^ j))
        in if v < 2 ^ 1024 then Some v else None)"

section \<open>Literals\<close>

fun underscore_ok :: "bool \<Rightarrow> char \<Rightarrow> string \<Rightarrow> bool" where
  "underscore_ok hex prev [] \<longleftrightarrow> prev \<noteq> CHR ''_''"
| "underscore_ok hex prev (c # cs) =
     (if (case digit_val c of None \<Rightarrow> False | Some v \<Rightarrow> v < (if hex then 16 else 10))
      then underscore_ok hex (CHR ''0'') cs
      else if c = CHR ''_'' then prev = CHR ''0'' \<and> underscore_ok hex (CHR ''_'') cs
      else prev \<noteq> CHR ''_'' \<and> underscore_ok hex (CHR ''!'') cs)"

definition drop_sign :: "string \<Rightarrow> string" where
  "drop_sign s = (if take 1 s \<in> {''-'', ''+''} then drop 1 s else s)"

definition same_letter :: "char \<Rightarrow> char \<Rightarrow> bool" where
  "same_letter c d \<longleftrightarrow> lower_char c = d"

text \<open>\<open>underscoreOK\<close>: underscores only between digits, or between the base prefix and a digit.\<close>

definition underscores_fine :: "string \<Rightarrow> bool" where
  "underscores_fine s =
     (case drop_sign s of
        a # b # rest \<Rightarrow>
          if a = CHR ''0'' \<and> lower_char b \<in> {CHR ''b'', CHR ''o'', CHR ''x''}
          then underscore_ok (same_letter b (CHR ''x'')) (CHR ''0'') rest
          else underscore_ok False (CHR ''^'') (a # b # rest)
      | short \<Rightarrow> underscore_ok False (CHR ''^'') short)"

text \<open>Mantissa digits up to the first other character: the number, the digits after the point, and whether there was any.\<close>

fun scan_mantissa :: "nat \<Rightarrow> bool \<Rightarrow> nat \<times> nat \<times> bool \<Rightarrow> string \<Rightarrow> (nat \<times> nat \<times> bool) \<times> string" where
  "scan_mantissa base dot acc [] = (acc, [])"
| "scan_mantissa base dot (n, f, saw) (c # cs) =
     (if c = CHR ''_'' then scan_mantissa base dot (n, f, saw) cs
      else if c = CHR ''.'' then
        (if dot then ((n, f, saw), c # cs) else scan_mantissa base True (n, f, saw) cs)
      else
        (case digit_val c of
           Some v \<Rightarrow>
             if v < base then scan_mantissa base dot (n * base + v, if dot then Suc f else f, True) cs
             else ((n, f, saw), c # cs)
         | None \<Rightarrow> ((n, f, saw), c # cs)))"

text \<open>The digits of an exponent to the end of the text; beyond 10000 they no longer count.\<close>

fun scan_exponent :: "nat \<Rightarrow> string \<Rightarrow> nat option" where
  "scan_exponent e [] = Some e"
| "scan_exponent e (c # cs) =
     (if c = CHR ''_'' then scan_exponent e cs
      else
        (case digit_val c of
           Some v \<Rightarrow> if v < 10 then scan_exponent (if e < 10000 then e * 10 + v else e) cs else None
         | None \<Rightarrow> None))"

definition exponent_part :: "char \<Rightarrow> string \<Rightarrow> int option" where
  "exponent_part exp_char rest =
     (case rest of
        c # cs \<Rightarrow>
          if same_letter c exp_char then
            (let neg = (take 1 cs = ''-''); ds = drop_sign cs
             in case ds of
                  [] \<Rightarrow> None
                | d # _ \<Rightarrow>
                    if d = CHR ''_'' then None
                    else map_option (\<lambda>e. if neg then - int e else int e) (scan_exponent 0 ds))
          else None
      | [] \<Rightarrow> None)"

definition pow_of :: "nat \<Rightarrow> int \<Rightarrow> nat \<times> nat" where
  "pow_of b e = (if 0 \<le> e then (b ^ nat e, 1) else (1, b ^ nat (- e)))"

text \<open>The number a literal without its sign denotes, as a quotient.\<close>

definition literal_quotient :: "string \<Rightarrow> (nat \<times> nat) option" where
  "literal_quotient body =
     (let hex = (2 < length body \<and> take 1 body = ''0'' \<and> same_letter (body ! 1) (CHR ''x''));
          base = (if hex then 16 else 10);
          ((n, f, saw), rest) = scan_mantissa base False (0, 0, False) (if hex then drop 2 body else body)
      in if \<not> saw then None
         else
           (case (if rest = [] \<and> \<not> hex then Some 0 else exponent_part (if hex then CHR ''p'' else CHR ''e'') rest) of
              None \<Rightarrow> None
            | Some e \<Rightarrow>
                (let (num, den) = pow_of (if hex then 2 else 10) (e - int ((if hex then 4 else 1) * f))
                 in Some (n * num, den))))"

definition parse_float :: "string \<Rightarrow> f64 option" where
  "parse_float s =
     (let neg = (take 1 s = ''-''); body = drop_sign s; low = map lower_char body
      in if low = ''inf'' \<or> low = ''infinity'' then Some (if neg then NegInf else PosInf)
         else if map lower_char s = ''nan'' then Some NaN
         else
           (case literal_quotient body of
              None \<Rightarrow> None
            | Some (num, den) \<Rightarrow>
                if CHR ''_'' \<in> set s \<and> \<not> underscores_fine s then None
                else map_option (\<lambda>v. Fin (if neg then - v else v)) (nearest_f64 num den)))"

lemma literal_examples:
  "literal_quotient ''0.25'' = Some (25, 100)"
  "literal_quotient ''1e2'' = Some (100, 1)"
  "literal_quotient ''0x1p-2'' = Some (1, 4)"
  "literal_quotient ''1_0.5'' = Some (105, 10)"
  "parse_float ''_1'' = None"
  "parse_float ''1.5x'' = None"
  "parse_float ''1e'' = None"
  "parse_float ''.'' = None"
  "parse_float ''-INF'' = Some NegInf"
  by code_simp+

lemma nearest_examples:
  "nearest_f64 25 100 = Some (1 / 4)"
  "nearest_f64 (2 ^ 53 + 1) 1 = Some (2 ^ 53)"
  by (simp_all add: nearest_f64_def scale_exp.simps scale_down.simps round_half_even_def)

end
