(* ===== verification/JsonText.thy ===== *)
theory JsonText
  imports Wire GoParseFloat
begin

text \<open>
  The receiver's end of \<open>encoding/json\<close>: a reader of whole JSON texts, and what it makes of a text that
  \<open>Marshal\<close> wrote.  Every struct of the wire comes back as it was, with U+FFFD for each byte that is not
  part of a UTF-8 sequence, as \<open>Marshal\<close> documents it.
\<close>

section \<open>Numbers\<close>

definition number_char :: "char \<Rightarrow> bool" where
  "number_char c \<longleftrightarrow> in_range 48 57 (ord c) \<or> c \<in> {CHR ''-'', CHR ''+'', CHR ''.'', CHR ''e'', CHR ''E''}"

definition integer_text :: "string \<Rightarrow> int option" where
  "integer_text t =
     (let neg = (take 1 t = ''-''); ds = (if neg then drop 1 t else t)
      in if ds = [] then None else map_option (\<lambda>n. if neg then - int n else int n) (parse_digits 10 0 ds))"

definition number_of :: "string \<Rightarrow> json option" where
  "number_of t =
     (case integer_text t of
        Some i \<Rightarrow> Some (JInt i)
      | None \<Rightarrow> (case parse_float t of Some (Fin d) \<Rightarrow> Some (JFloat d) | _ \<Rightarrow> None))"

text \<open>
  What \<open>strconv\<close> promises of the shortest text \<open>ft d\<close> of a finite \<open>float64\<close>: it is a number, and reading it
  gives the value back.
\<close>

definition float_text_ok :: "(rat \<Rightarrow> string) \<Rightarrow> rat \<Rightarrow> bool" where
  "float_text_ok ft d \<longleftrightarrow>
     ft d \<noteq> [] \<and> list_all number_char (ft d)
     \<and> (case number_of (ft d) of Some v \<Rightarrow> as_float v = Some (Fin d) | None \<Rightarrow> False)"

lemma digit_char_number: "d < 10 \<Longrightarrow> number_char (digit_char d)"
  by (simp add: number_char_def digit_char_def in_range_def)

lemma dec_digits_number: "list_all number_char (dec_digits n)"
proof (induction n rule: dec_digits.induct)
  case (1 n)
  then show ?case by (cases "n < 10") (simp_all add: dec_digits.simps [of n] digit_char_number)
qed

lemma format_int_number: "list_all number_char (format_int i)"
  by (simp add: format_int_def dec_digits_number) (simp add: number_char_def)

lemma dec_digits_ne [simp]: "dec_digits n \<noteq> []"
  using dec_digits_hd [of n] by auto

lemma format_int_ne [simp]: "format_int i \<noteq> []"
  by (simp add: format_int_def)

lemma integer_text_format: "integer_text (format_int i) = Some i"
proof -
  obtain d rest where d: "dec_digits (nat i) = digit_char d # rest" "d < 10"
    using dec_digits_hd by blast
  have "parse_digits 10 0 (digit_char d # rest) = Some (nat i)"
    using parse_dec_digits [of "nat i"] d(1) by simp
  then show ?thesis
    using d digit_char_not_sign [OF d(2)] by (auto simp: integer_text_def format_int_def Let_def)
qed

section \<open>The reader\<close>

text \<open>
  Compact texts, as \<open>Marshal\<close> writes them.  The fuel bounds the nesting and the length of the lists; the
  length of the text is always enough.
\<close>

definition read_number :: "string \<Rightarrow> (json \<times> string) option" where
  "read_number s = map_option (\<lambda>v. (v, dropWhile number_char s)) (number_of (takeWhile number_char s))"

fun read_value :: "nat \<Rightarrow> string \<Rightarrow> (json \<times> string) option"
  and read_items :: "nat \<Rightarrow> string \<Rightarrow> (json list \<times> string) option"
  and read_members :: "nat \<Rightarrow> string \<Rightarrow> ((string \<times> json) list \<times> string) option" where
  "read_value 0 s = None"
| "read_value (Suc n) s =
     (if take 4 s = ''true'' then Some (JBool True, drop 4 s)
      else if take 5 s = ''false'' then Some (JBool False, drop 5 s)
      else
        (case s of
           [] \<Rightarrow> None
         | c # cs \<Rightarrow>
             if c = CHR 0x22 then map_option (\<lambda>(t, r). (JStr t, r)) (read_chars cs)
             else if c = CHR ''['' then
               (if take 1 cs = '']'' then Some (JArr [], drop 1 cs)
                else map_option (\<lambda>(xs, r). (JArr xs, r)) (read_items n cs))
             else if c = CHR ''{'' then
               (if take 1 cs = ''}'' then Some (JObj [], drop 1 cs)
                else map_option (\<lambda>(ms, r). (JObj ms, r)) (read_members n cs))
             else read_number s))"
| "read_items 0 s = None"
| "read_items (Suc n) s =
     (case read_value n s of
        None \<Rightarrow> None
      | Some (x, r) \<Rightarrow>
          if take 1 r = '']'' then Some ([x], drop 1 r)
          else if take 1 r = '','' then map_option (\<lambda>(xs, r'). (x # xs, r')) (read_items n (drop 1 r))
          else None)"
| "read_members 0 s = None"
| "read_members (Suc n) s =
     (if take 1 s = [CHR 0x22] then
        (case read_chars (drop 1 s) of
           None \<Rightarrow> None
         | Some (k, r) \<Rightarrow>
             if take 1 r = '':'' then
               (case read_value n (drop 1 r) of
                  None \<Rightarrow> None
                | Some (x, r') \<Rightarrow>
                    if take 1 r' = ''}'' then Some ([(k, x)], drop 1 r')
                    else if take 1 r' = '','' then
                      map_option (\<lambda>(ms, r''). ((k, x) # ms, r'')) (read_members n (drop 1 r'))
                    else None)
             else None)
      else None)"

definition parse_json :: "string \<Rightarrow> json option" where
  "parse_json s = (case read_value (length s) s of Some (j, []) \<Rightarrow> Some j | _ \<Rightarrow> None)"

section \<open>What is read of what was written\<close>

text \<open>Every float of a value.\<close>

fun floats_ok :: "(rat \<Rightarrow> string) \<Rightarrow> json \<Rightarrow> bool" where
  "floats_ok ft (JFloat d) = float_text_ok ft d"
| "floats_ok ft (JArr xs) = list_all (floats_ok ft) xs"
| "floats_ok ft (JObj ms) = list_all (\<lambda>(k, x). floats_ok ft x) ms"
| "floats_ok ft _ = True"

fun received :: "(rat \<Rightarrow> string) \<Rightarrow> json \<Rightarrow> json" where
  "received ft (JFloat d) = (case number_of (ft d) of Some v \<Rightarrow> v | None \<Rightarrow> JFloat d)"
| "received ft (JStr s) = JStr (to_valid s)"
| "received ft (JArr xs) = JArr (map (received ft) xs)"
| "received ft (JObj ms) = JObj (map (\<lambda>(k, x). (to_valid k, received ft x)) ms)"
| "received ft j = j"

fun fuel_of :: "json \<Rightarrow> nat" where
  "fuel_of (JArr xs) = Suc (sum_list (map (\<lambda>x. Suc (fuel_of x)) xs))"
| "fuel_of (JObj ms) = Suc (sum_list (map (\<lambda>(k, x). Suc (fuel_of x)) ms))"
| "fuel_of _ = 1"

definition ends_number :: "string \<Rightarrow> bool" where
  "ends_number r \<longleftrightarrow> (case r of [] \<Rightarrow> True | c # _ \<Rightarrow> \<not> number_char c)"

lemma ends_number_simps [simp]:
  "ends_number []" "ends_number (CHR '','' # r)" "ends_number (CHR '']'' # r)" "ends_number (CHR ''}'' # r)"
  by (simp_all add: ends_number_def number_char_def in_range_def)

lemma read_number_text:
  assumes "list_all number_char t" and "number_of t = Some v" and "ends_number r"
  shows "read_number (t @ r) = Some (v, r)"
proof -
  have "takeWhile number_char r = []" "dropWhile number_char r = r"
    using assms(3) by (cases r; simp add: ends_number_def)+
  then have "takeWhile number_char (t @ r) = t" "dropWhile number_char (t @ r) = r"
    using assms(1) by (simp_all add: list_all_iff)
  then show ?thesis using assms(2) by (simp add: read_number_def)
qed

lemma read_value_number:
  assumes "list_all number_char t" and "t \<noteq> []" and "number_of t = Some v" and "ends_number r"
  shows "read_value (Suc n) (t @ r) = Some (v, r)"
proof -
  obtain c cs where t: "t = c # cs" using assms(2) by (cases t) auto
  then have c: "c \<noteq> CHR 0x22" "c \<noteq> CHR ''[''" "c \<noteq> CHR ''{''" "c \<noteq> CHR ''t''" "c \<noteq> CHR ''f''"
    using assms(1) by (auto simp: number_char_def in_range_def)
  have "take 4 (t @ r) \<noteq> ''true''" "take 5 (t @ r) \<noteq> ''false''"
    using c(4,5) by (auto simp: t eval_nat_numeral)
  moreover have "read_number (c # (cs @ r)) = Some (v, r)"
    using read_number_text [OF assms(1,3,4)] by (simp add: t)
  ultimately show ?thesis using c by (simp add: t)
qed

lemma read_chars_quoted: "read_chars (concat (map quote_rune (segments s)) @ CHR 0x22 # r) = Some (to_valid s, r)"
  using read_segments [of s "CHR 0x22 # r"] by (simp add: read_chars.simps)

lemma read_value_string: "read_value (Suc n) (json_quote s @ r) = Some (JStr (to_valid s), r)"
  by (simp add: json_quote_def read_chars_quoted eval_nat_numeral)


lemma json_text_ne: "floats_ok ft j \<Longrightarrow> json_text ft j \<noteq> []"
  by (cases j) (auto simp: json_quote_def float_text_ok_def)

lemma first_char:
  assumes "floats_ok ft j"
  shows "take 1 (json_text ft j @ r) \<noteq> '']''"
proof -
  have num: "take 1 (t @ r) \<noteq> '']''" if "list_all number_char t" "t \<noteq> []" for t
    using that by (cases t) (auto simp: number_char_def in_range_def)
  show ?thesis
  proof (cases j)
    case (JInt i)
    then show ?thesis using num [OF format_int_number format_int_ne] by simp
  next
    case (JFloat d)
    then show ?thesis using num [of "ft d"] assms by (simp add: float_text_ok_def)
  qed (simp_all add: json_quote_def)
qed

lemma read_items_text:
  assumes "\<And>x n r. x \<in> set xs \<Longrightarrow> fuel_of x \<le> n \<Longrightarrow> ends_number r \<Longrightarrow> read_value n (json_text ft x @ r) = Some (received ft x, r)"
    and "xs \<noteq> []" and "sum_list (map (\<lambda>x. Suc (fuel_of x)) xs) \<le> n"
  shows "read_items n (join_with '','' (map (json_text ft) xs) @ CHR '']'' # r) = Some (map (received ft) xs, r)"
  using assms
proof (induction xs arbitrary: n)
  case (Cons x xs)
  then obtain m where n: "n = Suc m" by (cases n) auto
  show ?case
  proof (cases xs)
    case Nil
    then show ?thesis using Cons.prems(1) [of x m "CHR '']'' # r"] Cons.prems(3) by (simp add: n)
  next
    case (Cons y ys)
    have "read_items m (join_with '','' (map (json_text ft) xs) @ CHR '']'' # r) = Some (map (received ft) xs, r)"
      by (rule Cons.IH) (use Cons.prems Cons in \<open>simp_all add: n\<close>)
    moreover have "read_value m (json_text ft x @ CHR '','' # join_with '','' (map (json_text ft) xs) @ CHR '']'' # r)
        = Some (received ft x, CHR '','' # join_with '','' (map (json_text ft) xs) @ CHR '']'' # r)"
      by (rule Cons.prems(1)) (use Cons.prems(3) in \<open>simp_all add: n\<close>)
    ultimately show ?thesis by (simp add: n Cons)
  qed
qed simp

definition member_text :: "(rat \<Rightarrow> string) \<Rightarrow> string \<times> json \<Rightarrow> string" where
  "member_text ft m = (case m of (k, x) \<Rightarrow> json_quote k @ '':'' @ json_text ft x)"

lemma read_members_text:
  assumes "\<And>k x n r. (k, x) \<in> set ms \<Longrightarrow> fuel_of x \<le> n \<Longrightarrow> ends_number r
      \<Longrightarrow> read_value n (json_text ft x @ r) = Some (received ft x, r)"
    and "ms \<noteq> []" and "sum_list (map (\<lambda>(k, x). Suc (fuel_of x)) ms) \<le> n"
  shows "read_members n (join_with '','' (map (member_text ft) ms) @ CHR ''}'' # r)
    = Some (map (\<lambda>(k, x). (to_valid k, received ft x)) ms, r)"
  using assms
proof (induction ms arbitrary: n)
  case (Cons m ms)
  obtain k x where m: "m = (k, x)" by (cases m)
  from Cons.prems obtain i where n: "n = Suc i" by (cases n) (auto simp: m)
  have q: "take 1 (json_quote k @ t) = [CHR 0x22]" "read_chars (drop 1 (json_quote k @ t)) = Some (to_valid k, t)" for t
    by (simp_all add: json_quote_def read_chars_quoted)
  show ?case
  proof (cases ms)
    case Nil
    then show ?thesis
      using Cons.prems(1) [of k x i "CHR ''}'' # r"] Cons.prems(3) q
      by (simp add: n m member_text_def)
  next
    case (Cons y ys)
    have "read_members i (join_with '','' (map (member_text ft) ms) @ CHR ''}'' # r)
        = Some (map (\<lambda>(k, x). (to_valid k, received ft x)) ms, r)"
    proof (rule Cons.IH)
      show "read_value j (json_text ft v @ t) = Some (received ft v, t)"
        if "(l, v) \<in> set ms" "fuel_of v \<le> j" "ends_number t" for l v j t
        using Cons.prems(1) [of l v j t] that by simp
    qed (use Cons.prems(3) Cons in \<open>simp_all add: n m\<close>)
    moreover have "read_value i (json_text ft x @ CHR '','' # join_with '','' (map (member_text ft) ms) @ CHR ''}'' # r)
        = Some (received ft x, CHR '','' # join_with '','' (map (member_text ft) ms) @ CHR ''}'' # r)"
      by (rule Cons.prems(1) [of k]) (use Cons.prems(3) in \<open>simp_all add: n m\<close>)
    ultimately show ?thesis using q by (simp add: n m Cons member_text_def [of ft "(k, x)"])
  qed
qed simp

lemma read_value_text:
  "floats_ok ft j \<Longrightarrow> fuel_of j \<le> n \<Longrightarrow> ends_number r \<Longrightarrow> read_value n (json_text ft j @ r) = Some (received ft j, r)"
proof (induction j arbitrary: n r)
  case (JBool b)
  then show ?case by (cases n) (simp_all add: eval_nat_numeral)
next
  case (JInt i)
  then show ?case
    using read_value_number [OF format_int_number format_int_ne, of i "JInt i"]
    by (cases n) (simp_all add: number_of_def integer_text_format)
next
  case (JFloat d)
  then show ?case
    using read_value_number [of "ft d"]
    by (cases n) (auto simp: float_text_ok_def simp del: read_value.simps split: option.splits)
next
  case (JStr s)
  then show ?case by (cases n) (simp_all add: read_value_string del: read_value.simps)
next
  case (JArr xs)
  obtain m where n: "n = Suc m" using JArr.prems(2) by (cases n) auto
  have items: "read_items m (join_with '','' (map (json_text ft) xs) @ CHR '']'' # r) = Some (map (received ft) xs, r)"
    if "xs \<noteq> []"
    by (rule read_items_text [OF JArr.IH that]) (use JArr.prems in \<open>simp_all add: n list_all_iff\<close>)
  show ?case
  proof (cases xs)
    case (Cons x ys)
    have "\<exists>t. join_with '','' (map (json_text ft) xs) @ CHR '']'' # r = json_text ft x @ t"
      by (cases ys) (auto simp: Cons)
    moreover have "floats_ok ft x" using JArr.prems(1) by (simp add: Cons)
    ultimately have "take 1 (join_with '','' (map (json_text ft) xs) @ CHR '']'' # r) \<noteq> '']''"
      using first_char by metis
    then show ?thesis using items by (simp add: n Cons eval_nat_numeral)
  qed (simp add: n eval_nat_numeral)
next
  case (JObj ms)
  obtain m where n: "n = Suc m" using JObj.prems(2) by (cases n) auto
  have members: "read_members m (join_with '','' (map (member_text ft) ms) @ CHR ''}'' # r)
      = Some (map (\<lambda>(k, x). (to_valid k, received ft x)) ms, r)"
    if "ms \<noteq> []"
    by (rule read_members_text [OF JObj.IH that]) (use JObj.prems in \<open>auto simp: n list_all_iff\<close>)
  show ?case
  proof (cases ms)
    case (Cons x ys)
    obtain t where t: "join_with '','' (map (member_text ft) ms) @ CHR ''}'' # r = CHR 0x22 # t"
      by (cases ys; cases x) (auto simp: Cons member_text_def json_quote_def)
    have "json_text ft (JObj ms) @ r = CHR ''{'' # join_with '','' (map (member_text ft) ms) @ CHR ''}'' # r"
      by (simp add: member_text_def [abs_def])
    also have "\<dots> = CHR ''{'' # CHR 0x22 # t" by (simp only: t)
    finally have lhs: "json_text ft (JObj ms) @ r = CHR ''{'' # CHR 0x22 # t" .
    have "read_members m (CHR 0x22 # t) = Some (map (\<lambda>(k, x). (to_valid k, received ft x)) ms, r)"
      unfolding t [symmetric] by (rule members) (simp add: Cons)
    then show ?thesis unfolding lhs by (simp add: n eval_nat_numeral)
  qed (simp add: n eval_nat_numeral)
qed


lemma sum_join: "xs \<noteq> [] \<Longrightarrow> Suc (length (join_with '','' xs)) = sum_list (map (\<lambda>t. Suc (length t)) xs)"
  proof (induction xs)
  case (Cons x xs)
  then show ?case by (cases xs) auto
qed simp

lemma sum_list_le: "(\<And>x. x \<in> set xs \<Longrightarrow> f x \<le> (g x :: nat)) \<Longrightarrow> sum_list (map f xs) \<le> sum_list (map g xs)"
  by (induction xs) (auto intro: add_mono)

lemma fuel_enough: "floats_ok ft j \<Longrightarrow> fuel_of j \<le> length (json_text ft j)"
proof (induction j)
  case (JArr xs)
  have "sum_list (map (\<lambda>x. Suc (fuel_of x)) xs) \<le> sum_list (map (\<lambda>x. Suc (length (json_text ft x))) xs)"
    by (rule sum_list_le) (use JArr in \<open>simp add: list_all_iff\<close>)
  then show ?case using sum_join [of "map (json_text ft) xs"] by (cases "xs = []") (simp_all add: comp_def)
next
  case (JObj ms)
  have "sum_list (map (\<lambda>(k, x). Suc (fuel_of x)) ms) \<le> sum_list (map (\<lambda>m. Suc (length (member_text ft m))) ms)"
  proof (rule sum_list_le)
    fix m assume "m \<in> set ms"
    then have "fuel_of (snd m) \<le> length (json_text ft (snd m))"
      using JObj.IH [of m "snd m"] JObj.prems by (cases m) (auto simp: list_all_iff)
    then show "(case m of (k, x) \<Rightarrow> Suc (fuel_of x)) \<le> Suc (length (member_text ft m))"
      by (cases m) (simp add: member_text_def)
  qed
  then show ?case
    using sum_join [of "map (member_text ft) ms"]
    by (cases "ms = []") (simp_all add: comp_def member_text_def [abs_def])
next
  case (JFloat d)
  then show ?case by (cases "ft d") (auto simp: float_text_ok_def)
qed (auto simp: json_quote_def Suc_le_eq)

lemma parse_json_text: "floats_ok ft j \<Longrightarrow> parse_json (json_text ft j) = Some (received ft j)"
  using read_value_text [of ft j "length (json_text ft j)" "[]"] fuel_enough by (simp add: parse_json_def)

section \<open>Readers of what was received\<close>

lemma segments_char_ascii: "ord c < 128 \<Longrightarrow> segments (c # cs) = (ord c, [c]) # segments cs"
  by (simp add: decode_rune_def)

lemma to_valid_Nil [simp]: "to_valid [] = []"
  by (simp add: to_valid_def)

lemma to_valid_ascii [simp]: "ord c < 128 \<Longrightarrow> to_valid (c # cs) = c # to_valid cs"
  by (simp add: to_valid_def segments_char_ascii rune_error_def del: segments.simps)

lemma encode_rune_ne [simp]: "encode_rune r \<noteq> []"
  by (simp add: encode_rune_def)

lemma to_valid_eq_Nil [simp]: "to_valid s = [] \<longleftrightarrow> s = []"
  by (cases s) (simp_all add: to_valid_def)

lemma to_valid_hex: "is_ascii s \<Longrightarrow> to_valid s = s"
  by (induction s) (simp_all add: is_ascii_def)

definition received_members :: "(rat \<Rightarrow> string) \<Rightarrow> (string \<times> json) list \<Rightarrow> (string \<times> json) list" where
  "received_members ft ms = map (\<lambda>(k, x). (to_valid k, received ft x)) ms"

lemma received_members_simps [simp]:
  "received_members ft [] = []"
  "received_members ft ((k, x) # ms) = (to_valid k, received ft x) # received_members ft ms"
  "received_members ft (ms @ ns) = received_members ft ms @ received_members ft ns"
  "received_members ft (str_member k s) = str_member (to_valid k) (to_valid s)"
  "received_members ft (str_omit k s) = str_omit (to_valid k) (to_valid s)"
  "received_members ft (arr_omit k xs) = arr_omit (to_valid k) (map (received ft) xs)"
  "received_members ft (int_omit k i) = int_omit (to_valid k) i"
  by (simp_all add: received_members_def wire_defs)

lemma received_ptr [simp]: "received_members ft (ptr_omit k f x) = ptr_omit (to_valid k) (\<lambda>v. received ft (f v)) x"
  by (simp add: received_members_def wire_defs split: option.split)

lemma received_obj [simp]: "received ft (JObj ms) = JObj (received_members ft ms)"
  by (simp add: received_members_def)


definition members_ok :: "(rat \<Rightarrow> string) \<Rightarrow> (string \<times> json) list \<Rightarrow> bool" where
  "members_ok ft ms \<longleftrightarrow> list_all (\<lambda>(k, x). floats_ok ft x) ms"

lemma members_ok_simps [simp]:
  "members_ok ft []" "members_ok ft ((k, x) # ms) \<longleftrightarrow> floats_ok ft x \<and> members_ok ft ms"
  "members_ok ft (ms @ ns) \<longleftrightarrow> members_ok ft ms \<and> members_ok ft ns"
  "members_ok ft (str_member k s)" "members_ok ft (str_omit k s)" "members_ok ft (int_omit k i)"
  "members_ok ft (arr_omit k xs) \<longleftrightarrow> list_all (floats_ok ft) xs"
  by (simp_all add: members_ok_def wire_defs)

lemma floats_ok_obj [simp]: "floats_ok ft (JObj ms) \<longleftrightarrow> members_ok ft ms"
  by (simp add: members_ok_def)

declare floats_ok.simps(3) [simp del] received.simps(4) [simp del]

text \<open>
  A struct with a reader, and what the reader makes of the text: the same struct with every string made
  valid UTF-8.
\<close>

locale text_codec = wire_codec +
  fixes valid_form :: "'a \<Rightarrow> 'a"
  assumes dec_received: "enc x = Some j \<Longrightarrow> floats_ok ft j \<Longrightarrow> dec (received ft j) = Some (valid_form x)"
begin

lemma list_received:
  "those (map enc xs) = Some js \<Longrightarrow> list_all (floats_ok ft) js
   \<Longrightarrow> those (map (\<lambda>j. dec (received ft j)) js) = Some (map valid_form xs)"
proof (induction xs arbitrary: js)
  case (Cons x xs)
  then show ?case by (auto simp: dec_received split: option.splits)
qed simp

lemma as_list_received:
  "those (map enc xs) = Some js \<Longrightarrow> list_all (floats_ok ft) js
   \<Longrightarrow> as_list dec (JArr (map (received ft) js)) = Some (map valid_form xs)"
  by (simp add: list_received comp_def)

lemma text_round_trip:
  "enc x = Some j \<Longrightarrow> floats_ok ft j \<Longrightarrow> Option.bind (parse_json (json_text ft j)) dec = Some (valid_form x)"
  by (simp add: parse_json_text dec_received)

end

definition valid_any :: "any_value \<Rightarrow> any_value" where
  "valid_any v = v\<lparr>av_string := map_option to_valid (av_string v), av_int := map_option to_valid (av_int v)\<rparr>"

definition valid_kv :: "key_value \<Rightarrow> key_value" where
  "valid_kv kv = \<lparr>kv_key = to_valid (kv_key kv), kv_value = valid_any (kv_value kv)\<rparr>"

definition valid_status :: "status \<Rightarrow> status" where
  "valid_status st = st\<lparr>st_message := to_valid (st_message st)\<rparr>"

definition valid_link :: "span_link \<Rightarrow> span_link" where
  "valid_link l = \<lparr>ln_trace_id = to_valid (ln_trace_id l), ln_span_id = to_valid (ln_span_id l),
     ln_attributes = map valid_kv (ln_attributes l)\<rparr>"

definition valid_span :: "span_data \<Rightarrow> span_data" where
  "valid_span s =
     \<lparr>sd_trace_id = to_valid (sd_trace_id s), sd_span_id = to_valid (sd_span_id s),
      sd_parent_span_id = to_valid (sd_parent_span_id s), sd_name = to_valid (sd_name s), sd_kind = sd_kind s,
      sd_start = to_valid (sd_start s), sd_end = to_valid (sd_end s), sd_attributes = map valid_kv (sd_attributes s),
      sd_links = map valid_link (sd_links s), sd_status = map_option valid_status (sd_status s)\<rparr>"

definition valid_scope :: "scope \<Rightarrow> scope" where
  "valid_scope s = \<lparr>sc_name = to_valid (sc_name s), sc_version = to_valid (sc_version s)\<rparr>"

definition valid_scope_spans :: "scope_spans \<Rightarrow> scope_spans" where
  "valid_scope_spans s = \<lparr>ss_scope = valid_scope (ss_scope s), ss_spans = map valid_span (ss_spans s)\<rparr>"

definition valid_resource :: "resource \<Rightarrow> resource" where
  "valid_resource r = \<lparr>rc_attributes = map valid_kv (rc_attributes r)\<rparr>"

definition valid_resource_spans :: "resource_spans \<Rightarrow> resource_spans" where
  "valid_resource_spans r = \<lparr>rsp_resource = valid_resource (rsp_resource r),
     rsp_scope_spans = map valid_scope_spans (rsp_scope_spans r)\<rparr>"

definition valid_trace :: "trace_request \<Rightarrow> trace_request" where
  "valid_trace p = \<lparr>tr_resource_spans = map valid_resource_spans (tr_resource_spans p)\<rparr>"

definition valid_record :: "log_record_data \<Rightarrow> log_record_data" where
  "valid_record d =
     \<lparr>lr_time = to_valid (lr_time d), lr_observed_time = to_valid (lr_observed_time d),
      lr_severity_number = lr_severity_number d, lr_severity_text = to_valid (lr_severity_text d),
      lr_body = valid_any (lr_body d), lr_attributes = map valid_kv (lr_attributes d),
      lr_dropped_count = lr_dropped_count d, lr_flags = lr_flags d, lr_trace_id = to_valid (lr_trace_id d),
      lr_span_id = to_valid (lr_span_id d)\<rparr>"

definition valid_scope_logs :: "scope_logs \<Rightarrow> scope_logs" where
  "valid_scope_logs s = \<lparr>sl_scope = valid_scope (sl_scope s), sl_records = map valid_record (sl_records s)\<rparr>"

definition valid_resource_logs :: "resource_logs \<Rightarrow> resource_logs" where
  "valid_resource_logs r = \<lparr>rlg_resource = valid_resource (rlg_resource r),
     rlg_scope_logs = map valid_scope_logs (rlg_scope_logs r)\<rparr>"

definition valid_logs :: "logs_request \<Rightarrow> logs_request" where
  "valid_logs p = \<lparr>lg_resource_logs = map valid_resource_logs (lg_resource_logs p)\<rparr>"

section \<open>Each struct\<close>

lemma received_float: "float_text_ok ft d \<Longrightarrow> as_float (received ft (JFloat d)) = Some (Fin d)"
  by (auto simp: float_text_ok_def split: option.splits)

declare received.simps(1) [simp del]

lemma any_received:
  assumes "any_json v = Some j" and "floats_ok ft j"
  shows "read_any (received ft j) = Some (valid_any v)"
proof -
  obtain ds where ds: "double_members (av_double v) = Some ds"
    and j: "j = JObj (ptr_omit ''stringValue'' JStr (av_string v) @ ptr_omit ''boolValue'' JBool (av_bool v)
                 @ ptr_omit ''intValue'' JStr (av_int v) @ ds)"
    using assms(1) by (auto simp: any_json_def bind_eq_Some_conv)
  have rcv: "received ft j = JObj (ptr_omit ''stringValue'' (\<lambda>s. JStr (to_valid s)) (av_string v)
      @ ptr_omit ''boolValue'' JBool (av_bool v) @ ptr_omit ''intValue'' (\<lambda>s. JStr (to_valid s)) (av_int v)
      @ received_members ft ds)"
    by (simp add: j)
  have "optional as_str ''stringValue'' (received ft j) = Some (map_option to_valid (av_string v))"
    "optional as_bool ''boolValue'' (received ft j) = Some (av_bool v)"
    "optional as_str ''intValue'' (received ft j) = Some (map_option to_valid (av_int v))"
    "optional as_float ''doubleValue'' (received ft j) = Some (av_double v)"
    unfolding rcv using ds assms(2)
    by (auto simp: j double_members_def wire_defs member_readers received_float split: option.splits f64.splits)
  then show ?thesis by (simp add: read_any_def valid_any_def)
qed

interpretation any_text: text_codec any_json read_any valid_any
  by unfold_locales (rule any_received)

interpretation kv_text: text_codec kv_json read_kv valid_kv
  by unfold_locales (auto simp: kv_json_def read_kv_def valid_kv_def wire_simps any_text.dec_received)


lemma status_received [simp]: "read_status (received ft (status_json st)) = Some (valid_status st)"
  by (simp add: read_status_def status_json_def valid_status_def wire_simps)

lemma scope_received [simp]: "read_scope (received ft (scope_json s)) = Some (valid_scope s)"
  by (simp add: read_scope_def scope_json_def valid_scope_def wire_simps)

interpretation link_text: text_codec link_json read_link valid_link
  by unfold_locales
    (auto simp: link_json_def read_link_def valid_link_def wire_simps comp_def kv_text.list_received)

lemma span_received:
  assumes "span_json s = Some j" and "floats_ok ft j"
  shows "read_span (received ft j) = Some (valid_span s)"
proof -
  obtain as ls where as: "those (map kv_json (sd_attributes s)) = Some as"
    and ls: "those (map link_json (sd_links s)) = Some ls"
    and j: "j = JObj (str_member ''traceId'' (sd_trace_id s) @ str_member ''spanId'' (sd_span_id s)
                 @ str_omit ''parentSpanId'' (sd_parent_span_id s) @ str_member ''name'' (sd_name s)
                 @ [(''kind'', JInt (sd_kind s))]
                 @ str_member ''startTimeUnixNano'' (sd_start s) @ str_member ''endTimeUnixNano'' (sd_end s)
                 @ arr_omit ''attributes'' as @ arr_omit ''links'' ls
                 @ ptr_omit ''status'' status_json (sd_status s))"
    using assms(1) by (auto simp: span_json_def bind_eq_Some_conv)
  have rcv: "received ft j = JObj (str_member ''traceId'' (to_valid (sd_trace_id s))
      @ str_member ''spanId'' (to_valid (sd_span_id s)) @ str_omit ''parentSpanId'' (to_valid (sd_parent_span_id s))
      @ str_member ''name'' (to_valid (sd_name s)) @ [(''kind'', JInt (sd_kind s))]
      @ str_member ''startTimeUnixNano'' (to_valid (sd_start s)) @ str_member ''endTimeUnixNano'' (to_valid (sd_end s))
      @ arr_omit ''attributes'' (map (received ft) as) @ arr_omit ''links'' (map (received ft) ls)
      @ ptr_omit ''status'' (\<lambda>st. received ft (status_json st)) (sd_status s))"
    by (simp add: j)
  have ok: "list_all (floats_ok ft) as" "list_all (floats_ok ft) ls" using assms(2) by (simp_all add: j)
  have rd: "as_list read_kv (JArr (map (received ft) as)) = Some (map valid_kv (sd_attributes s))"
    "as_list read_link (JArr (map (received ft) ls)) = Some (map valid_link (sd_links s))"
    using kv_text.as_list_received [OF as ok(1)] link_text.as_list_received [OF ls ok(2)] .
  have empty: "as = [] \<longleftrightarrow> sd_attributes s = []" "ls = [] \<longleftrightarrow> sd_links s = []"
    using those_length [OF as] those_length [OF ls] by auto
  let ?r = "received ft j"
  have "req as_str ''traceId'' ?r = Some (to_valid (sd_trace_id s))" "req as_str ''spanId'' ?r = Some (to_valid (sd_span_id s))"
    "defaulted [] as_str ''parentSpanId'' ?r = Some (to_valid (sd_parent_span_id s))"
    "req as_str ''name'' ?r = Some (to_valid (sd_name s))" "req as_int ''kind'' ?r = Some (sd_kind s)"
    "req as_str ''startTimeUnixNano'' ?r = Some (to_valid (sd_start s))"
    "req as_str ''endTimeUnixNano'' ?r = Some (to_valid (sd_end s))"
    "defaulted [] (as_list read_kv) ''attributes'' ?r = Some (map valid_kv (sd_attributes s))"
    "defaulted [] (as_list read_link) ''links'' ?r = Some (map valid_link (sd_links s))"
    "optional read_status ''status'' ?r = Some (map_option valid_status (sd_status s))"
    unfolding rcv using rd empty by (auto simp: wire_defs member_readers simp del: as_list.simps split: option.split)
  then show ?thesis by (simp add: read_span_def valid_span_def)
qed

interpretation span_text: text_codec span_json read_span valid_span
  by unfold_locales (rule span_received)

interpretation scope_spans_text: text_codec scope_spans_json read_scope_spans valid_scope_spans
  by unfold_locales
    (auto simp: scope_spans_json_def read_scope_spans_def valid_scope_spans_def wire_simps comp_def span_text.list_received)

interpretation resource_text: text_codec resource_json read_resource valid_resource
  by unfold_locales
    (auto simp: resource_json_def read_resource_def valid_resource_def wire_simps comp_def kv_text.list_received)

interpretation resource_spans_text: text_codec resource_spans_json read_resource_spans valid_resource_spans
  by unfold_locales
    (auto simp: resource_spans_json_def read_resource_spans_def valid_resource_spans_def wire_simps comp_def
      resource_text.dec_received scope_spans_text.list_received)

interpretation trace_text: text_codec trace_json read_trace valid_trace
  by unfold_locales
    (auto simp: trace_json_def read_trace_def valid_trace_def wire_simps comp_def resource_spans_text.list_received)


lemma record_received:
  assumes "record_json d = Some j" and "floats_ok ft j"
  shows "read_record (received ft j) = Some (valid_record d)"
proof -
  obtain body as where body: "any_json (lr_body d) = Some body" and as: "those (map kv_json (lr_attributes d)) = Some as"
    and j: "j = JObj (str_member ''timeUnixNano'' (lr_time d) @ str_omit ''observedTimeUnixNano'' (lr_observed_time d)
                 @ [(''severityNumber'', JInt (lr_severity_number d))]
                 @ str_omit ''severityText'' (lr_severity_text d) @ [(''body'', body)]
                 @ arr_omit ''attributes'' as @ int_omit ''droppedAttributesCount'' (lr_dropped_count d)
                 @ ptr_omit ''flags'' JInt (lr_flags d)
                 @ str_omit ''traceId'' (lr_trace_id d) @ str_omit ''spanId'' (lr_span_id d))"
    using assms(1) by (auto simp: record_json_def bind_eq_Some_conv)
  have rcv: "received ft j = JObj (str_member ''timeUnixNano'' (to_valid (lr_time d))
      @ str_omit ''observedTimeUnixNano'' (to_valid (lr_observed_time d))
      @ [(''severityNumber'', JInt (lr_severity_number d))]
      @ str_omit ''severityText'' (to_valid (lr_severity_text d)) @ [(''body'', received ft body)]
      @ arr_omit ''attributes'' (map (received ft) as) @ int_omit ''droppedAttributesCount'' (lr_dropped_count d)
      @ ptr_omit ''flags'' JInt (lr_flags d)
      @ str_omit ''traceId'' (to_valid (lr_trace_id d)) @ str_omit ''spanId'' (to_valid (lr_span_id d)))"
    by (simp add: j)
  have ok: "list_all (floats_ok ft) as" "floats_ok ft body" using assms(2) by (simp_all add: j)
  have rd: "as_list read_kv (JArr (map (received ft) as)) = Some (map valid_kv (lr_attributes d))"
    "read_any (received ft body) = Some (valid_any (lr_body d))"
    using kv_text.as_list_received [OF as ok(1)] any_text.dec_received [OF body ok(2)] .
  have empty: "as = [] \<longleftrightarrow> lr_attributes d = []" using those_length [OF as] by auto
  let ?r = "received ft j"
  have "req as_str ''timeUnixNano'' ?r = Some (to_valid (lr_time d))"
    "defaulted [] as_str ''observedTimeUnixNano'' ?r = Some (to_valid (lr_observed_time d))"
    "req as_int ''severityNumber'' ?r = Some (lr_severity_number d)"
    "defaulted [] as_str ''severityText'' ?r = Some (to_valid (lr_severity_text d))"
    "req read_any ''body'' ?r = Some (valid_any (lr_body d))"
    "defaulted [] (as_list read_kv) ''attributes'' ?r = Some (map valid_kv (lr_attributes d))"
    "defaulted 0 as_int ''droppedAttributesCount'' ?r = Some (lr_dropped_count d)"
    "optional as_int ''flags'' ?r = Some (lr_flags d)"
    "defaulted [] as_str ''traceId'' ?r = Some (to_valid (lr_trace_id d))"
    "defaulted [] as_str ''spanId'' ?r = Some (to_valid (lr_span_id d))"
    unfolding rcv using rd empty by (auto simp: wire_defs member_readers simp del: as_list.simps split: option.split)
  then show ?thesis by (simp add: read_record_def valid_record_def)
qed

interpretation record_text: text_codec record_json read_record valid_record
  by unfold_locales (rule record_received)

interpretation scope_logs_text: text_codec scope_logs_json read_scope_logs valid_scope_logs
  by unfold_locales
    (auto simp: scope_logs_json_def read_scope_logs_def valid_scope_logs_def wire_simps comp_def record_text.list_received)

interpretation resource_logs_text: text_codec resource_logs_json read_resource_logs valid_resource_logs
  by unfold_locales
    (auto simp: resource_logs_json_def read_resource_logs_def valid_resource_logs_def wire_simps comp_def
      resource_text.dec_received scope_logs_text.list_received)

interpretation logs_text: text_codec logs_json read_logs valid_logs
  by unfold_locales
    (auto simp: logs_json_def read_logs_def valid_logs_def wire_simps comp_def resource_logs_text.list_received)

section \<open>Valid text is left alone\<close>

lemma hex_digit_ascii: "is_hex s \<Longrightarrow> is_ascii s"
  by (auto simp: is_hex_def is_ascii_def list_all_iff)

lemma to_valid_id: "valid_id n s \<Longrightarrow> to_valid s = s"
  by (simp add: valid_id_def hex_digit_ascii to_valid_hex)

section \<open>Properties\<close>

text \<open>
  C11: the bytes of a post carry the whole batch: a receiver that parses the text of a trace request, or of a
  logs request, gets the request itself back, every omitted field at its zero value and every number exact;
  only a byte that is not part of a UTF-8 sequence is replaced, by U+FFFD.
\<close>
theorem posted_text_round_trip:
  "(trace_json p = Some j \<and> floats_ok ft j
      \<longrightarrow> Option.bind (parse_json (json_text ft j)) read_trace = Some (valid_trace p))
   \<and> (logs_json q = Some k \<and> floats_ok ft k
      \<longrightarrow> Option.bind (parse_json (json_text ft k)) read_logs = Some (valid_logs q))"
  using trace_text.text_round_trip logs_text.text_round_trip by blast

definition demo_double :: trace_request where
  "demo_double = build_payload [CHR 0xFF] ''test''
     [to_data (set_double ''load'' (Fin 1) (new_span demo_trace_id demo_span_id [] ''GET /'' 2 0 0))]"

text \<open>A whole float is written without a point, and still read as a float.\<close>

lemma whole_text: "float_text_ok (\<lambda>_. ''1'') 1"
  by (simp add: float_text_ok_def number_char_def in_range_def number_of_def integer_text_def digit_val_def)

lemma demo_double_json: "map_option (floats_ok (\<lambda>_. ''1'')) (trace_json demo_double) = Some True"
proof -
  have "\<not> is_sensitive_attribute_key ''load''" by code_simp
  then show ?thesis
  using whole_text
  by (simp add: demo_double_def to_data_def set_double_def set_attr_def new_span_def build_payload_def trace_json_def
      resource_spans_json_def resource_json_def resource_attributes_def scope_spans_json_def span_json_def kv_json_def
      any_json_def double_members_def string_value_def double_value_def empty_value_def scope_json_def wire_defs)
qed

lemma posted_text_round_trip_witness:
  "\<exists>j. trace_json demo_double = Some j
     \<and> Option.bind (parse_json (json_text (\<lambda>_. ''1'') j)) read_trace = Some (valid_trace demo_double)"
proof -
  have "\<exists>j. trace_json demo_double = Some j \<and> floats_ok (\<lambda>_. ''1'') j"
    using demo_double_json by (auto simp: map_option_eq_Some)
  then show ?thesis using posted_text_round_trip [of demo_double] by blast
qed

end
