(* ===== verification/Transport.thy ===== *)
theory Transport
  imports Otlp
begin

text \<open>
  \<open>transport.go\<close>: the two queueing transports, \<open>HTTPTransport\<close> and \<open>managedExporter\<close>.  Both run the
  same protocol between any number of application goroutines, one worker and a bounded channel; the
  custom exporter adds an optional flush hook, an optional shutdown hook and a fast path for a
  transport that has already stopped.  The protocol is a step relation, one atomic operation
  (channel operation, atomic counter, mutex section of one store) a step.
\<close>

section \<open>Batches, and what one export attempt comes to\<close>

record 'p outbound_batch =
  ob_url :: string
  ob_payload :: 'p

datatype export_signal = SignalTraces | SignalLogs | SignalOther nat

record ('t, 'l) custom_export_batch =
  ce_signal :: export_signal
  ce_traces :: 't
  ce_logs :: 'l

text \<open>A call into customer code: it returns (an error or nil), or panics.\<close>

datatype call_result = ReturnsNil | ReturnsError string | Panics

definition call_ok :: "call_result \<Rightarrow> bool" where
  "call_ok r \<longleftrightarrow> r = ReturnsNil"

text \<open>\<open>managedExporter.export\<close>, given how the customer's two methods behave on a payload.\<close>

definition export_batch ::
  "('t \<Rightarrow> call_result) \<Rightarrow> ('l \<Rightarrow> call_result) \<Rightarrow> ('t, 'l) custom_export_batch \<Rightarrow> bool" where
  "export_batch export_traces export_logs batch =
     (case ce_signal batch of
        SignalTraces \<Rightarrow> call_ok (export_traces (ce_traces batch))
      | SignalLogs \<Rightarrow> call_ok (export_logs (ce_logs batch))
      | SignalOther _ \<Rightarrow> False)"

text \<open>
  \<open>HTTPTransport.post\<close>.  Encoding (JSON and gzip), building the request and performing it are
  parameters; \<open>do_request\<close> answers with a status code, an error or a panic.
\<close>

record 'body http_request =
  hr_method :: string
  hr_url :: string
  hr_headers :: "(string \<times> string) list"
  hr_body :: 'body

datatype 'a attempt = Got 'a | Fails string | Blows

definition post ::
  "('p \<Rightarrow> 'body attempt) \<Rightarrow> (string \<Rightarrow> bool) \<Rightarrow> ('body http_request \<Rightarrow> int attempt) \<Rightarrow> string
   \<Rightarrow> 'p outbound_batch \<Rightarrow> bool" where
  "post gzip_json url_ok do_request key batch =
     (case gzip_json (ob_payload batch) of
        Got body \<Rightarrow>
          if \<not> url_ok (ob_url batch) then False
          else
            (case do_request
               \<lparr>hr_method = ''POST'', hr_url = ob_url batch,
                hr_headers = [(''Content-Type'', ''application/json''), (''Content-Encoding'', ''gzip''),
                              (''X-Restlytics-Key'', key)],
                hr_body = body\<rparr> of
               Got status \<Rightarrow> True
             | Fails _ \<Rightarrow> False
             | Blows \<Rightarrow> False)
      | Fails _ \<Rightarrow> False
      | Blows \<Rightarrow> False)"

section \<open>The state of a transport\<close>

text \<open>
  What is fixed at construction.  \<open>xc_accepts\<close> is the test of \<open>enqueue\<close> besides \<open>closed\<close>.
\<close>

record 'b xconfig =
  xc_capacity :: nat
  xc_timeout_ns :: int64
  xc_accepts :: "'b \<Rightarrow> bool"
  xc_flusher :: bool
  xc_shutdown :: bool
  xc_fast_stop :: bool

text \<open>The batch each \<open>Send\<close> method hands to \<open>enqueue\<close>.\<close>

definition traces_url :: "string \<Rightarrow> string" where
  "traces_url ingest_url = trim_right (CHR ''/'') ingest_url @ ''/v1/traces''"

definition logs_url :: "string \<Rightarrow> string" where
  "logs_url ingest_url = trim_right (CHR ''/'') ingest_url @ ''/v1/logs''"

definition http_send :: "string \<Rightarrow> 'p \<Rightarrow> 'p outbound_batch" where
  "http_send ingest_url payload = \<lparr>ob_url = traces_url ingest_url, ob_payload = payload\<rparr>"

definition http_send_logs :: "string \<Rightarrow> 'p \<Rightarrow> 'p outbound_batch" where
  "http_send_logs ingest_url payload = \<lparr>ob_url = logs_url ingest_url, ob_payload = payload\<rparr>"

text \<open>The unset field of a Go struct literal holds the zero value of its type.\<close>

definition managed_send :: "'l \<Rightarrow> 't \<Rightarrow> ('t, 'l) custom_export_batch" where
  "managed_send zero_logs payload =
     \<lparr>ce_signal = SignalTraces, ce_traces = payload, ce_logs = zero_logs\<rparr>"

definition managed_send_logs :: "'t \<Rightarrow> 'l \<Rightarrow> ('t, 'l) custom_export_batch" where
  "managed_send_logs zero_traces payload =
     \<lparr>ce_signal = SignalLogs, ce_traces = zero_traces, ce_logs = payload\<rparr>"

definition http_accepts :: "string \<Rightarrow> 'p outbound_batch \<Rightarrow> bool" where
  "http_accepts key batch \<longleftrightarrow> \<not> (ob_url batch = [] \<or> key = [])"

definition default_timeout :: "int64 \<Rightarrow> int64" where
  "default_timeout timeout = (if timeout \<le> 0 then 2000000000 else timeout)"

definition default_capacity :: "int \<Rightarrow> nat" where
  "default_capacity cap = (if cap \<le> 0 then 64 else nat cap)"

definition new_http_transport :: "string \<Rightarrow> int64 \<Rightarrow> int \<Rightarrow> 'p outbound_batch xconfig" where
  "new_http_transport key timeout cap =
     \<lparr>xc_capacity = default_capacity cap, xc_timeout_ns = default_timeout timeout,
      xc_accepts = http_accepts key, xc_flusher = False, xc_shutdown = False, xc_fast_stop = False\<rparr>"

definition public_http_transport :: "string \<Rightarrow> int64 \<Rightarrow> 'p outbound_batch xconfig" where
  "public_http_transport key timeout = new_http_transport key timeout 64"

definition new_managed_exporter ::
  "bool \<Rightarrow> bool \<Rightarrow> bool \<Rightarrow> int64 \<Rightarrow> int \<Rightarrow> ('t, 'l) custom_export_batch xconfig" where
  "new_managed_exporter is_nil flusher shutdown timeout cap =
     \<lparr>xc_capacity = default_capacity cap, xc_timeout_ns = default_timeout timeout,
      xc_accepts = (\<lambda>_. \<not> is_nil), xc_flusher = flusher, xc_shutdown = shutdown, xc_fast_stop = True\<rparr>"

text \<open>
  Where a goroutine is.  \<open>FlWait\<close>, \<open>FlHook\<close> and \<open>FlRet\<close> carry the number of batches that had been
  accepted when the flush was called, which only the specification reads.
\<close>

datatype 'b pc =
  Idle
| EnqHeld 'b | EnqPend 'b | EnqSent | EnqFull
| FlWait nat | FlHook nat | FlRet nat bool
| SdEnter | SdWait | SdFlushHook | SdStop | SdAwait | SdHook | SdClosing | SdClosed | SdRet bool

datatype 'b worker_pc = WIdle | WBusy 'b | WCounted | WCleared | WStopped

datatype close_once = NotRun | Running | Ran bool

record 'b xstate =
  xs_queue :: "'b list"
  xs_done :: bool
  xs_stopped :: bool
  xs_mutex :: "nat option"
  xs_closed :: bool
  xs_pending :: int64
  xs_in_flight :: int64
  xs_accepted :: int64
  xs_delivered :: int64
  xs_dropped :: int64
  xs_failed :: int64
  xs_worker :: "'b worker_pc"
  xs_close :: close_once
  xs_hook_calls :: nat
  xs_pc :: "nat \<Rightarrow> 'b pc"
  xs_entered :: "'b list"
  xs_exported :: "('b \<times> bool) list"

text \<open>
  \<open>xs_entered\<close> lists the batches that went into the channel, \<open>xs_exported\<close> the export attempts with
  their outcomes, both oldest first: the history of the channel's two ends.
\<close>

definition xstart :: "'b xstate" where
  "xstart =
     \<lparr>xs_queue = [], xs_done = False, xs_stopped = False, xs_mutex = None, xs_closed = False,
      xs_pending = 0, xs_in_flight = 0, xs_accepted = 0, xs_delivered = 0, xs_dropped = 0,
      xs_failed = 0, xs_worker = WIdle, xs_close = NotRun, xs_hook_calls = 0, xs_pc = (\<lambda>_. Idle),
      xs_entered = [], xs_exported = []\<rparr>"

definition goto :: "nat \<Rightarrow> 'b pc \<Rightarrow> 'b xstate \<Rightarrow> 'b xstate" where
  "goto i p s = s\<lparr>xs_pc := (xs_pc s)(i := p)\<rparr>"

record diagnostics =
  dg_accepted :: int64
  dg_delivered :: int64
  dg_dropped :: int64
  dg_failed :: int64
  dg_queued :: nat
  dg_in_flight :: int64
  dg_capacity :: nat
  dg_closed :: bool

definition diagnostics_of :: "'b xconfig \<Rightarrow> 'b xstate \<Rightarrow> diagnostics" where
  "diagnostics_of cfg s =
     \<lparr>dg_accepted = xs_accepted s, dg_delivered = xs_delivered s, dg_dropped = xs_dropped s,
      dg_failed = xs_failed s, dg_queued = length (xs_queue s), dg_in_flight = xs_in_flight s,
      dg_capacity = xc_capacity cfg, dg_closed = xs_closed s\<rparr>"

section \<open>enqueue\<close>

inductive enqueue_step :: "'b xconfig \<Rightarrow> nat \<Rightarrow> 'b xstate \<Rightarrow> 'b xstate \<Rightarrow> bool" for cfg i where
  enq_lock:
    "xs_pc s i = Idle \<Longrightarrow> xs_mutex s = None \<Longrightarrow>
     enqueue_step cfg i s (goto i (EnqHeld b) (s\<lparr>xs_mutex := Some i\<rparr>))"
| enq_refused:
    "xs_pc s i = EnqHeld b \<Longrightarrow> xs_closed s \<or> \<not> xc_accepts cfg b \<Longrightarrow>
     enqueue_step cfg i s
       (goto i Idle (s\<lparr>xs_dropped := add64 (xs_dropped s) 1, xs_mutex := None\<rparr>))"
| enq_pending:
    "xs_pc s i = EnqHeld b \<Longrightarrow> \<not> (xs_closed s \<or> \<not> xc_accepts cfg b) \<Longrightarrow>
     enqueue_step cfg i s (goto i (EnqPend b) (s\<lparr>xs_pending := add64 (xs_pending s) 1\<rparr>))"
| enq_send:
    "xs_pc s i = EnqPend b \<Longrightarrow> length (xs_queue s) < xc_capacity cfg \<Longrightarrow>
     enqueue_step cfg i s
       (goto i EnqSent (s\<lparr>xs_queue := xs_queue s @ [b], xs_entered := xs_entered s @ [b]\<rparr>))"
| enq_full:
    "xs_pc s i = EnqPend b \<Longrightarrow> \<not> length (xs_queue s) < xc_capacity cfg \<Longrightarrow>
     enqueue_step cfg i s (goto i EnqFull (s\<lparr>xs_pending := add64 (xs_pending s) (-1)\<rparr>))"
| enq_accepted:
    "xs_pc s i = EnqSent \<Longrightarrow>
     enqueue_step cfg i s
       (goto i Idle (s\<lparr>xs_accepted := add64 (xs_accepted s) 1, xs_mutex := None\<rparr>))"
| enq_dropped:
    "xs_pc s i = EnqFull \<Longrightarrow>
     enqueue_step cfg i s
       (goto i Idle (s\<lparr>xs_dropped := add64 (xs_dropped s) 1, xs_mutex := None\<rparr>))"

section \<open>Flush\<close>

text \<open>
  The wait loop polls \<open>pending\<close>; a deadline may expire at any of its ticks.  The hook's goroutine
  answers, or the deadline comes first.
\<close>

inductive flush_step :: "'b xconfig \<Rightarrow> nat \<Rightarrow> 'b xstate \<Rightarrow> 'b xstate \<Rightarrow> bool" for cfg i where
  fl_call:
    "xs_pc s i = Idle \<Longrightarrow> flush_step cfg i s (goto i (FlWait (length (xs_entered s))) s)"
| fl_drained:
    "xs_pc s i = FlWait n \<Longrightarrow> xs_pending s = 0 \<Longrightarrow>
     flush_step cfg i s (goto i (if xc_flusher cfg then FlHook n else FlRet n True) s)"
| fl_expired:
    "xs_pc s i = FlWait n \<Longrightarrow> flush_step cfg i s (goto i (FlRet n False) s)"
| fl_hook:
    "xs_pc s i = FlHook n \<Longrightarrow> flush_step cfg i s (goto i (FlRet n (call_ok r)) s)"
| fl_hook_expired:
    "xs_pc s i = FlHook n \<Longrightarrow> flush_step cfg i s (goto i (FlRet n False) s)"
| fl_return:
    "xs_pc s i = FlRet n b \<Longrightarrow> flush_step cfg i s (goto i Idle s)"

section \<open>Shutdown\<close>

inductive shutdown_step :: "'b xconfig \<Rightarrow> nat \<Rightarrow> 'b xstate \<Rightarrow> 'b xstate \<Rightarrow> bool" for cfg i where
  sd_call:
    "xs_pc s i = Idle \<Longrightarrow> \<not> (xc_fast_stop cfg \<and> xs_stopped s) \<Longrightarrow>
     shutdown_step cfg i s (goto i SdEnter s)"
| sd_call_stopped:
    "xs_pc s i = Idle \<Longrightarrow> xc_fast_stop cfg \<and> xs_stopped s \<Longrightarrow>
     shutdown_step cfg i s (goto i SdHook s)"
| sd_close:
    "xs_pc s i = SdEnter \<Longrightarrow> xs_mutex s = None \<Longrightarrow>
     shutdown_step cfg i s (goto i SdWait (s\<lparr>xs_closed := True\<rparr>))"
| sd_drained:
    "xs_pc s i = SdWait \<Longrightarrow> xs_pending s = 0 \<Longrightarrow>
     shutdown_step cfg i s (goto i (if xc_flusher cfg then SdFlushHook else SdStop) s)"
| sd_wait_expired:
    "xs_pc s i = SdWait \<Longrightarrow> shutdown_step cfg i s (goto i (SdRet False) s)"
| sd_flush_hook:
    "xs_pc s i = SdFlushHook \<Longrightarrow>
     shutdown_step cfg i s (goto i (if call_ok r then SdStop else SdRet False) s)"
| sd_flush_expired:
    "xs_pc s i = SdFlushHook \<Longrightarrow> shutdown_step cfg i s (goto i (SdRet False) s)"
| sd_stop:
    "xs_pc s i = SdStop \<Longrightarrow> shutdown_step cfg i s (goto i SdAwait (s\<lparr>xs_done := True\<rparr>))"
| sd_stopped:
    "xs_pc s i = SdAwait \<Longrightarrow> xs_stopped s \<Longrightarrow> shutdown_step cfg i s (goto i SdHook s)"
| sd_await_expired:
    "xs_pc s i = SdAwait \<Longrightarrow> shutdown_step cfg i s (goto i (SdRet False) s)"
| sd_no_hook:
    "xs_pc s i = SdHook \<Longrightarrow> \<not> xc_shutdown cfg \<Longrightarrow> shutdown_step cfg i s (goto i (SdRet True) s)"
| sd_hook_call:
    "xs_pc s i = SdHook \<Longrightarrow> xc_shutdown cfg \<Longrightarrow> xs_close s = NotRun \<Longrightarrow>
     shutdown_step cfg i s
       (goto i SdClosing (s\<lparr>xs_close := Running, xs_hook_calls := Suc (xs_hook_calls s)\<rparr>))"
| sd_hook_done:
    "xs_pc s i = SdHook \<Longrightarrow> xc_shutdown cfg \<Longrightarrow> xs_close s = Ran ok \<Longrightarrow>
     shutdown_step cfg i s (goto i SdClosed s)"
| sd_closing:
    "xs_pc s i = SdClosing \<Longrightarrow>
     shutdown_step cfg i s (goto i SdClosed (s\<lparr>xs_close := Ran (call_ok r)\<rparr>))"
| sd_closing_expired:
    "xs_pc s i = SdClosing \<Longrightarrow>
     shutdown_step cfg i s (goto i SdClosed (s\<lparr>xs_close := Ran False\<rparr>))"
| sd_closed:
    "xs_pc s i = SdClosed \<Longrightarrow> xs_close s = Ran ok \<Longrightarrow>
     shutdown_step cfg i s (goto i (SdRet ok) s)"
| sd_closed_expired:
    "xs_pc s i = SdClosed \<Longrightarrow> shutdown_step cfg i s (goto i (SdRet False) s)"
| sd_return:
    "xs_pc s i = SdRet b \<Longrightarrow> shutdown_step cfg i s (goto i Idle s)"

section \<open>The worker\<close>

text \<open>
  \<open>run\<close>: a \<open>select\<close> with both cases ready takes either.  \<open>ok\<close> is what \<open>post\<close> or \<open>export\<close> returned
  for the batch; it always returns, a panic having been recovered.
\<close>

inductive worker_step :: "'b xstate \<Rightarrow> 'b xstate \<Rightarrow> bool" where
  wk_take:
    "xs_worker s = WIdle \<Longrightarrow> xs_queue s = b # q \<Longrightarrow>
     worker_step s (s\<lparr>xs_queue := q, xs_worker := WBusy b, xs_in_flight := 1\<rparr>)"
| wk_delivered:
    "xs_worker s = WBusy b \<Longrightarrow>
     worker_step s (s\<lparr>xs_delivered := add64 (xs_delivered s) 1, xs_worker := WCounted,
                       xs_exported := xs_exported s @ [(b, True)]\<rparr>)"
| wk_failed:
    "xs_worker s = WBusy b \<Longrightarrow>
     worker_step s (s\<lparr>xs_failed := add64 (xs_failed s) 1, xs_worker := WCounted,
                       xs_exported := xs_exported s @ [(b, False)]\<rparr>)"
| wk_cleared:
    "xs_worker s = WCounted \<Longrightarrow> worker_step s (s\<lparr>xs_in_flight := 0, xs_worker := WCleared\<rparr>)"
| wk_release:
    "xs_worker s = WCleared \<Longrightarrow>
     worker_step s (s\<lparr>xs_pending := add64 (xs_pending s) (-1), xs_worker := WIdle\<rparr>)"
| wk_stop:
    "xs_worker s = WIdle \<Longrightarrow> xs_done s \<Longrightarrow>
     worker_step s (s\<lparr>xs_stopped := True, xs_worker := WStopped\<rparr>)"

inductive xstep :: "'b xconfig \<Rightarrow> 'b xstate \<Rightarrow> 'b xstate \<Rightarrow> bool" for cfg where
  step_enqueue: "enqueue_step cfg i s t \<Longrightarrow> xstep cfg s t"
| step_flush: "flush_step cfg i s t \<Longrightarrow> xstep cfg s t"
| step_shutdown: "shutdown_step cfg i s t \<Longrightarrow> xstep cfg s t"
| step_worker: "worker_step s t \<Longrightarrow> xstep cfg s t"

section \<open>The invariant\<close>

fun holds_mutex :: "'b pc \<Rightarrow> bool" where
  "holds_mutex (EnqHeld _) = True"
| "holds_mutex (EnqPend _) = True"
| "holds_mutex EnqSent = True"
| "holds_mutex EnqFull = True"
| "holds_mutex _ = False"

fun is_pend :: "'b pc \<Rightarrow> bool" where
  "is_pend (EnqPend _) = True"
| "is_pend _ = False"

definition in_hand :: "'b worker_pc \<Rightarrow> 'b list" where
  "in_hand w = (case w of WBusy b \<Rightarrow> [b] | _ \<Rightarrow> [])"

definition working :: "'b worker_pc \<Rightarrow> int" where
  "working w = (case w of WBusy _ \<Rightarrow> 1 | WCounted \<Rightarrow> 1 | WCleared \<Rightarrow> 1 | _ \<Rightarrow> 0)"

definition mid_enqueue :: "('b pc \<Rightarrow> bool) \<Rightarrow> 'b xstate \<Rightarrow> int" where
  "mid_enqueue P s = (case xs_mutex s of None \<Rightarrow> 0 | Some i \<Rightarrow> if P (xs_pc s i) then 1 else 0)"

text \<open>The mutex, the channel and its two ends.\<close>

definition queue_inv :: "'b xconfig \<Rightarrow> 'b xstate \<Rightarrow> bool" where
  "queue_inv cfg s \<longleftrightarrow>
     (\<forall>i. holds_mutex (xs_pc s i) \<longleftrightarrow> xs_mutex s = Some i)
     \<and> length (xs_queue s) \<le> xc_capacity cfg
     \<and> xs_entered s = map fst (xs_exported s) @ in_hand (xs_worker s) @ xs_queue s"

text \<open>The counters are what the history says, modulo 2^64; \<open>pending\<close> and \<open>inFlight\<close> are exact.\<close>

definition count_inv :: "'b xconfig \<Rightarrow> 'b xstate \<Rightarrow> bool" where
  "count_inv cfg s \<longleftrightarrow>
     xs_pending s = int (length (xs_queue s)) + working (xs_worker s) + mid_enqueue is_pend s
     \<and> xs_in_flight s = (case xs_worker s of WBusy _ \<Rightarrow> 1 | WCounted \<Rightarrow> 1 | _ \<Rightarrow> 0)
     \<and> xs_accepted s = wrap64 (int (length (xs_entered s)) - mid_enqueue (\<lambda>p. p = EnqSent) s)
     \<and> xs_delivered s = wrap64 (int (length (filter snd (xs_exported s))))
     \<and> xs_failed s = wrap64 (int (length (filter (\<lambda>x. \<not> snd x) (xs_exported s))))"

text \<open>Closing, stopping, and what each goroutine on its way through a shutdown or a flush knows.\<close>

fun pc_knows :: "'b xstate \<Rightarrow> 'b pc \<Rightarrow> bool" where
  "pc_knows s (FlWait n) = (n \<le> length (xs_entered s))"
| "pc_knows s (FlHook n) = (n \<le> length (xs_exported s))"
| "pc_knows s (FlRet n b) = (b \<longrightarrow> n \<le> length (xs_exported s))"
| "pc_knows s SdWait = xs_closed s"
| "pc_knows s SdFlushHook = (xs_closed s \<and> xs_pending s = 0)"
| "pc_knows s SdStop = (xs_closed s \<and> xs_pending s = 0)"
| "pc_knows s SdAwait = xs_done s"
| "pc_knows s SdHook = xs_stopped s"
| "pc_knows s SdClosing = (xs_stopped s \<and> xs_close s = Running)"
| "pc_knows s SdClosed = xs_stopped s"
| "pc_knows s (SdRet b) = (b \<longrightarrow> xs_stopped s)"
| "pc_knows s _ = True"

definition close_inv :: "'b xstate \<Rightarrow> bool" where
  "close_inv s \<longleftrightarrow>
     (xs_closed s \<longrightarrow> mid_enqueue (\<lambda>p. \<not> (\<exists>b. p = EnqHeld b)) s = 0)
     \<and> (xs_done s \<longrightarrow> xs_closed s \<and> xs_pending s = 0)
     \<and> (xs_stopped s \<longleftrightarrow> xs_worker s = WStopped) \<and> (xs_stopped s \<longrightarrow> xs_done s)
     \<and> (xs_close s \<noteq> NotRun \<longrightarrow> xs_stopped s)
     \<and> xs_hook_calls s = (if xs_close s = NotRun then 0 else 1)
     \<and> (\<forall>i j. xs_pc s i = SdClosing \<longrightarrow> xs_pc s j = SdClosing \<longrightarrow> i = j)
     \<and> (\<forall>i. pc_knows s (xs_pc s i))"

definition xinv :: "'b xconfig \<Rightarrow> 'b xstate \<Rightarrow> bool" where
  "xinv cfg s \<longleftrightarrow> queue_inv cfg s \<and> count_inv cfg s \<and> close_inv s"

named_theorems inv_defs "the parts of the transport invariant"

lemmas [inv_defs] = queue_inv_def count_inv_def close_inv_def

definition roomy :: "'b xconfig \<Rightarrow> bool" where
  "roomy cfg \<longleftrightarrow> int (xc_capacity cfg) + 2 \<le> max_int64"

lemma goto_simps [simp]:
  "xs_pc (goto i p s) = (xs_pc s)(i := p)" "xs_queue (goto i p s) = xs_queue s"
  "xs_done (goto i p s) = xs_done s" "xs_stopped (goto i p s) = xs_stopped s"
  "xs_mutex (goto i p s) = xs_mutex s" "xs_closed (goto i p s) = xs_closed s"
  "xs_pending (goto i p s) = xs_pending s" "xs_in_flight (goto i p s) = xs_in_flight s"
  "xs_accepted (goto i p s) = xs_accepted s" "xs_delivered (goto i p s) = xs_delivered s"
  "xs_dropped (goto i p s) = xs_dropped s" "xs_failed (goto i p s) = xs_failed s"
  "xs_worker (goto i p s) = xs_worker s" "xs_close (goto i p s) = xs_close s"
  "xs_hook_calls (goto i p s) = xs_hook_calls s" "xs_entered (goto i p s) = xs_entered s"
  "xs_exported (goto i p s) = xs_exported s"
  by (simp_all add: goto_def)

lemma wrap64_add: "add64 (wrap64 a) b = wrap64 (a + b)"
  by (simp add: add64_def wrap64_def mod_simps algebra_simps)

lemma xstart_inv: "xinv cfg xstart"
  by (auto simp: xinv_def inv_defs xstart_def in_hand_def working_def mid_enqueue_def wrap64_def)

subsection \<open>The mutex, the channel and the counters\<close>

text \<open>
  Flush and shutdown never touch the mutex, the channel or a counter: all they move is one goroutine
  that does not hold the mutex.
\<close>

definition quiet :: "nat \<Rightarrow> 'b xstate \<Rightarrow> 'b xstate \<Rightarrow> bool" where
  "quiet i s t \<longleftrightarrow>
     (\<exists>p. xs_pc t = (xs_pc s)(i := p) \<and> \<not> holds_mutex p) \<and> \<not> holds_mutex (xs_pc s i)
     \<and> xs_mutex t = xs_mutex s \<and> xs_queue t = xs_queue s \<and> xs_worker t = xs_worker s
     \<and> xs_entered t = xs_entered s \<and> xs_exported t = xs_exported s \<and> xs_pending t = xs_pending s
     \<and> xs_in_flight t = xs_in_flight s \<and> xs_accepted t = xs_accepted s
     \<and> xs_delivered t = xs_delivered s \<and> xs_failed t = xs_failed s"

lemma flush_quiet: "flush_step cfg i s t \<Longrightarrow> quiet i s t"
  by (induction rule: flush_step.induct) (auto simp: quiet_def)

lemma shutdown_quiet: "shutdown_step cfg i s t \<Longrightarrow> quiet i s t"
  by (induction rule: shutdown_step.induct) (auto simp: quiet_def)

lemma mutex_holder: "queue_inv cfg s \<Longrightarrow> xs_mutex s = Some i \<longleftrightarrow> holds_mutex (xs_pc s i)"
  by (simp add: queue_inv_def)

lemma one_holder:
  "queue_inv cfg s \<Longrightarrow> holds_mutex (xs_pc s i) \<Longrightarrow> holds_mutex (xs_pc s j) \<Longrightarrow> i = j"
  using mutex_holder [of cfg s] by (metis option.inject)

lemma quiet_queue_inv:
  assumes "quiet i s t" and "queue_inv cfg s"
  shows "queue_inv cfg t"
proof -
  have "holds_mutex (xs_pc t j) = holds_mutex (xs_pc s j)" for j
    using assms(1) by (auto simp: quiet_def split: if_splits)
  with assms show ?thesis by (simp add: quiet_def queue_inv_def)
qed

lemma quiet_mid_enqueue:
  assumes "quiet i s t" and "queue_inv cfg s"
  shows "mid_enqueue P t = mid_enqueue P s"
  using assms mutex_holder [OF assms(2), of i] by (auto simp: quiet_def mid_enqueue_def split: option.splits)

lemma quiet_count_inv: "quiet i s t \<Longrightarrow> queue_inv cfg s \<Longrightarrow> count_inv cfg s \<Longrightarrow> count_inv cfg t"
  by (simp add: count_inv_def quiet_mid_enqueue) (simp add: quiet_def)

lemma queue_inv_enqueue:
  assumes "enqueue_step cfg i s t" and "queue_inv cfg s"
  shows "queue_inv cfg t"
proof -
  have "\<forall>j. xs_mutex s = Some j \<longleftrightarrow> holds_mutex (xs_pc s j)"
    and one: "holds_mutex (xs_pc s i) \<Longrightarrow> j \<noteq> i \<Longrightarrow> \<not> holds_mutex (xs_pc s j)" for j
    using mutex_holder [OF assms(2)] one_holder [OF assms(2)] by blast+
  with assms show ?thesis
    by (induction rule: enqueue_step.induct) (auto simp: queue_inv_def)
qed

lemma queue_inv_worker: "worker_step s t \<Longrightarrow> queue_inv cfg s \<Longrightarrow> queue_inv cfg t"
  by (induction rule: worker_step.induct) (auto simp: queue_inv_def in_hand_def)

lemma queue_inv_step: "xstep cfg s t \<Longrightarrow> queue_inv cfg s \<Longrightarrow> queue_inv cfg t"
  by (induction rule: xstep.induct)
    (blast intro: queue_inv_enqueue quiet_queue_inv flush_quiet shutdown_quiet queue_inv_worker)+

lemma pending_range:
  assumes "queue_inv cfg s" and "count_inv cfg s" and "roomy cfg"
  shows "0 \<le> xs_pending s" "xs_pending s \<le> int (xc_capacity cfg) + 2" "xs_pending s \<le> max_int64"
proof -
  have "0 \<le> working (xs_worker s)" "working (xs_worker s) \<le> 1"
    by (simp_all add: working_def split: worker_pc.splits)
  moreover have "0 \<le> mid_enqueue is_pend s" "mid_enqueue is_pend s \<le> 1"
    by (simp_all add: mid_enqueue_def split: option.splits)
  ultimately show "0 \<le> xs_pending s" "xs_pending s \<le> int (xc_capacity cfg) + 2" "xs_pending s \<le> max_int64"
    using assms by (auto simp: queue_inv_def count_inv_def roomy_def)
qed

lemma add64_small: "- 1 \<le> a + b \<Longrightarrow> a + b \<le> max_int64 \<Longrightarrow> add64 a b = a + b"
  by (rule add64_exact) (simp add: in64_def min_int64_def)

lemma mid_enqueue_holder:
  "queue_inv cfg s \<Longrightarrow> holds_mutex (xs_pc s i) \<Longrightarrow> mid_enqueue P s = (if P (xs_pc s i) then 1 else 0)"
  using mutex_holder [of cfg s i] by (simp add: mid_enqueue_def)

lemma count_inv_enqueue:
  assumes "enqueue_step cfg i s t" and "queue_inv cfg s" and "count_inv cfg s" and "roomy cfg"
  shows "count_inv cfg t"
proof -
  note q = assms(2) and c = assms(3) and r = assms(4)
  note holder = mid_enqueue_holder [OF q] and mutex = mutex_holder [OF q, of i]
  note range = pending_range [OF q c r]
  from assms(1) show ?thesis
  proof cases
    case (enq_pending b)
    have "xs_pending s \<le> int (xc_capacity cfg) + 1"
      using c q holder [of i is_pend] enq_pending
      by (auto simp: count_inv_def queue_inv_def working_def split: worker_pc.splits)
    then have "add64 (xs_pending s) 1 = xs_pending s + 1"
      using range r by (intro add64_small) (simp_all add: roomy_def)
    then show ?thesis
      using enq_pending c mutex holder [of i is_pend] holder [of i "\<lambda>p. p = EnqSent"]
      by (simp add: count_inv_def mid_enqueue_def)
  next
    case (enq_full b)
    have "add64 (xs_pending s) (- 1) = xs_pending s - 1"
      using range by (subst add64_small) simp_all
    then show ?thesis
      using enq_full c mutex holder [of i is_pend] holder [of i "\<lambda>p. p = EnqSent"]
      by (simp add: count_inv_def mid_enqueue_def)
  next
    case enq_accepted
    then show ?thesis
      using c mutex holder [of i is_pend] holder [of i "\<lambda>p. p = EnqSent"]
      by (simp add: count_inv_def mid_enqueue_def wrap64_add)
  qed (use c mutex holder [of i is_pend] holder [of i "\<lambda>p. p = EnqSent"] in
        \<open>simp_all add: count_inv_def mid_enqueue_def\<close>)
qed

lemma count_inv_worker:
  assumes "worker_step s t" and "queue_inv cfg s" and "count_inv cfg s" and "roomy cfg"
  shows "count_inv cfg t"
proof -
  note range = pending_range [OF assms(2-4)]
  have dec: "add64 (xs_pending s) (- 1) = xs_pending s - 1"
    using range by (subst add64_small) simp_all
  have "mid_enqueue P t = mid_enqueue P s" for P
    using assms(1) by cases (simp_all add: mid_enqueue_def split: option.splits)
  with assms(1,3) dec show ?thesis
    by cases (simp_all add: count_inv_def working_def wrap64_add add.commute)
qed

lemma count_inv_step:
  "xstep cfg s t \<Longrightarrow> queue_inv cfg s \<Longrightarrow> count_inv cfg s \<Longrightarrow> roomy cfg \<Longrightarrow> count_inv cfg t"
  by (induction rule: xstep.induct)
    (blast intro: count_inv_enqueue quiet_count_inv flush_quiet shutdown_quiet count_inv_worker)+

subsection \<open>Closing and stopping\<close>

lemma drained:
  assumes "queue_inv cfg s" and "count_inv cfg s" and "xs_pending s = 0"
  shows "xs_queue s = []" "working (xs_worker s) = 0" "mid_enqueue is_pend s = 0"
    "xs_entered s = map fst (xs_exported s)"
proof -
  have "0 \<le> working (xs_worker s)" "0 \<le> mid_enqueue is_pend s"
    by (simp_all add: working_def mid_enqueue_def split: worker_pc.splits option.splits)
  moreover have "int (length (xs_queue s)) + working (xs_worker s) + mid_enqueue is_pend s = 0"
    using assms(2,3) by (simp add: count_inv_def)
  ultimately have "int (length (xs_queue s)) = 0 \<and> working (xs_worker s) = 0 \<and> mid_enqueue is_pend s = 0"
    by linarith
  then show q: "xs_queue s = []" "working (xs_worker s) = 0" "mid_enqueue is_pend s = 0"
    by simp_all
  with assms(1) show "xs_entered s = map fst (xs_exported s)"
    by (auto simp: queue_inv_def in_hand_def working_def split: worker_pc.splits)
qed

text \<open>What a step may not take back.\<close>

definition forward :: "'b xstate \<Rightarrow> 'b xstate \<Rightarrow> bool" where
  "forward s t \<longleftrightarrow>
     length (xs_entered s) \<le> length (xs_entered t) \<and> length (xs_exported s) \<le> length (xs_exported t)
     \<and> (xs_closed s \<longrightarrow> xs_closed t \<and> (xs_pending s = 0 \<longrightarrow> xs_pending t = 0) \<and> xs_entered t = xs_entered s)
     \<and> (xs_done s \<longrightarrow> xs_done t) \<and> (xs_stopped s \<longrightarrow> xs_stopped t)"

lemma pc_knows_forward:
  "pc_knows s p \<Longrightarrow> forward s t \<Longrightarrow> p \<noteq> SdClosing \<or> xs_close t = xs_close s \<Longrightarrow> pc_knows t p"
  by (cases p) (auto simp: forward_def)

lemma mid_not_held:
  assumes "queue_inv cfg s" and "close_inv s" and "holds_mutex (xs_pc s i)" and "\<not> (\<exists>b. xs_pc s i = EnqHeld b)"
  shows "\<not> xs_closed s"
  using assms mid_enqueue_holder [OF assms(1,3), of "\<lambda>p. \<not> (\<exists>b. p = EnqHeld b)"]
  by (auto simp: close_inv_def)

lemma forward_enqueue:
  assumes "enqueue_step cfg i s t" and "queue_inv cfg s" and "close_inv s"
  shows "forward s t \<and> xs_closed t = xs_closed s \<and> xs_close t = xs_close s \<and> xs_done t = xs_done s
    \<and> xs_stopped t = xs_stopped s \<and> xs_worker t = xs_worker s \<and> xs_hook_calls t = xs_hook_calls s"
  using assms(1) mid_not_held [OF assms(2,3), of i]
  by cases (auto simp: forward_def)

lemma forward_flush:
  "flush_step cfg i s t \<Longrightarrow> forward s t \<and> xs_closed t = xs_closed s \<and> xs_close t = xs_close s
    \<and> xs_done t = xs_done s \<and> xs_stopped t = xs_stopped s \<and> xs_worker t = xs_worker s
    \<and> xs_hook_calls t = xs_hook_calls s"
  by (induction rule: flush_step.induct) (auto simp: forward_def)

lemma forward_shutdown: "shutdown_step cfg i s t \<Longrightarrow> forward s t"
  by (induction rule: shutdown_step.induct) (auto simp: forward_def)

lemma forward_worker:
  assumes "worker_step s t" and "queue_inv cfg s" and "count_inv cfg s"
  shows "forward s t"
  using assms(1) drained(2) [OF assms(2,3)] by cases (auto simp: forward_def working_def)

lemma close_enqueue:
  assumes "enqueue_step cfg i s t" and "queue_inv cfg s" and "close_inv s" and "queue_inv cfg t"
  shows "close_inv t"
proof -
  note f = forward_enqueue [OF assms(1-3)]
  have held: "mid_enqueue (\<lambda>p. \<not> (\<exists>b. p = EnqHeld b)) t = 0" if "xs_closed s"
    using assms(1) that mid_not_held [OF assms(2,3), of i]
    by cases (auto simp: mid_enqueue_def)
  have "pc_knows t (xs_pc t j)" for j
  proof (cases "j = i")
    case True
    with assms(1) show ?thesis by cases auto
  next
    case False
    have "xs_pc t j = xs_pc s j" using assms(1) False by cases auto
    then show ?thesis using f pc_knows_forward [of s "xs_pc s j" t] assms(3) by (simp add: close_inv_def)
  qed
  moreover have "xs_pc t j = SdClosing \<Longrightarrow> xs_pc s j = SdClosing" for j
    using assms(1) by cases (auto split: if_splits)
  ultimately show ?thesis
    using f held assms(3) by (auto simp: close_inv_def forward_def)
qed

lemma close_flush:
  assumes "flush_step cfg i s t" and "queue_inv cfg s" and "count_inv cfg s" and "close_inv s"
  shows "close_inv t"
proof -
  note f = forward_flush [OF assms(1)]
  note mid = quiet_mid_enqueue [OF flush_quiet [OF assms(1)] assms(2)]
  have knows: "pc_knows s (xs_pc s i)" using assms(4) by (simp add: close_inv_def)
  have ent: "xs_pending s = 0 \<Longrightarrow> length (xs_entered s) = length (xs_exported s)"
    using drained(4) [OF assms(2,3)] by simp
  have "pc_knows t (xs_pc t j)" for j
  proof (cases "j = i")
    case True
    with assms(1) knows ent show ?thesis by cases auto
  next
    case False
    have "xs_pc t j = xs_pc s j" using assms(1) False by cases auto
    then show ?thesis using f pc_knows_forward [of s "xs_pc s j" t] assms(4) by (simp add: close_inv_def)
  qed
  moreover have "xs_pc t j = SdClosing \<Longrightarrow> xs_pc s j = SdClosing" for j
    using assms(1) by cases (auto split: if_splits)
  ultimately show ?thesis
    using f mid assms(4) by (auto simp: close_inv_def forward_def)
qed

lemma close_shutdown:
  assumes "shutdown_step cfg i s t" and "queue_inv cfg s" and "count_inv cfg s" and "close_inv s"
  shows "close_inv t"
proof -
  note f = forward_shutdown [OF assms(1)]
  note mid = quiet_mid_enqueue [OF shutdown_quiet [OF assms(1)] assms(2)]
  have knows: "pc_knows s (xs_pc s i)" and free: "xs_mutex s = None \<Longrightarrow> mid_enqueue P s = 0" for P
    using assms(4) by (simp_all add: close_inv_def mid_enqueue_def)
  have unique: "xs_pc s i = SdClosing \<Longrightarrow> xs_pc s j = SdClosing \<Longrightarrow> j = i" for j
    using assms(4) by (simp add: close_inv_def)
  have others: "j \<noteq> i \<Longrightarrow> xs_pc t j = xs_pc s j" for j
    using assms(1) by cases auto
  have running: "xs_pc s j = SdClosing \<Longrightarrow> j \<noteq> i \<Longrightarrow> xs_close t = xs_close s" for j
    using assms(1) assms(4) unique by cases (auto simp: close_inv_def dest!: spec [of _ j])
  have "pc_knows t (xs_pc t j)" for j
  proof (cases "j = i")
    case True
    with assms(1) knows show ?thesis by cases auto
  next
    case False
    then show ?thesis
      using f others [OF False] running [of j] pc_knows_forward [of s "xs_pc s j" t] assms(4)
      by (auto simp: close_inv_def)
  qed
  moreover have "xs_pc t j = SdClosing \<Longrightarrow> xs_pc t k = SdClosing \<Longrightarrow> j = k" for j k
  proof -
    have closing: "xs_pc s j = SdClosing \<Longrightarrow> xs_close s = Running" for j
      using assms(4) unfolding close_inv_def by (metis pc_knows.simps(9))
    have "xs_pc t i = SdClosing \<Longrightarrow> xs_close s = NotRun"
      using assms(1) by cases (auto split: if_splits)
    then show "xs_pc t j = SdClosing \<Longrightarrow> xs_pc t k = SdClosing \<Longrightarrow> j = k"
      using closing others [of j] others [of k] assms(4) unfolding close_inv_def
      by (metis close_once.distinct(1))
  qed
  moreover have "xs_done t \<longrightarrow> xs_closed t \<and> xs_pending t = 0"
    and "xs_closed t \<longrightarrow> mid_enqueue (\<lambda>p. \<not> (\<exists>b. p = EnqHeld b)) t = 0"
    and "xs_close t \<noteq> NotRun \<longrightarrow> xs_stopped t"
    and "xs_hook_calls t = (if xs_close t = NotRun then 0 else 1)"
    using assms(1) assms(4) knows mid free by (cases; auto simp: close_inv_def)+
  moreover have "xs_stopped t = xs_stopped s" "xs_worker t = xs_worker s"
    using assms(1) by (cases; simp)+
  ultimately show ?thesis
    using f assms(4) by (auto simp: close_inv_def forward_def)
qed

lemma close_worker:
  assumes "worker_step s t" and "queue_inv cfg s" and "count_inv cfg s" and "close_inv s"
  shows "close_inv t"
proof -
  note f = forward_worker [OF assms(1-3)]
  have same: "xs_pc t = xs_pc s" "xs_mutex t = xs_mutex s" "xs_closed t = xs_closed s" "xs_done t = xs_done s"
    "xs_close t = xs_close s" "xs_hook_calls t = xs_hook_calls s"
    using assms(1) by (cases; simp)+
  then have "mid_enqueue P t = mid_enqueue P s" for P
    by (simp add: mid_enqueue_def split: option.splits)
  moreover have "pc_knows t (xs_pc t j)" for j
    using f same assms(4) pc_knows_forward [of s "xs_pc s j" t] by (simp add: close_inv_def)
  moreover have "xs_stopped t \<longleftrightarrow> xs_worker t = WStopped" "xs_stopped t \<longrightarrow> xs_done t"
    using assms(1,4) by (cases; auto simp: close_inv_def)+
  ultimately show ?thesis
    using f same assms(4) by (auto simp: close_inv_def forward_def)
qed

lemma xinv_step:
  assumes "xstep cfg s t" and "xinv cfg s" and "roomy cfg"
  shows "xinv cfg t"
proof -
  have q: "queue_inv cfg s" and c: "count_inv cfg s" and k: "close_inv s"
    using assms(2) by (simp_all add: xinv_def)
  have qt: "queue_inv cfg t" using queue_inv_step [OF assms(1) q] .
  have "close_inv t"
    using assms(1)
    by cases (blast intro: close_enqueue close_flush close_shutdown close_worker q c k qt)+
  with qt count_inv_step [OF assms(1) q c assms(3)] show ?thesis by (simp add: xinv_def)
qed

text \<open>A transport whose channel fits the memory of a 64-bit machine is a step system with this invariant.\<close>

definition xreach :: "'b xconfig \<Rightarrow> 'b xstate \<Rightarrow> bool" where
  "xreach cfg = reachable (\<lambda>s. s = xstart \<and> roomy cfg) (xstep cfg)"

definition xgood :: "'b xconfig \<Rightarrow> 'b xstate \<Rightarrow> bool" where
  "xgood cfg s \<longleftrightarrow> roomy cfg \<and> xinv cfg s"

interpretation xsys: step_system "\<lambda>s. s = xstart \<and> roomy cfg" "xstep cfg" "xgood cfg" for cfg
  by unfold_locales (auto simp: xgood_def xstart_inv intro: xinv_step)

lemma xreach_inv: "xreach cfg s \<Longrightarrow> queue_inv cfg s \<and> count_inv cfg s \<and> close_inv s \<and> roomy cfg"
  using xsys.inv_reachable by (auto simp: xreach_def xgood_def xinv_def)

section \<open>What the worker can always do\<close>

definition worker_left :: "'b xstate \<Rightarrow> nat" where
  "worker_left s = 4 * length (xs_queue s)
     + (case xs_worker s of WBusy _ \<Rightarrow> 3 | WCounted \<Rightarrow> 2 | WCleared \<Rightarrow> 1 | _ \<Rightarrow> 0)"

lemma worker_progress:
  assumes "queue_inv cfg s" and "count_inv cfg s" and "close_inv s" and "worker_left s \<noteq> 0"
  shows "\<exists>t. worker_step s t \<and> worker_left t < worker_left s \<and> xs_entered t = xs_entered s
    \<and> xs_closed t = xs_closed s \<and> xs_pc t = xs_pc s"
proof (cases "xs_worker s")
  case WIdle
  with assms(4) obtain b q where "xs_queue s = b # q"
    by (cases "xs_queue s") (auto simp: worker_left_def)
  with WIdle show ?thesis
    by (intro exI [of _ "s\<lparr>xs_queue := q, xs_worker := WBusy b, xs_in_flight := 1\<rparr>"])
      (auto simp: worker_left_def intro: wk_take)
next
  case (WBusy b)
  then show ?thesis by (intro exI conjI, rule wk_delivered) (auto simp: worker_left_def)
next
  case WCounted
  then show ?thesis by (intro exI conjI, rule wk_cleared) (auto simp: worker_left_def)
next
  case WCleared
  then show ?thesis by (intro exI conjI, rule wk_release) (auto simp: worker_left_def)
next
  case WStopped
  then have "xs_pending s = 0" using assms(3) by (simp add: close_inv_def)
  then have "xs_queue s = []" using drained(1) [OF assms(1,2)] by simp
  with WStopped assms(4) show ?thesis by (simp add: worker_left_def)
qed

lemma worker_drains:
  assumes "xgood cfg s"
  shows "\<exists>t. worker_step\<^sup>*\<^sup>* s t \<and> xgood cfg t \<and> worker_left t = 0 \<and> xs_entered t = xs_entered s
    \<and> xs_closed t = xs_closed s \<and> xs_pc t = xs_pc s"
  using assms
proof (induction "worker_left s" arbitrary: s rule: less_induct)
  case less
  show ?case
  proof (cases "worker_left s = 0")
    case False
    then obtain u where u: "worker_step s u" "worker_left u < worker_left s" "xs_entered u = xs_entered s"
        "xs_closed u = xs_closed s" "xs_pc u = xs_pc s"
      using worker_progress less.prems by (metis xgood_def xinv_def)
    have "xgood cfg u"
      using xsys.inv_step [OF less.prems step_worker [OF u(1)]] .
    from less.hyps [OF u(2) this] u show ?thesis
      by (metis (no_types, lifting) converse_rtranclp_into_rtranclp)
  qed (use less.prems in blast)
qed

lemma worker_steps_xsteps: "worker_step\<^sup>*\<^sup>* s t \<Longrightarrow> (xstep cfg)\<^sup>*\<^sup>* s t"
  by (induction rule: rtranclp_induct) (auto intro: step_worker rtranclp.rtrancl_into_rtrancl)

lemma left_done: "worker_left s = 0 \<Longrightarrow> xs_queue s = [] \<and> working (xs_worker s) = 0"
  by (auto simp: worker_left_def working_def split: worker_pc.splits)

lemma forward_step:
  assumes "xstep cfg s t" and "xgood cfg s"
  shows "forward s t"
proof -
  have inv: "queue_inv cfg s" "count_inv cfg s" "close_inv s"
    using assms(2) by (simp_all add: xgood_def xinv_def)
  from assms(1) show ?thesis
    by cases (use inv in \<open>blast dest: forward_enqueue forward_flush forward_shutdown forward_worker\<close>)+
qed

lemma closed_steps:
  assumes "(xstep cfg)\<^sup>*\<^sup>* s t" and "xgood cfg s" and "xs_closed s"
  shows "xs_closed t \<and> xs_entered t = xs_entered s"
  using assms(1)
proof (induction rule: rtranclp_induct)
  case (step u v)
  then show ?case
    using forward_step [OF step.hyps(2) xsys.inv_steps [OF step.hyps(1) assms(2)]] by (simp add: forward_def)
qed (use assms in simp)

text \<open>A stopped transport stays stopped, and its channel stays as it is.\<close>

lemma stopped_step:
  assumes "xstep cfg s t" and "xgood cfg s" and "xs_stopped s"
  shows "xs_stopped t \<and> xs_entered t = xs_entered s \<and> xs_exported t = xs_exported s"
proof -
  have inv: "queue_inv cfg s" "count_inv cfg s" "close_inv s"
    using assms(2) by (simp_all add: xgood_def xinv_def)
  have "xs_closed s" "xs_worker s = WStopped" using inv(3) assms(3) by (auto simp: close_inv_def)
  moreover have "forward s t" using forward_step [OF assms(1,2)] .
  moreover from assms(1) have "xs_worker s = WStopped \<Longrightarrow> xs_exported t = xs_exported s"
    by cases (auto elim!: enqueue_step.cases flush_step.cases shutdown_step.cases worker_step.cases)
  ultimately show ?thesis using assms(3) by (simp add: forward_def)
qed

lemma stopped_steps:
  assumes "(xstep cfg)\<^sup>*\<^sup>* s t" and "xgood cfg s" and "xs_stopped s"
  shows "xs_stopped t \<and> xs_entered t = xs_entered s \<and> xs_exported t = xs_exported s"
  using assms(1)
proof (induction rule: rtranclp_induct)
  case (step u v)
  then show ?case
    using stopped_step [OF step.hyps(2) xsys.inv_steps [OF step.hyps(1) assms(2)]] by simp
qed (use assms in simp)

section \<open>Runs of one goroutine\<close>

lemma enqueue_runs:
  assumes "xs_pc s i = Idle" and "xs_mutex s = None"
  shows "\<exists>t. (enqueue_step cfg i)\<^sup>*\<^sup>* s t \<and> xs_pc t i = Idle \<and> xs_mutex t = None
    \<and> xs_worker t = xs_worker s \<and> xs_exported t = xs_exported s
    \<and> (if \<not> xs_closed s \<and> xc_accepts cfg b \<and> length (xs_queue s) < xc_capacity cfg
       then xs_queue t = xs_queue s @ [b] \<and> xs_entered t = xs_entered s @ [b] \<and> xs_accepted t = add64 (xs_accepted s) 1
            \<and> xs_dropped t = xs_dropped s
       else xs_queue t = xs_queue s \<and> xs_entered t = xs_entered s \<and> xs_accepted t = xs_accepted s
            \<and> xs_dropped t = add64 (xs_dropped s) 1)"
proof -
  let ?s1 = "goto i (EnqHeld b) (s\<lparr>xs_mutex := Some i\<rparr>)"
  have s1: "enqueue_step cfg i s ?s1" using assms by (rule enq_lock)
  have at1: "xs_pc ?s1 i = EnqHeld b" by simp
  show ?thesis
  proof (cases "xs_closed s \<or> \<not> xc_accepts cfg b")
    case True
    have "enqueue_step cfg i ?s1 (goto i Idle (?s1\<lparr>xs_dropped := add64 (xs_dropped ?s1) 1, xs_mutex := None\<rparr>))"
      using True by (intro enq_refused [OF at1]) simp
    with s1 have "(enqueue_step cfg i)\<^sup>*\<^sup>* s (goto i Idle (?s1\<lparr>xs_dropped := add64 (xs_dropped ?s1) 1, xs_mutex := None\<rparr>))"
      by (meson converse_rtranclp_into_rtranclp rtranclp.rtrancl_refl)
    with True show ?thesis
      by (intro exI [of _ "goto i Idle (?s1\<lparr>xs_dropped := add64 (xs_dropped ?s1) 1, xs_mutex := None\<rparr>)"]) auto
  next
    case False
    let ?s2 = "goto i (EnqPend b) (?s1\<lparr>xs_pending := add64 (xs_pending ?s1) 1\<rparr>)"
    have s2: "enqueue_step cfg i ?s1 ?s2"
      using False by (intro enq_pending [OF at1]) simp
    have at2: "xs_pc ?s2 i = EnqPend b" by simp
    show ?thesis
    proof (cases "length (xs_queue s) < xc_capacity cfg")
      case True
      let ?s3 = "goto i EnqSent (?s2\<lparr>xs_queue := xs_queue ?s2 @ [b], xs_entered := xs_entered ?s2 @ [b]\<rparr>)"
      let ?s4 = "goto i Idle (?s3\<lparr>xs_accepted := add64 (xs_accepted ?s3) 1, xs_mutex := None\<rparr>)"
      have "enqueue_step cfg i ?s2 ?s3" using True by (intro enq_send [OF at2]) simp
      moreover have "enqueue_step cfg i ?s3 ?s4" by (rule enq_accepted) simp
      ultimately have "(enqueue_step cfg i)\<^sup>*\<^sup>* s ?s4"
        using s1 s2 by (meson converse_rtranclp_into_rtranclp rtranclp.rtrancl_refl)
      with False True show ?thesis by (intro exI [of _ ?s4]) auto
    next
      case full: False
      let ?s3 = "goto i EnqFull (?s2\<lparr>xs_pending := add64 (xs_pending ?s2) (-1)\<rparr>)"
      let ?s4 = "goto i Idle (?s3\<lparr>xs_dropped := add64 (xs_dropped ?s3) 1, xs_mutex := None\<rparr>)"
      have "enqueue_step cfg i ?s2 ?s3" using full by (intro enq_full [OF at2]) simp
      moreover have "enqueue_step cfg i ?s3 ?s4" by (rule enq_dropped) simp
      ultimately have "(enqueue_step cfg i)\<^sup>*\<^sup>* s ?s4"
        using s1 s2 by (meson converse_rtranclp_into_rtranclp rtranclp.rtrancl_refl)
      with full show ?thesis by (intro exI [of _ ?s4]) auto
    qed
  qed
qed

text \<open>Once the work is done and the channel told to stop, the worker stops.\<close>

lemma worker_stops:
  assumes "worker_left u = 0" and "close_inv u" and "xs_worker v = xs_worker u" and "xs_stopped v = xs_stopped u"
    and "xs_done v"
  shows "\<exists>t. (xstep cfg)\<^sup>*\<^sup>* v t \<and> xs_stopped t \<and> xs_pc t = xs_pc v"
proof (cases "xs_stopped u")
  case True
  then show ?thesis using assms(4) by (intro exI [of _ v]) simp
next
  case False
  then have "xs_worker u = WIdle"
    using left_done [OF assms(1)] assms(2) by (auto simp: working_def close_inv_def split: worker_pc.splits)
  then have "worker_step v (v\<lparr>xs_stopped := True, xs_worker := WStopped\<rparr>)"
    using assms(3,5) by (intro wk_stop) simp_all
  then show ?thesis
    by (intro exI [of _ "v\<lparr>xs_stopped := True, xs_worker := WStopped\<rparr>"]) (auto intro: step_worker)
qed

lemma shutdown_runs:
  assumes "xreach cfg s" and "xs_pc s i = SdWait" and "\<not> xc_flusher cfg" and "\<not> xc_shutdown cfg"
  shows "\<exists>t. (xstep cfg)\<^sup>*\<^sup>* s t \<and> xs_pc t i = SdRet True \<and> map fst (xs_exported t) = xs_entered s"
proof -
  have good: "xgood cfg s" using xreach_inv [OF assms(1)] by (simp add: xgood_def xinv_def)
  obtain u where u: "worker_step\<^sup>*\<^sup>* s u" "xgood cfg u" "worker_left u = 0" "xs_entered u = xs_entered s"
      "xs_closed u = xs_closed s" "xs_pc u = xs_pc s"
    using worker_drains [OF good] by blast
  have inv: "queue_inv cfg u" "count_inv cfg u" "close_inv u"
    using u(2) by (simp_all add: xgood_def xinv_def)
  have closed: "xs_closed u"
    using inv(3) assms(2) u(6) unfolding close_inv_def by (metis pc_knows.simps(4))
  then have "mid_enqueue is_pend u = 0"
    using inv(1,3) mid_not_held [OF inv(1,3)] mutex_holder [OF inv(1)]
    by (fastforce simp: mid_enqueue_def split: option.splits elim: is_pend.elims)
  then have p0: "xs_pending u = 0"
    using inv(2) left_done [OF u(3)] by (simp add: count_inv_def)
  let ?v1 = "goto i SdStop u"
  let ?v2 = "goto i SdAwait (?v1\<lparr>xs_done := True\<rparr>)"
  have v1: "xstep cfg u ?v1"
    using sd_drained [of u i cfg] assms(2,3) u(6) p0 by (auto intro: step_shutdown)
  have v2: "xstep cfg ?v1 ?v2" by (rule step_shutdown, rule sd_stop) simp
  obtain v3 where v3: "(xstep cfg)\<^sup>*\<^sup>* ?v2 v3" "xs_stopped v3" "xs_pc v3 i = SdAwait"
    using worker_stops [OF u(3) inv(3), of ?v2 cfg] by auto
  let ?v4 = "goto i SdHook v3" and ?v5 = "goto i (SdRet True) (goto i SdHook v3)"
  have v4: "xstep cfg v3 ?v4" by (rule step_shutdown, rule sd_stopped) (use v3 in auto)
  have v5: "xstep cfg ?v4 ?v5" by (rule step_shutdown, rule sd_no_hook) (use assms(4) in auto)
  have "(xstep cfg)\<^sup>*\<^sup>* s ?v2"
    using worker_steps_xsteps [OF u(1)] v1 v2 by (meson rtranclp.rtrancl_into_rtrancl)
  then have run: "(xstep cfg)\<^sup>*\<^sup>* s ?v5"
    using v3(1) v4 v5 by (meson rtranclp.rtrancl_into_rtrancl rtranclp_trans)
  have good5: "xgood cfg ?v5" using xsys.inv_steps [OF run good] .
  have "xs_closed s" using closed u(5) by simp
  then have "xs_entered ?v5 = xs_entered s" using closed_steps [OF run good] by simp
  moreover have "xs_stopped ?v5" using v3 by simp
  then have "map fst (xs_exported ?v5) = xs_entered ?v5"
    using good5 drained(4) [of cfg ?v5] by (auto simp: xgood_def xinv_def close_inv_def)
  ultimately show ?thesis using run by (intro exI [of _ ?v5]) simp
qed

section \<open>Properties\<close>

lemma handover_order:
  assumes "xreach cfg s"
  shows "xs_entered s = map fst (xs_exported s) @ in_hand (xs_worker s) @ xs_queue s"
    and "length (xs_queue s) \<le> xc_capacity cfg"
  using xreach_inv [OF assms] by (simp_all add: queue_inv_def)

text \<open>
  C6: no batch is lost, duplicated or reordered between the application and the exporter: at every
  moment the batches that entered the channel are, in order, those the exporter has been given, the
  one it is working on, and those still queued, and the queue never exceeds its capacity.
\<close>
theorem batches_exported_in_order:
  assumes "xreach cfg s"
  shows "xs_entered s = map fst (xs_exported s) @ in_hand (xs_worker s) @ xs_queue s
    \<and> length (xs_queue s) \<le> xc_capacity cfg"
  using handover_order [OF assms] by blast

lemma balance:
  assumes "xreach cfg s" and "xs_mutex s = None"
  shows "dg_delivered (diagnostics_of cfg s) = wrap64 (int (length (filter snd (xs_exported s))))"
    and "dg_accepted (diagnostics_of cfg s)
         = wrap64 (dg_delivered (diagnostics_of cfg s) + dg_failed (diagnostics_of cfg s)
             + int (length (in_hand (xs_worker s))) + int (dg_queued (diagnostics_of cfg s)))"
    and "xs_pending s = int (dg_queued (diagnostics_of cfg s)) + working (xs_worker s)"
proof -
  note inv = xreach_inv [OF assms(1)]
  have mid: "mid_enqueue P s = 0" for P
    using assms(2) by (simp add: mid_enqueue_def)
  let ?d = "int (length (filter snd (xs_exported s)))"
    and ?f = "int (length (filter (\<lambda>x. \<not> snd x) (xs_exported s)))"
  have "int (length (xs_exported s)) = ?d + ?f"
    using sum_length_filter_compl [of snd "xs_exported s"] by simp
  then have "int (length (xs_entered s)) = ?d + ?f + int (length (in_hand (xs_worker s))) + int (length (xs_queue s))"
    using inv by (simp add: queue_inv_def)
  moreover have "wrap64 (wrap64 a + wrap64 b + c + d) = wrap64 (a + b + c + d)" for a b c d
    using wrap64_add [of a "wrap64 b + c + d"] wrap64_add [of b "a + c + d"] by (simp add: add64_def ac_simps)
  ultimately show "dg_delivered (diagnostics_of cfg s) = wrap64 ?d"
    and "dg_accepted (diagnostics_of cfg s)
         = wrap64 (dg_delivered (diagnostics_of cfg s) + dg_failed (diagnostics_of cfg s)
             + int (length (in_hand (xs_worker s))) + int (dg_queued (diagnostics_of cfg s)))"
    and "xs_pending s = int (dg_queued (diagnostics_of cfg s)) + working (xs_worker s)"
    using inv mid by (simp_all add: count_inv_def diagnostics_of_def)
qed

text \<open>
  Between two enqueues, the diagnostics balance: delivered and failed are the export outcomes,
  and every accepted batch is delivered, failed, in the worker's hands or queued (counters at their
  64-bit width), while \<open>pending\<close> is exactly the work still open.
\<close>
theorem diagnostics_balance:
  assumes "xreach cfg s" and "xs_mutex s = None"
  shows "dg_delivered (diagnostics_of cfg s) = wrap64 (int (length (filter snd (xs_exported s))))
    \<and> dg_accepted (diagnostics_of cfg s)
         = wrap64 (dg_delivered (diagnostics_of cfg s) + dg_failed (diagnostics_of cfg s)
             + int (length (in_hand (xs_worker s))) + int (dg_queued (diagnostics_of cfg s)))
    \<and> xs_pending s = int (dg_queued (diagnostics_of cfg s)) + working (xs_worker s)"
  using balance [OF assms] by blast

lemma shutdown_drained:
  assumes "xreach cfg s" and "xs_pc s i = SdRet True"
  shows "xs_closed s \<and> xs_stopped s \<and> xs_queue s = [] \<and> map fst (xs_exported s) = xs_entered s"
    and "(xstep cfg)\<^sup>*\<^sup>* s t \<Longrightarrow> xs_entered t = xs_entered s \<and> xs_exported t = xs_exported s"
proof -
  note inv = xreach_inv [OF assms(1)]
  have stopped: "xs_stopped s"
    using inv assms(2) unfolding close_inv_def by (metis pc_knows.simps(11))
  then have d: "xs_done s" "xs_closed s" "xs_pending s = 0"
    using inv by (auto simp: close_inv_def)
  then show now: "xs_closed s \<and> xs_stopped s \<and> xs_queue s = [] \<and> map fst (xs_exported s) = xs_entered s"
    using inv drained [of cfg s] stopped by auto
  have good: "xgood cfg s" using inv by (simp add: xgood_def xinv_def)
  show "(xstep cfg)\<^sup>*\<^sup>* s t \<Longrightarrow> xs_entered t = xs_entered s \<and> xs_exported t = xs_exported s"
    using stopped_steps [OF _ good stopped] by blast
qed

text \<open>
  C4: a shutdown that reports success has stopped everything: the transport is closed, the worker
  has ended, and every batch ever accepted has been through the exporter; nothing enters and nothing
  is exported in any continuation.
\<close>
theorem shutdown_true_means_drained:
  assumes "xreach cfg s" and "xs_pc s i = SdRet True"
  shows "xs_closed s \<and> xs_stopped s \<and> xs_queue s = [] \<and> map fst (xs_exported s) = xs_entered s
    \<and> (\<forall>t. (xstep cfg)\<^sup>*\<^sup>* s t \<longrightarrow> xs_entered t = xs_entered s \<and> xs_exported t = xs_exported s)"
  using shutdown_drained [OF assms] by blast

lemma flush_waited:
  assumes "xreach cfg s" and "xs_pc s i = FlRet n True"
  shows "n \<le> length (xs_exported s)"
    and "take n (map fst (xs_exported s)) = take n (xs_entered s)"
proof -
  note inv = xreach_inv [OF assms(1)]
  show n: "n \<le> length (xs_exported s)"
    using inv assms(2) unfolding close_inv_def by (metis pc_knows.simps(3))
  then show "take n (map fst (xs_exported s)) = take n (xs_entered s)"
    using inv by (simp add: queue_inv_def)
qed

text \<open>
  C38: a flush that reports success has waited for everything accepted before it was called: those
  batches, at least, have all been through the exporter.
\<close>
theorem flush_true_means_exported:
  assumes "xreach cfg s" and "xs_pc s i = FlRet n True"
  shows "n \<le> length (xs_exported s) \<and> take n (map fst (xs_exported s)) = take n (xs_entered s)"
  using flush_waited [OF assms] by blast

text \<open>
  C37: handing a batch to the transport never waits for the exporter: whatever the worker and the
  channel are doing, a goroutine that gets the mutex runs its enqueue to the end on its own, the
  batch entering the channel exactly when the transport is open, wants it and has room, and being
  counted as dropped otherwise.
\<close>
theorem enqueue_never_blocks:
  assumes "xreach cfg s" and "xs_pc s i = Idle" and "xs_mutex s = None"
  shows "\<exists>t. (enqueue_step cfg i)\<^sup>*\<^sup>* s t \<and> xs_pc t i = Idle \<and> xs_mutex t = None
    \<and> xs_worker t = xs_worker s \<and> xs_exported t = xs_exported s
    \<and> (if \<not> xs_closed s \<and> xc_accepts cfg b \<and> length (xs_queue s) < xc_capacity cfg
       then xs_queue t = xs_queue s @ [b] \<and> xs_entered t = xs_entered s @ [b] \<and> xs_accepted t = add64 (xs_accepted s) 1
            \<and> xs_dropped t = xs_dropped s
       else xs_queue t = xs_queue s \<and> xs_entered t = xs_entered s \<and> xs_accepted t = xs_accepted s
            \<and> xs_dropped t = add64 (xs_dropped s) 1)"
  using enqueue_runs [OF assms(2,3)] .

lemma hook_once:
  assumes "xreach cfg s"
  shows "xs_hook_calls s \<le> 1"
    and "0 < xs_hook_calls s \<Longrightarrow> xs_stopped s \<and> map fst (xs_exported s) = xs_entered s"
proof -
  note inv = xreach_inv [OF assms]
  show "xs_hook_calls s \<le> 1" using inv by (simp add: close_inv_def)
  assume "0 < xs_hook_calls s"
  then have "xs_stopped s" using inv by (auto simp: close_inv_def split: if_splits)
  then show "xs_stopped s \<and> map fst (xs_exported s) = xs_entered s"
    using inv drained(4) [of cfg s] by (auto simp: close_inv_def)
qed

text \<open>
  The customer's shutdown hook runs at most once, however many goroutines shut down at once, and
  only after the worker has ended with nothing left to export.
\<close>
theorem shutdown_hook_once:
  assumes "xreach cfg s"
  shows "xs_hook_calls s \<le> 1
    \<and> (0 < xs_hook_calls s \<longrightarrow> xs_stopped s \<and> map fst (xs_exported s) = xs_entered s)"
  using hook_once [OF assms] by blast

section \<open>A demonstration run, for the witnesses\<close>

definition demo_http :: "string outbound_batch xconfig" where
  "demo_http = new_http_transport ''key'' 0 0"

definition demo_batch :: "string outbound_batch" where
  "demo_batch = \<lparr>ob_url = ''http://x/v1/traces'', ob_payload = ''{}''\<rparr>"

lemma xreach_start: "roomy cfg \<Longrightarrow> xreach cfg xstart"
  by (auto simp: xreach_def intro: reach_start)

lemma xreach_next: "xreach cfg s \<Longrightarrow> xstep cfg s t \<Longrightarrow> xreach cfg t"
  unfolding xreach_def by (rule reach_step)

lemma xreach_steps:
  assumes "(xstep cfg)\<^sup>*\<^sup>* s t" and "xreach cfg s"
  shows "xreach cfg t"
  using assms by (induction rule: rtranclp_induct) (auto intro: xreach_next)

lemma enqueue_steps_xsteps: "(enqueue_step cfg i)\<^sup>*\<^sup>* s t \<Longrightarrow> (xstep cfg)\<^sup>*\<^sup>* s t"
  by (induction rule: rtranclp_induct) (auto intro: step_enqueue rtranclp.rtrancl_into_rtrancl)

lemma demo_http_config:
  "roomy demo_http" "xc_accepts demo_http demo_batch" "xc_capacity demo_http = 64"
  "\<not> xc_flusher demo_http" "\<not> xc_shutdown demo_http" "\<not> xc_fast_stop demo_http"
  by (simp_all add: roomy_def demo_http_def new_http_transport_def default_capacity_def max_int64_def
      http_accepts_def demo_batch_def)

lemma demo_enqueued:
  "\<exists>s. xreach demo_http s \<and> xs_pc s 0 = Idle \<and> xs_mutex s = None \<and> xs_entered s = [demo_batch]
     \<and> xs_exported s = [] \<and> xs_accepted s = 1"
proof -
  obtain s where s: "(enqueue_step demo_http 0)\<^sup>*\<^sup>* xstart s" "xs_pc s 0 = Idle" "xs_mutex s = None"
      "xs_entered s = [demo_batch]" "xs_exported s = []" "xs_accepted s = 1"
    using enqueue_runs [of "xstart :: string outbound_batch xstate" 0 demo_http demo_batch]
    by (auto simp: xstart_def demo_http_config add64_def wrap64_def)
  then show ?thesis
    using xreach_steps [OF enqueue_steps_xsteps [OF s(1)] xreach_start [OF demo_http_config(1)]] by blast
qed

lemma batches_exported_in_order_witness:
  "\<exists>s. xreach demo_http s \<and> xs_entered s = [demo_batch]
     \<and> in_hand (xs_worker s) @ xs_queue s = [demo_batch] \<and> length (xs_queue s) \<le> 64"
proof -
  obtain s where s: "xreach demo_http s" and e: "xs_entered s = [demo_batch]" "xs_exported s = []"
    using demo_enqueued by blast
  show ?thesis using batches_exported_in_order [OF s] s e by (auto simp: demo_http_config)
qed

lemma diagnostics_balance_witness:
  "\<exists>s. xreach demo_http s \<and> xs_mutex s = None \<and> dg_delivered (diagnostics_of demo_http s) = 0
     \<and> xs_pending s = int (dg_queued (diagnostics_of demo_http s)) + working (xs_worker s)"
proof -
  obtain s where s: "xreach demo_http s" "xs_mutex s = None" and e: "xs_exported s = []"
    using demo_enqueued by blast
  show ?thesis using diagnostics_balance [OF s] s e by (auto simp: wrap64_def)
qed

lemma demo_waiting:
  "\<exists>s. xreach demo_http s \<and> xs_pc s 0 = SdWait \<and> xs_entered s = [demo_batch]"
proof -
  obtain s where s: "xreach demo_http s" "xs_pc s 0 = Idle" "xs_mutex s = None" "xs_entered s = [demo_batch]"
    using demo_enqueued by blast
  let ?t = "goto 0 SdEnter s" and ?u = "goto 0 SdWait ((goto 0 SdEnter s)\<lparr>xs_closed := True\<rparr>)"
  have "xstep demo_http s ?t" by (rule step_shutdown, rule sd_call) (use s in \<open>auto simp: demo_http_config\<close>)
  moreover have "xstep demo_http ?t ?u" by (rule step_shutdown, rule sd_close) (use s in \<open>auto\<close>)
  ultimately have "xreach demo_http ?u" using s(1) xreach_next by blast
  with s show ?thesis by (intro exI [of _ ?u]) simp
qed

lemma shutdown_true_means_drained_witness:
  "\<exists>s. xreach demo_http s \<and> xs_pc s 0 = SdRet True \<and> xs_stopped s
     \<and> (\<forall>t. (xstep demo_http)\<^sup>*\<^sup>* s t \<longrightarrow> map fst (xs_exported t) = [demo_batch])"
proof -
  obtain s where s: "xreach demo_http s" "xs_pc s 0 = SdWait" and e: "xs_entered s = [demo_batch]"
    using demo_waiting by blast
  obtain t where t: "(xstep demo_http)\<^sup>*\<^sup>* s t" and r: "xs_pc t 0 = SdRet True"
    and x: "map fst (xs_exported t) = [demo_batch]"
    using shutdown_runs [OF s demo_http_config(4,5)] e by auto
  have "xreach demo_http t" using xreach_steps [OF t s(1)] .
  from shutdown_true_means_drained [OF this r] this r x show ?thesis by metis
qed

lemma flush_true_means_exported_witness:
  "\<exists>s. xreach demo_http s \<and> xs_pc s 0 = FlRet 1 True \<and> 1 \<le> length (xs_exported s)"
proof -
  obtain s where s: "xreach demo_http s" "xs_pc s 0 = Idle" "xs_mutex s = None" "xs_entered s = [demo_batch]"
    using demo_enqueued by blast
  let ?t = "goto 0 (FlWait 1) s"
  have "xstep demo_http s ?t" using fl_call [of s 0 demo_http] s by (auto intro: step_flush)
  then have t: "xreach demo_http ?t" using s(1) xreach_next by blast
  have "xgood demo_http ?t" using xreach_inv [OF t] by (simp add: xgood_def xinv_def)
  then obtain u where u: "worker_step\<^sup>*\<^sup>* ?t u" "worker_left u = 0" "xs_pc u = xs_pc ?t" "xgood demo_http u"
    using worker_drains by blast
  have ur: "xreach demo_http u" using xreach_steps [OF worker_steps_xsteps [OF u(1)] t] .
  have "xs_mutex ?t = None" using s(3) by simp
  moreover have "xs_mutex u = xs_mutex ?t"
    using u(1) by (induction rule: rtranclp_induct) (auto elim: worker_step.cases)
  ultimately have "xs_pending u = 0"
    using u(4) left_done [OF u(2)] by (simp add: xgood_def xinv_def count_inv_def mid_enqueue_def)
  then have "xstep demo_http u (goto 0 (FlRet 1 True) u)"
    using fl_drained [of u 0 1 demo_http] u(3) by (auto simp: demo_http_config intro: step_flush)
  then have r: "xreach demo_http (goto 0 (FlRet 1 True) u)" using ur xreach_next by blast
  have p: "xs_pc (goto 0 (FlRet 1 True) u) 0 = FlRet 1 True" by simp
  show ?thesis using flush_true_means_exported [OF r p] r p by blast
qed

lemma enqueue_never_blocks_witness:
  "\<exists>t. (enqueue_step demo_http 3)\<^sup>*\<^sup>* xstart t \<and> xs_queue t = [demo_batch] \<and> xs_pc t 3 = Idle"
proof -
  have s: "xs_pc (xstart :: string outbound_batch xstate) 3 = Idle" "xs_mutex (xstart :: string outbound_batch xstate) = None"
    by (simp_all add: xstart_def)
  show ?thesis
    using enqueue_never_blocks [OF xreach_start [OF demo_http_config(1)] s, of demo_batch]
    by (auto simp: xstart_def demo_http_config)
qed

definition demo_exporter :: "(string, string) custom_export_batch xconfig" where
  "demo_exporter = new_managed_exporter False False True 0 0"

lemma shutdown_hook_once_witness:
  "\<exists>s. xreach demo_exporter s \<and> xs_hook_calls s = 1 \<and> xs_stopped s"
proof -
  let ?c = demo_exporter
  have cfg: "roomy ?c" "\<not> xc_flusher ?c" "xc_shutdown ?c"
    by (simp_all add: roomy_def demo_exporter_def new_managed_exporter_def default_capacity_def max_int64_def)
  let ?a = "goto 0 SdEnter (xstart :: (string, string) custom_export_batch xstate)"
  let ?b = "goto 0 SdWait (?a\<lparr>xs_closed := True\<rparr>)"
  let ?d = "goto 0 SdStop ?b"
  let ?e = "goto 0 SdAwait (?d\<lparr>xs_done := True\<rparr>)"
  let ?f = "?e\<lparr>xs_stopped := True, xs_worker := WStopped\<rparr>"
  let ?g = "goto 0 SdHook ?f"
  let ?h = "goto 0 SdClosing (?g\<lparr>xs_close := Running, xs_hook_calls := Suc (xs_hook_calls ?g)\<rparr>)"
  have "xstep ?c xstart ?a" by (rule step_shutdown, rule sd_call) (simp_all add: xstart_def)
  moreover have "xstep ?c ?a ?b" by (rule step_shutdown, rule sd_close) (simp_all add: xstart_def)
  moreover have "xstep ?c ?b ?d"
    using sd_drained [of ?b 0 ?c] cfg by (auto simp: xstart_def intro: step_shutdown)
  moreover have "xstep ?c ?d ?e" by (rule step_shutdown, rule sd_stop) simp
  moreover have "xstep ?c ?e ?f" by (rule step_worker, rule wk_stop) (simp_all add: xstart_def)
  moreover have "xstep ?c ?f ?g" by (rule step_shutdown, rule sd_stopped) simp_all
  moreover have "xstep ?c ?g ?h" by (rule step_shutdown, rule sd_hook_call) (use cfg in \<open>simp_all add: xstart_def\<close>)
  ultimately have r: "xreach ?c ?h"
    using xreach_start [OF cfg(1)] by (meson xreach_next)
  have n: "xs_hook_calls ?h = 1" by (simp add: xstart_def)
  show ?thesis using shutdown_hook_once [OF r] r n by (intro exI [of _ ?h]) simp
qed

end
