(* ===== verification/Channel.thy ===== *)
theory Channel
  imports Transport
begin

text \<open>
  What a queueing transport promises, without its goroutines, locks and counters: a channel that holds a
  bounded number of batches, takes batches while it is open, hands them out in order, each with the outcome
  of its one export attempt, and may be closed for good.  The protocol of \<open>transport.go\<close> implements it.
\<close>

section \<open>The abstract channel\<close>

record 'b channel =
  ch_waiting :: "'b list"
  ch_out :: "('b \<times> bool) list"
  ch_open :: bool

definition empty_channel :: "'b channel" where
  "empty_channel = \<lparr>ch_waiting = [], ch_out = [], ch_open = True\<rparr>"

inductive channel_step :: "nat \<Rightarrow> ('b \<Rightarrow> bool) \<Rightarrow> 'b channel \<Rightarrow> 'b channel \<Rightarrow> bool" for n wanted where
  ch_accept:
    "ch_open c \<Longrightarrow> wanted b \<Longrightarrow> length (ch_waiting c) \<le> n \<Longrightarrow>
     channel_step n wanted c (c\<lparr>ch_waiting := ch_waiting c @ [b]\<rparr>)"
| ch_export:
    "ch_waiting c = b # q \<Longrightarrow>
     channel_step n wanted c (c\<lparr>ch_waiting := q, ch_out := ch_out c @ [(b, ok)]\<rparr>)"
| ch_close:
    "channel_step n wanted c (c\<lparr>ch_open := False\<rparr>)"

section \<open>Simulation\<close>

text \<open>A system whose every step is an abstract step, or none, under an abstraction.\<close>

locale simulation =
  fixes cstart :: "'s \<Rightarrow> bool" and cstep :: "'s \<Rightarrow> 's \<Rightarrow> bool"
    and astart :: "'a \<Rightarrow> bool" and astep :: "'a \<Rightarrow> 'a \<Rightarrow> bool" and abst :: "'s \<Rightarrow> 'a"
  assumes sim_start: "cstart s \<Longrightarrow> astart (abst s)"
    and sim_step: "reachable cstart cstep s \<Longrightarrow> cstep s t \<Longrightarrow> astep (abst s) (abst t) \<or> abst t = abst s"
begin

lemma sim_reachable: "reachable cstart cstep s \<Longrightarrow> reachable astart astep (abst s)"
proof (induction rule: reachable.induct)
  case (reach_start s)
  then show ?case by (intro reachable.reach_start sim_start)
next
  case (reach_step s t)
  then show ?case using sim_step [of s t] reachable.reach_step by metis
qed

lemma sim_invariant:
  "(\<And>a. reachable astart astep a \<Longrightarrow> P a) \<Longrightarrow> reachable cstart cstep s \<Longrightarrow> P (abst s)"
  using sim_reachable by blast

lemma sim_steps:
  assumes "cstep\<^sup>*\<^sup>* s t" and "reachable cstart cstep s"
  shows "astep\<^sup>*\<^sup>* (abst s) (abst t)"
  using assms
proof (induction rule: rtranclp_induct)
  case (step u v)
  have "reachable cstart cstep u"
    using step(1,4) by (induction rule: rtranclp_induct) (auto intro: reachable.reach_step)
  from sim_step [OF this step(2)] step(3,4) show ?case by (metis rtranclp.rtrancl_into_rtrancl)
qed simp

end

section \<open>The transport implements the channel\<close>

definition channel_of :: "'b xstate \<Rightarrow> 'b channel" where
  "channel_of s =
     \<lparr>ch_waiting = in_hand (xs_worker s) @ xs_queue s, ch_out = xs_exported s, ch_open = (\<not> xs_closed s)\<rparr>"

text \<open>A batch past the tests of \<open>enqueue\<close> had passed them.\<close>

definition tested :: "'b xconfig \<Rightarrow> 'b xstate \<Rightarrow> bool" where
  "tested cfg s \<longleftrightarrow> (\<forall>i b. xs_pc s i = EnqPend b \<longrightarrow> xc_accepts cfg b)"

lemma tested_step: "xstep cfg s t \<Longrightarrow> tested cfg s \<Longrightarrow> tested cfg t"
proof (induction rule: xstep.induct)
  case (step_enqueue i s t)
  then show ?case by cases (auto simp: tested_def)
next
  case (step_flush i s t)
  then show ?case by cases (auto simp: tested_def)
next
  case (step_shutdown i s t)
  then show ?case by cases (auto simp: tested_def)
next
  case (step_worker s t)
  then show ?case by cases (auto simp: tested_def)
qed

interpretation tested_system: step_system "\<lambda>s. s = xstart \<and> roomy cfg" "xstep cfg" "tested cfg" for cfg
  by unfold_locales (auto simp: tested_def xstart_def intro: tested_step [unfolded tested_def, rule_format])

lemma enqueue_channel:
  assumes "enqueue_step cfg i s t" and "queue_inv cfg s" and "close_inv s" and "tested cfg s"
  shows "channel_step (xc_capacity cfg) (xc_accepts cfg) (channel_of s) (channel_of t) \<or> channel_of t = channel_of s"
  using assms(1)
proof cases
  case (enq_send b)
  have "\<not> xs_closed s" using mid_not_held [OF assms(2,3), of i] enq_send by simp
  moreover have "length (in_hand (xs_worker s) @ xs_queue s) \<le> xc_capacity cfg"
    using enq_send(3) by (auto simp: in_hand_def split: worker_pc.splits)
  ultimately show ?thesis
    using ch_accept [of "channel_of s" "xc_accepts cfg" b "xc_capacity cfg"] enq_send assms(4)
    by (simp add: channel_of_def tested_def)
qed (simp_all add: channel_of_def)

lemma flush_channel: "flush_step cfg i s t \<Longrightarrow> channel_of t = channel_of s"
  by (induction rule: flush_step.induct) (simp_all add: channel_of_def)

lemma shutdown_channel:
  "shutdown_step cfg i s t \<Longrightarrow> channel_step n P (channel_of s) (channel_of t) \<or> channel_of t = channel_of s"
proof (induction rule: shutdown_step.induct)
  case (sd_close s)
  then show ?case using ch_close [of n P "channel_of s"] by (simp add: channel_of_def)
qed (simp_all add: channel_of_def)

lemma worker_channel:
  "worker_step s t \<Longrightarrow> channel_step n P (channel_of s) (channel_of t) \<or> channel_of t = channel_of s"
proof (induction rule: worker_step.induct)
  case (wk_delivered s b)
  then show ?case using ch_export [of "channel_of s" b "xs_queue s" n P True] by (simp add: channel_of_def in_hand_def)
next
  case (wk_failed s b)
  then show ?case using ch_export [of "channel_of s" b "xs_queue s" n P False] by (simp add: channel_of_def in_hand_def)
qed (simp_all add: channel_of_def in_hand_def)

lemma xstep_channel:
  assumes "xreach cfg s" and "xstep cfg s t"
  shows "channel_step (xc_capacity cfg) (xc_accepts cfg) (channel_of s) (channel_of t) \<or> channel_of t = channel_of s"
  using assms(2)
proof cases
  case (step_enqueue i)
  then show ?thesis
    using enqueue_channel xreach_inv [OF assms(1)] tested_system.inv_reachable assms(1) unfolding xreach_def by blast
qed (use flush_channel shutdown_channel worker_channel in blast)+

interpretation transport_channel: simulation "\<lambda>s. s = xstart \<and> roomy cfg" "xstep cfg" "\<lambda>c. c = empty_channel"
    "channel_step (xc_capacity cfg) (xc_accepts cfg)" channel_of for cfg
proof unfold_locales
  fix s assume "s = xstart \<and> roomy cfg"
  then show "channel_of s = empty_channel" by (simp add: channel_of_def empty_channel_def xstart_def in_hand_def)
qed (rule xstep_channel [unfolded xreach_def])

section \<open>What the abstract channel guarantees\<close>

definition channel_ok :: "nat \<Rightarrow> ('b \<Rightarrow> bool) \<Rightarrow> 'b channel \<Rightarrow> bool" where
  "channel_ok n wanted c \<longleftrightarrow>
     length (ch_waiting c) \<le> Suc n \<and> list_all wanted (ch_waiting c) \<and> list_all (wanted \<circ> fst) (ch_out c)"

interpretation channel_system: step_system "\<lambda>c. c = empty_channel" "channel_step n wanted" "channel_ok n wanted" for n wanted
proof unfold_locales
  fix c d
  assume "channel_ok n wanted c" and "channel_step n wanted c d"
  from this(2,1) show "channel_ok n wanted d" by cases (auto simp: channel_ok_def)
qed (simp add: channel_ok_def empty_channel_def)

section \<open>Properties\<close>

text \<open>
  C5: the queueing transports refine the abstract channel: every step of the protocol, by any goroutine in any
  reachable state, is one step of the channel (a wanted batch taken while open and within the capacity, the
  oldest batch exported, the channel closed) or leaves it as it is.
\<close>
theorem transport_refines_channel:
  assumes "xreach cfg s" and "xstep cfg s t"
  shows "channel_step (xc_capacity cfg) (xc_accepts cfg) (channel_of s) (channel_of t) \<or> channel_of t = channel_of s"
  using assms by (rule xstep_channel)

text \<open>So whatever is exported was wanted, and what is held never exceeds the queue and the worker's hand.\<close>

lemma transport_channel_ok: "xreach cfg s \<Longrightarrow> channel_ok (xc_capacity cfg) (xc_accepts cfg) (channel_of s)"
  unfolding xreach_def by (rule transport_channel.sim_invariant [OF channel_system.inv_reachable])

lemma transport_refines_channel_witness:
  "\<exists>(s :: string outbound_batch xstate) t. xstep demo_http s t
    \<and> ch_waiting (channel_of s) = [] \<and> ch_waiting (channel_of t) = [demo_batch]
    \<and> channel_step 64 (xc_accepts demo_http) (channel_of s) (channel_of t)"
proof -
  let ?s0 = "goto 0 (EnqHeld demo_batch) (xstart\<lparr>xs_mutex := Some 0\<rparr>) :: string outbound_batch xstate"
  let ?s1 = "goto 0 (EnqPend demo_batch) (?s0\<lparr>xs_pending := add64 (xs_pending ?s0) 1\<rparr>)"
  let ?s2 = "goto 0 EnqSent (?s1\<lparr>xs_queue := xs_queue ?s1 @ [demo_batch], xs_entered := xs_entered ?s1 @ [demo_batch]\<rparr>)"
  have "xstep demo_http xstart ?s0"
    by (rule step_enqueue [where i = 0], rule enq_lock) (simp_all add: xstart_def)
  moreover have "xstep demo_http ?s0 ?s1"
    by (rule step_enqueue [where i = 0], rule enq_pending) (simp_all add: demo_http_config xstart_def)
  ultimately have r: "xreach demo_http ?s1"
    by (blast intro: xreach_next xreach_start demo_http_config(1))
  have step: "xstep demo_http ?s1 ?s2"
    by (rule step_enqueue [where i = 0], rule enq_send) (simp_all add: demo_http_config xstart_def)
  have w: "ch_waiting (channel_of ?s1) = []" "ch_waiting (channel_of ?s2) = [demo_batch]"
    by (simp_all add: channel_of_def xstart_def in_hand_def)
  with transport_refines_channel [OF r step] have
    "channel_step 64 (xc_accepts demo_http) (channel_of ?s1) (channel_of ?s2)"
    by (auto simp: demo_http_config(3))
  with step w show ?thesis by blast
qed

end
