(* ===== verification/HttpTransport.thy ===== *)
theory HttpTransport
  imports Channel
begin

text \<open>
  \<open>HTTPTransport\<close>'s own \<open>Flush\<close>, \<open>Shutdown\<close> and \<open>run\<close>, written as its methods are (no hooks, no
  fast path, the outcome of a batch decided by \<open>post\<close>), and the instances of the shared protocol for the
  managed exporter.  Every run of the HTTP transport is a run of the shared protocol, so what is proved of the
  protocol holds for it.
\<close>

section \<open>HTTPTransport\<close>

inductive http_flush_step :: "nat \<Rightarrow> 'b xstate \<Rightarrow> 'b xstate \<Rightarrow> bool" for i where
  hf_call:
    "xs_pc s i = Idle \<Longrightarrow> http_flush_step i s (goto i (FlWait (length (xs_entered s))) s)"
| hf_drained:
    "xs_pc s i = FlWait n \<Longrightarrow> xs_pending s = 0 \<Longrightarrow> http_flush_step i s (goto i (FlRet n True) s)"
| hf_expired:
    "xs_pc s i = FlWait n \<Longrightarrow> http_flush_step i s (goto i (FlRet n False) s)"
| hf_return:
    "xs_pc s i = FlRet n b \<Longrightarrow> http_flush_step i s (goto i Idle s)"

inductive http_shutdown_step :: "nat \<Rightarrow> 'b xstate \<Rightarrow> 'b xstate \<Rightarrow> bool" for i where
  hs_call:
    "xs_pc s i = Idle \<Longrightarrow> http_shutdown_step i s (goto i SdEnter s)"
| hs_close:
    "xs_pc s i = SdEnter \<Longrightarrow> xs_mutex s = None \<Longrightarrow>
     http_shutdown_step i s (goto i SdWait (s\<lparr>xs_closed := True\<rparr>))"
| hs_drained:
    "xs_pc s i = SdWait \<Longrightarrow> xs_pending s = 0 \<Longrightarrow> http_shutdown_step i s (goto i SdStop s)"
| hs_wait_expired:
    "xs_pc s i = SdWait \<Longrightarrow> http_shutdown_step i s (goto i (SdRet False) s)"
| hs_stop:
    "xs_pc s i = SdStop \<Longrightarrow> http_shutdown_step i s (goto i SdAwait (s\<lparr>xs_done := True\<rparr>))"
| hs_stopped:
    "xs_pc s i = SdAwait \<Longrightarrow> xs_stopped s \<Longrightarrow> http_shutdown_step i s (goto i (SdRet True) s)"
| hs_await_expired:
    "xs_pc s i = SdAwait \<Longrightarrow> http_shutdown_step i s (goto i (SdRet False) s)"
| hs_return:
    "xs_pc s i = SdRet b \<Longrightarrow> http_shutdown_step i s (goto i Idle s)"

text \<open>\<open>posted\<close> is what \<open>post\<close> returns for a batch.\<close>

inductive http_worker_step :: "('b \<Rightarrow> bool) \<Rightarrow> 'b xstate \<Rightarrow> 'b xstate \<Rightarrow> bool" for posted where
  hw_take:
    "xs_worker s = WIdle \<Longrightarrow> xs_queue s = b # q \<Longrightarrow>
     http_worker_step posted s (s\<lparr>xs_queue := q, xs_worker := WBusy b, xs_in_flight := 1\<rparr>)"
| hw_posted:
    "xs_worker s = WBusy b \<Longrightarrow>
     http_worker_step posted s
       ((if posted b then s\<lparr>xs_delivered := add64 (xs_delivered s) 1\<rparr>
         else s\<lparr>xs_failed := add64 (xs_failed s) 1\<rparr>)
        \<lparr>xs_worker := WCounted, xs_exported := xs_exported s @ [(b, posted b)]\<rparr>)"
| hw_cleared:
    "xs_worker s = WCounted \<Longrightarrow> http_worker_step posted s (s\<lparr>xs_in_flight := 0, xs_worker := WCleared\<rparr>)"
| hw_release:
    "xs_worker s = WCleared \<Longrightarrow>
     http_worker_step posted s (s\<lparr>xs_pending := add64 (xs_pending s) (-1), xs_worker := WIdle\<rparr>)"
| hw_stop:
    "xs_worker s = WIdle \<Longrightarrow> xs_done s \<Longrightarrow>
     http_worker_step posted s (s\<lparr>xs_stopped := True, xs_worker := WStopped\<rparr>)"

inductive http_step :: "string \<Rightarrow> int64 \<Rightarrow> int \<Rightarrow> ('p outbound_batch \<Rightarrow> bool)
    \<Rightarrow> 'p outbound_batch xstate \<Rightarrow> 'p outbound_batch xstate \<Rightarrow> bool" for key timeout cap posted where
  hx_enqueue: "enqueue_step (new_http_transport key timeout cap) i s t \<Longrightarrow> http_step key timeout cap posted s t"
| hx_flush: "http_flush_step i s t \<Longrightarrow> http_step key timeout cap posted s t"
| hx_shutdown: "http_shutdown_step i s t \<Longrightarrow> http_step key timeout cap posted s t"
| hx_worker: "http_worker_step posted s t \<Longrightarrow> http_step key timeout cap posted s t"

section \<open>It runs the shared protocol\<close>

lemma goto_goto [simp]: "goto i p (goto i q s) = goto i p s"
  by (simp add: goto_def)

lemma http_flush_shared:
  assumes "http_flush_step i s t" and "\<not> xc_flusher cfg"
  shows "flush_step cfg i s t"
  using assms(1)
proof cases
  case (hf_drained n)
  then show ?thesis using fl_drained [of s i n cfg] assms(2) by simp
qed (auto intro: flush_step.intros)

lemma http_shutdown_shared:
  assumes "http_shutdown_step i s t" and "\<not> xc_flusher cfg" and "\<not> xc_shutdown cfg" and "\<not> xc_fast_stop cfg"
  shows "(shutdown_step cfg i)\<^sup>*\<^sup>* s t"
  using assms(1)
proof cases
  case hs_drained
  then show ?thesis using sd_drained [of s i cfg] assms(2) by auto
next
  case hs_stopped
  have "shutdown_step cfg i s (goto i SdHook s)" by (rule sd_stopped) (use hs_stopped in auto)
  moreover have "shutdown_step cfg i (goto i SdHook s) t"
    using sd_no_hook [of "goto i SdHook s" i cfg] assms(3) hs_stopped(1) by simp
  ultimately show ?thesis by (meson r_into_rtranclp rtranclp.rtrancl_into_rtrancl)
qed (use assms(4) in \<open>auto intro!: r_into_rtranclp intro: shutdown_step.intros\<close>)

lemma http_worker_shared: "http_worker_step posted s t \<Longrightarrow> worker_step s t"
proof (induction rule: http_worker_step.induct)
  case (hw_posted s b)
  then show ?case
    using wk_delivered [of s b] wk_failed [of s b] by (cases "posted b") simp_all
qed (auto intro: worker_step.intros)

lemma http_config:
  "\<not> xc_flusher (new_http_transport key timeout cap)" "\<not> xc_shutdown (new_http_transport key timeout cap)"
  "\<not> xc_fast_stop (new_http_transport key timeout cap)"
  by (simp_all add: new_http_transport_def)

lemma shutdown_steps_xsteps: "(shutdown_step cfg i)\<^sup>*\<^sup>* s t \<Longrightarrow> (xstep cfg)\<^sup>*\<^sup>* s t"
  by (induction rule: rtranclp_induct) (auto intro: step_shutdown rtranclp.rtrancl_into_rtrancl)

lemma http_step_shared:
  "http_step key timeout cap posted s t \<Longrightarrow> (xstep (new_http_transport key timeout cap))\<^sup>*\<^sup>* s t"
proof (induction rule: http_step.induct)
  case (hx_shutdown i s t)
  then show ?case using http_shutdown_shared http_config shutdown_steps_xsteps by metis
next
  case (hx_flush i s t)
  then show ?case using http_flush_shared [OF _ http_config(1)] by (blast intro: step_flush)
qed (blast intro: step_enqueue step_worker http_worker_shared)+

definition http_reach :: "string \<Rightarrow> int64 \<Rightarrow> int \<Rightarrow> ('p outbound_batch \<Rightarrow> bool) \<Rightarrow> 'p outbound_batch xstate \<Rightarrow> bool" where
  "http_reach key timeout cap posted =
     reachable (\<lambda>s. s = xstart \<and> roomy (new_http_transport key timeout cap :: 'p outbound_batch xconfig))
       (http_step key timeout cap posted)"

lemma http_reach_shared: "http_reach key timeout cap posted s \<Longrightarrow> xreach (new_http_transport key timeout cap) s"
  unfolding http_reach_def
proof (induction rule: reachable.induct)
  case (reach_start s)
  then show ?case by (auto intro: xreach_start)
next
  case (reach_step s t)
  then show ?case using http_step_shared xreach_steps by blast
qed

text \<open>The outcomes on record are those of \<open>post\<close>.\<close>

interpretation http_outcomes: step_system "\<lambda>s. s = xstart \<and> roomy (new_http_transport key timeout cap)"
    "http_step key timeout cap posted" "\<lambda>s. list_all (\<lambda>(b, ok). ok = posted b) (xs_exported s)"
    for key timeout cap posted
proof unfold_locales
  fix s t
  assume ok: "list_all (\<lambda>(b, ok). ok = posted b) (xs_exported s)" and "http_step key timeout cap posted s t"
  from this(2) show "list_all (\<lambda>(b, ok). ok = posted b) (xs_exported t)"
  proof cases
    case (hx_enqueue i)
    then show ?thesis using ok by cases auto
  next
    case (hx_flush i)
    then show ?thesis using ok by cases auto
  next
    case (hx_shutdown i)
    then show ?thesis using ok by cases auto
  next
    case hx_worker
    then show ?thesis using ok by cases auto
  qed
qed (auto simp: xstart_def)


text \<open>Nothing without a URL and nothing without a key is ever posted, and an outcome on record is \<open>post\<close>'s.\<close>

lemma http_exports:
  assumes "http_reach key timeout cap posted s" and "(b, ok) \<in> set (xs_exported s)"
  shows "ob_url b \<noteq> [] \<and> key \<noteq> [] \<and> ok = posted b"
proof -
  have "channel_ok (default_capacity cap) (http_accepts key) (channel_of s)"
    using transport_channel_ok [OF http_reach_shared [OF assms(1)]] by (simp add: new_http_transport_def)
  moreover have "list_all (\<lambda>(b, ok). ok = posted b) (xs_exported s)"
    using http_outcomes.inv_reachable assms(1) unfolding http_reach_def by blast
  ultimately show ?thesis
    using assms(2) by (auto simp: channel_ok_def channel_of_def list_all_iff http_accepts_def)
qed

section \<open>The wait loop\<close>

text \<open>
  \<open>waitForPending\<close>: what the \<open>n\<close>-th look at the counter saw, and whether the context had ended by the
  tick after it.  Without either the loop goes on for ever.
\<close>

partial_function (option) wait_for_pending :: "(nat \<Rightarrow> int64) \<Rightarrow> (nat \<Rightarrow> bool) \<Rightarrow> nat \<Rightarrow> bool option" where
  "wait_for_pending pending expired n =
     (if pending n = 0 then Some True
      else if expired n then Some False
      else wait_for_pending pending expired (Suc n))"

definition waited :: "(nat \<Rightarrow> int64) \<Rightarrow> (nat \<Rightarrow> bool) \<Rightarrow> nat \<Rightarrow> bool \<Rightarrow> bool" where
  "waited pending expired n b \<longleftrightarrow> (\<exists>k \<ge> n. (b \<longleftrightarrow> pending k = 0) \<and> (\<not> b \<longrightarrow> expired k))"

lemma wait_answer:
  assumes "wait_for_pending pending expired n = Some b"
  shows "waited pending expired n b"
proof (rule wait_for_pending.raw_induct [where P = waited, OF _ assms])
  fix f pending expired n b
  assume IH: "\<And>pending expired n b. f pending expired n = Some b \<Longrightarrow> waited pending expired n b"
    and body: "(if pending n = 0 then Some True else if expired n then Some False else f pending expired (Suc n)) = Some b"
  have later: "waited pending expired (Suc n) b \<Longrightarrow> waited pending expired n b" by (auto simp: waited_def intro: Suc_leD)
  show "waited pending expired n b"
    using body IH [of pending expired "Suc n" b] later by (cases "pending n = 0"; cases "expired n") (auto simp: waited_def)
qed

text \<open>It ends as soon as the transport drains or the deadline comes, and only then.\<close>

lemma wait_returns: "(\<exists>b. wait_for_pending pending expired n = Some b) \<longleftrightarrow> (\<exists>k \<ge> n. pending k = 0 \<or> expired k)"
proof
  assume "\<exists>b. wait_for_pending pending expired n = Some b"
  then show "\<exists>k \<ge> n. pending k = 0 \<or> expired k" by (auto dest!: wait_answer simp: waited_def)
next
  assume "\<exists>k \<ge> n. pending k = 0 \<or> expired k"
  then obtain k where k: "n \<le> k" "pending k = 0 \<or> expired k" by blast
  then show "\<exists>b. wait_for_pending pending expired n = Some b"
  proof (induction rule: inc_induct)
    case base
    then show ?case by (subst wait_for_pending.simps) auto
  next
    case (step m)
    then show ?case by (subst wait_for_pending.simps) auto
  qed
qed

text \<open>
  The protocol's waiting states are this loop: while a goroutine polls, whatever the loop answers is a step it
  may take in the state the last look saw.
\<close>

lemma wait_is_flush_step:
  assumes "\<forall>k. xs_pc (seen k) i = FlWait m" and "wait_for_pending (\<lambda>k. xs_pending (seen k)) expired n = Some b"
  shows "\<exists>k \<ge> n. http_flush_step i (seen k) (goto i (FlRet m b) (seen k))"
proof -
  obtain k where k: "n \<le> k" "b \<longleftrightarrow> xs_pending (seen k) = 0" using wait_answer [OF assms(2)] by (auto simp: waited_def)
  have pc: "xs_pc (seen k) i = FlWait m" using assms(1) by blast
  show ?thesis
    using k pc hf_drained [OF pc] hf_expired [OF pc] by (cases b) auto
qed

lemma wait_is_shutdown_step:
  assumes "\<forall>k. xs_pc (seen k) i = SdWait" and "wait_for_pending (\<lambda>k. xs_pending (seen k)) expired n = Some b"
  shows "\<exists>k \<ge> n. http_shutdown_step i (seen k) (goto i (if b then SdStop else SdRet False) (seen k))"
proof -
  obtain k where k: "n \<le> k" "b \<longleftrightarrow> xs_pending (seen k) = 0" using wait_answer [OF assms(2)] by (auto simp: waited_def)
  have pc: "xs_pc (seen k) i = SdWait" using assms(1) by blast
  show ?thesis
    using k pc hs_drained [OF pc] hs_wait_expired [OF pc] by (cases b) auto
qed

section \<open>The managed exporter's instances\<close>

definition managed_enqueue_step ::
  "bool \<Rightarrow> bool \<Rightarrow> bool \<Rightarrow> int64 \<Rightarrow> int \<Rightarrow> nat \<Rightarrow> ('t, 'l) custom_export_batch xstate
   \<Rightarrow> ('t, 'l) custom_export_batch xstate \<Rightarrow> bool" where
  "managed_enqueue_step is_nil flusher shutdown timeout cap =
     enqueue_step (new_managed_exporter is_nil flusher shutdown timeout cap)"

definition managed_diagnostics ::
  "bool \<Rightarrow> bool \<Rightarrow> bool \<Rightarrow> int64 \<Rightarrow> int \<Rightarrow> ('t, 'l) custom_export_batch xstate \<Rightarrow> diagnostics" where
  "managed_diagnostics is_nil flusher shutdown timeout cap =
     diagnostics_of (new_managed_exporter is_nil flusher shutdown timeout cap)"

text \<open>A nil exporter accepts nothing: every batch is counted as dropped.\<close>

lemma nil_exporter_drops:
  assumes "managed_enqueue_step True flusher shutdown timeout cap i s t" and "xs_pc s i = EnqHeld b"
  shows "t = goto i Idle (s\<lparr>xs_dropped := add64 (xs_dropped s) 1, xs_mutex := None\<rparr>)"
  using assms unfolding managed_enqueue_step_def by cases (simp_all add: new_managed_exporter_def)

end
