(* ===== verification/WireSafety.thy ===== *)
theory WireSafety
  imports Wire Transport
begin

text \<open>
  What the JSON of a request guarantees: when it can be written at all, that a receiver recovers it, and
  the types of a batch the SDK sends.
\<close>

section \<open>What cannot be written\<close>

definition finite_value :: "any_value \<Rightarrow> bool" where
  "finite_value v \<longleftrightarrow> (case av_double v of None \<Rightarrow> True | Some d \<Rightarrow> (case d of Fin _ \<Rightarrow> True | _ \<Rightarrow> False))"

definition attrs_finite :: "key_value list \<Rightarrow> bool" where
  "attrs_finite as \<longleftrightarrow> list_all (\<lambda>kv. finite_value (kv_value kv)) as"

definition span_finite :: "span_data \<Rightarrow> bool" where
  "span_finite d \<longleftrightarrow>
     attrs_finite (sd_attributes d) \<and> list_all (\<lambda>l. attrs_finite (ln_attributes l)) (sd_links d)"

lemma any_json_None: "any_json v = None \<longleftrightarrow> \<not> finite_value v"
  by (auto simp: any_json_def double_members_def finite_value_def split: option.splits f64.splits)

lemma kv_json_None: "kv_json kv = None \<longleftrightarrow> \<not> finite_value (kv_value kv)"
  by (cases "any_json (kv_value kv)") (auto simp: kv_json_def any_json_None [symmetric])

lemma attrs_json_None: "those (map kv_json as) = None \<longleftrightarrow> \<not> attrs_finite as"
  by (simp add: those_None_iff kv_json_None attrs_finite_def list_all_iff)

lemma link_json_None: "link_json l = None \<longleftrightarrow> \<not> attrs_finite (ln_attributes l)"
  by (cases "those (map kv_json (ln_attributes l))") (auto simp: link_json_def attrs_json_None [symmetric])

lemma span_json_None: "span_json d = None \<longleftrightarrow> \<not> span_finite d"
proof -
  have "those (map link_json (sd_links d)) = None \<longleftrightarrow> \<not> list_all (\<lambda>l. attrs_finite (ln_attributes l)) (sd_links d)"
    by (simp add: those_None_iff link_json_None list_all_iff)
  then show ?thesis
    using attrs_json_None [of "sd_attributes d"]
    by (cases "those (map kv_json (sd_attributes d))"; cases "those (map link_json (sd_links d))")
      (auto simp: span_json_def span_finite_def)
qed

lemma resource_json_Some: "\<exists>j. resource_json \<lparr>rc_attributes = resource_attributes s e\<rparr> = Some j"
  by (simp add: resource_json_def resource_attributes_def kv_json_def any_json_def double_members_def
      string_value_def empty_value_def)

lemma trace_json_None:
  "trace_json (build_payload s e spans) = None \<longleftrightarrow> \<not> list_all span_finite spans"
proof -
  have "those (map span_json spans) = None \<longleftrightarrow> \<not> list_all span_finite spans"
    by (simp add: those_None_iff span_json_None list_all_iff)
  then show ?thesis
    using resource_json_Some [of s e]
    by (cases "those (map span_json spans)")
      (auto simp: trace_json_def build_payload_def resource_spans_json_def scope_spans_json_def)
qed

text \<open>\<open>gzipJSON\<close>: the text of a payload that can be written, compressed by \<open>gz\<close>.\<close>

definition gzip_json ::
  "('p \<Rightarrow> json option) \<Rightarrow> (rat \<Rightarrow> string) \<Rightarrow> (string \<Rightarrow> 'body attempt) \<Rightarrow> 'p \<Rightarrow> 'body attempt" where
  "gzip_json to_json ft gz payload =
     (case to_json payload of None \<Rightarrow> Fails ''json: unsupported value'' | Some j \<Rightarrow> gz (json_text ft j))"

text \<open>
  C40: one attribute that is NaN or infinite loses its whole batch: such a double on any span is enough for
  the encoding to fail, and the post counts as failed whatever the network would have done.
\<close>
theorem nonfinite_double_loses_batch:
  assumes "span_wf sp" and "\<not> is_sensitive_attribute_key k" and "d = NaN \<or> d = PosInf \<or> d = NegInf"
  shows "\<not> post (gzip_json trace_json ft gz) url_ok do_request key
    \<lparr>ob_url = u, ob_payload = build_payload svc env (map to_data (xs @ set_double k d sp # ys))\<rparr>"
proof -
  let ?sp = "set_double k d sp"
  have wf: "span_wf ?sp" using assms(1) by (simp add: set_double_def set_attr_wf)
  have "get_attr ?sp k = Some (double_value d)"
    using assms(1,2) by (simp add: set_double_def get_attr_set_attr)
  then have "wire_attrs (to_data ?sp) k = Some (double_value d)" by (simp add: wire_attrs_to_data [OF wf])
  then obtain kv where kv: "kv \<in> set (sd_attributes (to_data ?sp))" "kv_value kv = double_value d"
    by (auto simp: wire_attrs_def dest!: map_of_SomeD)
  have "\<not> finite_value (double_value d)"
    using assms(3) by (auto simp: finite_value_def double_value_def)
  with kv have "\<not> span_finite (to_data ?sp)" by (auto simp: span_finite_def attrs_finite_def list_all_iff intro!: bexI [of _ kv])
  then have "trace_json (build_payload svc env (map to_data (xs @ ?sp # ys))) = None"
    by (simp add: trace_json_None)
  then show ?thesis by (simp add: post_def gzip_json_def)
qed

lemma nonfinite_double_loses_batch_witness:
  "\<not> post (gzip_json trace_json (\<lambda>_. ''0'') Got) (\<lambda>_. True) (\<lambda>_. Got 200) ''k''
    \<lparr>ob_url = ''u'', ob_payload = build_payload ''svc'' ''test''
       (map to_data [set_double ''load'' NaN (new_span demo_trace_id demo_span_id [] ''GET /'' 2 0 0)])\<rparr>"
proof -
  have "\<not> is_sensitive_attribute_key ''load''" by code_simp
  from nonfinite_double_loses_batch [OF new_span_wf this, of NaN "\<lambda>_. ''0''" Got "\<lambda>_. True" "\<lambda>_. Got 200" "''k''" "''u''"
      "''svc''" "''test''" "[]" demo_trace_id demo_span_id "[]" "''GET /''" 2 0 0 "[]"]
  show ?thesis by simp
qed

text \<open>
  A receiver reads back exactly what was sent: from the JSON of a trace request, or of a logs request,
  with every omitted field at its zero value, the request itself is recovered.
\<close>
theorem wire_round_trip:
  "(trace_json p = Some j \<longrightarrow> read_trace j = Some p) \<and> (logs_json q = Some k \<longrightarrow> read_logs k = Some q)"
  by (simp add: trace_wire.dec_enc logs_wire.dec_enc)

lemma wire_round_trip_witness:
  "\<exists>j. trace_json (build_payload ''svc'' ''test'' []) = Some j \<and> read_trace j = Some (build_payload ''svc'' ''test'' [])"
proof -
  obtain j where j: "trace_json (build_payload ''svc'' ''test'' []) = Some j"
    using trace_json_None [of "''svc''" "''test''" "[]"] by auto
  with wire_round_trip [of "build_payload ''svc'' ''test'' []" j "\<lparr>lg_resource_logs = []\<rparr>"] show ?thesis by auto
qed

section \<open>The shape of a sent batch\<close>

text \<open>What the OTLP/JSON contract asks of a span: ids in hex, values of one type each, no status message.\<close>

fun typed_value :: "json \<Rightarrow> bool" where
  "typed_value (JObj [(k, JStr s)]) \<longleftrightarrow> k = ''stringValue'' \<or> k = ''intValue''"
| "typed_value (JObj [(k, JBool b)]) \<longleftrightarrow> k = ''boolValue''"
| "typed_value (JObj [(k, JFloat d)]) \<longleftrightarrow> k = ''doubleValue''"
| "typed_value _ = False"

definition typed_attr :: "json \<Rightarrow> bool" where
  "typed_attr j \<longleftrightarrow>
     (\<exists>k. member ''key'' j = Some (JStr k) \<and> \<not> is_sensitive_attribute_key k)
     \<and> (\<exists>v. member ''value'' j = Some v \<and> typed_value v)"

definition elements :: "string \<Rightarrow> json \<Rightarrow> json list" where
  "elements k j = (case member k j of Some (JArr xs) \<Rightarrow> xs | _ \<Rightarrow> [])"

definition hex_member :: "nat \<Rightarrow> string \<Rightarrow> json \<Rightarrow> bool" where
  "hex_member n k j \<longleftrightarrow> (\<exists>s. member k j = Some (JStr s) \<and> valid_id n s)"

definition typed_span :: "json \<Rightarrow> bool" where
  "typed_span j \<longleftrightarrow>
     hex_member 32 ''traceId'' j \<and> hex_member 16 ''spanId'' j
     \<and> (member ''parentSpanId'' j = None \<or> hex_member 16 ''parentSpanId'' j)
     \<and> (\<exists>s. member ''name'' j = Some (JStr s)) \<and> (\<exists>i. member ''kind'' j = Some (JInt i))
     \<and> (\<exists>s. member ''startTimeUnixNano'' j = Some (JStr s)) \<and> (\<exists>s. member ''endTimeUnixNano'' j = Some (JStr s))
     \<and> list_all typed_attr (elements ''attributes'' j)
     \<and> (member ''status'' j = None
        \<or> (\<exists>st i. member ''status'' j = Some st \<and> member ''code'' st = Some (JInt i) \<and> member ''message'' st = None))"

text \<open>The spans of an encoded request.\<close>

definition wire_spans :: "json \<Rightarrow> json list" where
  "wire_spans j =
     concat (map (\<lambda>r. concat (map (elements ''spans'') (elements ''scopeSpans'' r))) (elements ''resourceSpans'' j))"

lemma elements_arr: "member k j = Some (JArr xs) \<Longrightarrow> elements k j = xs"
  by (simp add: elements_def)

lemma typed_any: "any_json v = Some j \<Longrightarrow> one_field v \<Longrightarrow> typed_value j"
  by (cases v)
    (auto simp: any_json_def double_members_def one_field_def wire_simps split: option.splits f64.splits)

lemma typed_kv:
  "kv_json kv = Some j \<Longrightarrow> one_field (kv_value kv) \<Longrightarrow> \<not> is_sensitive_attribute_key (kv_key kv) \<Longrightarrow> typed_attr j"
  by (auto simp: kv_json_def typed_attr_def bind_eq_Some_conv typed_any)

lemma those_list_all:
  "those (map f xs) = Some ys \<Longrightarrow> list_all P xs \<Longrightarrow> (\<And>x y. P x \<Longrightarrow> f x = Some y \<Longrightarrow> Q y) \<Longrightarrow> list_all Q ys"
  by (induction xs arbitrary: ys) (auto split: option.splits)

lemma typed_span_json:
  assumes "span_json d = Some j" and "export_safe d" and "valid_id 32 (sd_trace_id d)" and "valid_id 16 (sd_span_id d)"
    and "sd_parent_span_id d = [] \<or> valid_id 16 (sd_parent_span_id d)"
  shows "typed_span j"
proof -
  obtain as ls where as: "those (map kv_json (sd_attributes d)) = Some as"
    and j: "j = JObj (str_member ''traceId'' (sd_trace_id d) @ str_member ''spanId'' (sd_span_id d)
                 @ str_omit ''parentSpanId'' (sd_parent_span_id d) @ str_member ''name'' (sd_name d)
                 @ [(''kind'', JInt (sd_kind d))]
                 @ str_member ''startTimeUnixNano'' (sd_start d) @ str_member ''endTimeUnixNano'' (sd_end d)
                 @ arr_omit ''attributes'' as @ arr_omit ''links'' ls
                 @ ptr_omit ''status'' status_json (sd_status d))"
    using assms(1) by (auto simp: span_json_def bind_eq_Some_conv)
  have "list_all (\<lambda>kv. \<not> is_sensitive_attribute_key (kv_key kv) \<and> one_field (kv_value kv)) (sd_attributes d)"
    using assms(2) by (simp add: export_safe_def)
  then have attrs: "list_all typed_attr as" by (rule those_list_all [OF as]) (simp add: typed_kv)
  have "elements ''attributes'' j = as"
    unfolding j by (auto simp: elements_def wire_defs split: option.split)
  moreover have "member ''status'' j = map_option status_json (sd_status d)"
    unfolding j by (auto simp: wire_defs split: option.split)
  moreover have "member ''message'' (status_json st) = None" "member ''code'' (status_json st) = Some (JInt (st_code st))"
    if "sd_status d = Some st" for st
    using that assms(2) by (auto simp: export_safe_def status_json_def wire_defs)
  moreover have "hex_member 32 ''traceId'' j" "hex_member 16 ''spanId'' j"
    "member ''parentSpanId'' j = None \<or> hex_member 16 ''parentSpanId'' j"
    "\<exists>s. member ''name'' j = Some (JStr s)" "\<exists>i. member ''kind'' j = Some (JInt i)"
    "\<exists>s. member ''startTimeUnixNano'' j = Some (JStr s)" "\<exists>s. member ''endTimeUnixNano'' j = Some (JStr s)"
    unfolding j using assms(3-5) by (auto simp: hex_member_def wire_defs split: option.split)
  ultimately show ?thesis
    using attrs unfolding typed_span_def by (cases "sd_status d") auto
qed

lemma wire_spans_of:
  assumes "trace_json p = Some j"
  shows "those (map span_json (request_spans p)) = Some (wire_spans j)"
proof -
  have app: "those (xs @ ys) = Some (a @ b)" if "those xs = Some a" "those ys = Some b" for xs ys :: "'a option list" and a b
    using that by (induction xs arbitrary: a) (auto split: option.splits)
  have scope: "those (map span_json (concat (map ss_spans ss))) = Some (concat (map (elements ''spans'') js))"
    if "those (map scope_spans_json ss) = Some js" for ss js
    using that
  proof (induction ss arbitrary: js)
    case (Cons s ss)
    from Cons.prems obtain h js' where h: "scope_spans_json s = Some h" "those (map scope_spans_json ss) = Some js'"
        "js = h # js'"
      by (auto split: option.splits)
    then obtain xs where "those (map span_json (ss_spans s)) = Some xs"
        "h = JObj [(''scope'', scope_json (ss_scope s)), (''spans'', JArr xs)]"
      by (auto simp: scope_spans_json_def bind_eq_Some_conv)
    with h Cons.IH show ?case by (simp add: app elements_arr)
  qed simp
  have "those (map span_json (concat (map (\<lambda>r. concat (map ss_spans (rsp_scope_spans r))) rs)))
      = Some (concat (map (\<lambda>r. concat (map (elements ''spans'') (elements ''scopeSpans'' r))) js))"
    if "those (map resource_spans_json rs) = Some js" for rs js
    using that
  proof (induction rs arbitrary: js)
    case (Cons r rs)
    from Cons.prems obtain h js' where h: "resource_spans_json r = Some h" "those (map resource_spans_json rs) = Some js'"
        "js = h # js'"
      by (auto split: option.splits)
    then obtain rc xs where "those (map scope_spans_json (rsp_scope_spans r)) = Some xs"
        "h = JObj [(''resource'', rc), (''scopeSpans'', JArr xs)]"
      by (auto simp: resource_spans_json_def bind_eq_Some_conv)
    with h Cons.IH show ?case by (simp add: app elements_arr scope)
  qed simp
  then show ?thesis
    using assms by (auto simp: trace_json_def bind_eq_Some_conv request_spans_def wire_spans_def elements_def)
qed

text \<open>
  C13: every batch of every run that can be written at all is typed as the contract asks: at least one span,
  and every span with hex ids of the right length, decimal times as strings, one typed value under a key that
  is not sensitive in every attribute, and a status without a message.
\<close>
theorem sent_batch_typed:
  assumes "run acts (fresh_sdk rng clock) = Some s" and "(t, p) \<in> set (w_sent (sdk_world s))"
    and "trace_json p = Some j"
  shows "wire_spans j \<noteq> [] \<and> list_all typed_span (wire_spans j)"
proof -
  have "batch_ok p"
    using run_ok [OF assms(1)] assms(2) by (auto simp: sdk_ok_def world_ok_def list_all_iff)
  then obtain rt kids where spans: "request_spans p = rt # kids"
    and ok: "list_all (\<lambda>d. export_safe d \<and> valid_id 32 (sd_trace_id d) \<and> valid_id 16 (sd_span_id d)
        \<and> (sd_parent_span_id d = [] \<or> valid_id 16 (sd_parent_span_id d))) (rt # kids)"
    by (cases "request_spans p") (auto simp: batch_ok_def list_all_iff)
  note w = wire_spans_of [OF assms(3), unfolded spans]
  have "list_all typed_span (wire_spans j)"
    by (rule those_list_all [OF w ok]) (simp add: typed_span_json)
  moreover have "wire_spans j \<noteq> []" using those_length [OF w] by auto
  ultimately show ?thesis by simp
qed

lemma sent_batch_typed_witness:
  "\<exists>p j. trace_json p = Some j \<and> length (wire_spans j) = 2 \<and> list_all typed_span (wire_spans j)"
proof -
  have "map_option (\<lambda>s. map (\<lambda>(t, p). (t, length (request_spans p), trace_json p = None)) (w_sent (sdk_world s)))
      (run (demo_acts @ [Finish demo_ctx]) (fresh_sdk demo_rng demo_clock)) = Some [(7, 2, False)]"
    by code_simp
  then obtain s p where r: "run (demo_acts @ [Finish demo_ctx]) (fresh_sdk demo_rng demo_clock) = Some s"
    and p: "(7, p) \<in> set (w_sent (sdk_world s))" "length (request_spans p) = 2" "trace_json p \<noteq> None"
    by (fastforce simp: map_eq_Cons_conv)
  from p(3) obtain j where j: "trace_json p = Some j" by blast
  have "length (wire_spans j) = 2" using those_length [OF wire_spans_of [OF j]] p(2) by simp
  with sent_batch_typed [OF r p(1) j] j show ?thesis by blast
qed

end
