(* ===== verification/LocalTransports.thy ===== *)
theory LocalTransports
  imports WireSafety
begin

text \<open>
  The transports of \<open>transport.go\<close> that never open a socket: the null transport, the log transport, and the
  preview with its bounded list of reports behind a mutex.  Writers, loggers and gzip are parameters.
\<close>

section \<open>Null and log\<close>

text \<open>What reaches a logger: the logger (\<^const>\<open>None\<close> is the standard one) and the line, if any.\<close>

definition null_send :: "'p \<Rightarrow> (iface option \<times> string) option" where
  "null_send payload = None"

definition log_payload ::
  "('p \<Rightarrow> json option) \<Rightarrow> (rat \<Rightarrow> string) \<Rightarrow> iface option \<Rightarrow> 'p \<Rightarrow> (iface option \<times> string) option" where
  "log_payload to_json ft logger payload =
     (case to_json payload of
        None \<Rightarrow> None
      | Some j \<Rightarrow> Some (logger, ''restlytics: '' @ json_text ft j))"

record log_transport =
  lt_logger :: "iface option"

definition log_send :: "(rat \<Rightarrow> string) \<Rightarrow> log_transport \<Rightarrow> trace_request \<Rightarrow> (iface option \<times> string) option" where
  "log_send ft t payload = log_payload trace_json ft (lt_logger t) payload"

definition log_send_logs :: "(rat \<Rightarrow> string) \<Rightarrow> log_transport \<Rightarrow> logs_request \<Rightarrow> (iface option \<times> string) option" where
  "log_send_logs ft t payload = log_payload logs_json ft (lt_logger t) payload"

section \<open>Indented JSON\<close>

definition newline_indent :: "nat \<Rightarrow> string" where
  "newline_indent d = CHR 0x0A # concat (replicate d ''  '')"

text \<open>\<open>MarshalIndent\<close> with no prefix and an indent of two spaces.\<close>

fun json_indent :: "(rat \<Rightarrow> string) \<Rightarrow> nat \<Rightarrow> json \<Rightarrow> string" where
  "json_indent ft d (JArr xs) =
     (if xs = [] then ''[]''
      else ''['' @ newline_indent (Suc d)
        @ join_with ('','' @ newline_indent (Suc d)) (map (json_indent ft (Suc d)) xs) @ newline_indent d @ '']'')"
| "json_indent ft d (JObj ms) =
     (if ms = [] then ''{}''
      else ''{'' @ newline_indent (Suc d)
        @ join_with ('','' @ newline_indent (Suc d))
            (map (\<lambda>(k, v). json_quote k @ '': '' @ json_indent ft (Suc d) v) ms) @ newline_indent d @ ''}'')"
| "json_indent ft d j = json_text ft j"

section \<open>Preview reports\<close>

record telemetry_preview =
  tp_mode :: string
  tp_network_request_made :: bool
  tp_signal :: string
  tp_sample_rate :: f64
  tp_was_sampled :: bool
  tp_span_count :: nat
  tp_json_bytes :: nat
  tp_gzip_bytes :: nat
  tp_policy :: "string list"
  tp_payload :: trace_request

record log_telemetry_preview =
  lp_mode :: string
  lp_network_request_made :: bool
  lp_signal :: string
  lp_record_count :: nat
  lp_json_bytes :: nat
  lp_gzip_bytes :: nat
  lp_policy :: "string list"
  lp_payload :: logs_request

definition trace_policy :: "string list" where
  "trace_policy = [''url query values and URL credentials'', ''sensitive headers and credentials'',
     ''request and response bodies'', ''exception messages and stack traces'', ''SQL binding values'']"

definition log_policy :: "string list" where
  "log_policy = [''credentials and personal data in log text'', ''URL credentials, fragments, and query values'',
     ''sensitive structured attributes'', ''bounded body and attribute content'']"

definition span_count :: "trace_request \<Rightarrow> nat" where
  "span_count p =
     fold (\<lambda>r n. fold (\<lambda>sc m. m + length (ss_spans sc)) (rsp_scope_spans r) n) (tr_resource_spans p) 0"

definition record_count :: "logs_request \<Rightarrow> nat" where
  "record_count p =
     fold (\<lambda>r n. fold (\<lambda>sc m. m + length (sl_records sc)) (rlg_scope_logs r) n) (lg_resource_logs p) 0"

definition strings_json :: "string list \<Rightarrow> json" where
  "strings_json xs = JArr (map JStr xs)"

text \<open>The report as JSON: it can be written unless its sample rate or its payload cannot.\<close>

definition preview_json :: "telemetry_preview \<Rightarrow> json option" where
  "preview_json r =
     (case tp_sample_rate r of
        Fin rate \<Rightarrow>
          map_option (\<lambda>p. JObj
            [(''mode'', JStr (tp_mode r)), (''networkRequestMade'', JBool (tp_network_request_made r)),
             (''signal'', JStr (tp_signal r)), (''configuredSampleRate'', JFloat rate),
             (''sampled'', JBool (tp_was_sampled r)), (''spanCount'', JInt (int (tp_span_count r))),
             (''jsonBytes'', JInt (int (tp_json_bytes r))), (''gzipBytes'', JInt (int (tp_gzip_bytes r))),
             (''redactionPolicyApplied'', strings_json (tp_policy r)), (''payload'', p)]) (trace_json (tp_payload r))
      | _ \<Rightarrow> None)"

definition log_preview_json :: "log_telemetry_preview \<Rightarrow> json option" where
  "log_preview_json r =
     map_option (\<lambda>p. JObj
       [(''mode'', JStr (lp_mode r)), (''networkRequestMade'', JBool (lp_network_request_made r)),
        (''signal'', JStr (lp_signal r)), (''recordCount'', JInt (int (lp_record_count r))),
        (''jsonBytes'', JInt (int (lp_json_bytes r))), (''gzipBytes'', JInt (int (lp_gzip_bytes r))),
        (''redactionPolicyApplied'', strings_json (lp_policy r)), (''payload'', p)]) (logs_json (lp_payload r))"

section \<open>The preview transport\<close>

record preview_transport =
  pv_sample_rate :: f64
  pv_writer :: "iface option"
  pv_locked :: bool
  pv_reports :: "telemetry_preview list"
  pv_log_reports :: "log_telemetry_preview list"

definition new_preview_transport :: "f64 \<Rightarrow> iface option \<Rightarrow> preview_transport" where
  "new_preview_transport rate writer =
     \<lparr>pv_sample_rate = rate, pv_writer = writer, pv_locked = False, pv_reports = [], pv_log_reports = []\<rparr>"

definition keep_last :: "nat \<Rightarrow> 'a list \<Rightarrow> 'a list" where
  "keep_last n xs = (if length xs > n then drop (length xs - n) xs else xs)"

definition preview_report :: "(rat \<Rightarrow> string) \<Rightarrow> (string \<Rightarrow> string attempt) \<Rightarrow> f64 \<Rightarrow> trace_request \<Rightarrow> telemetry_preview option" where
  "preview_report ft gz rate payload =
     (case trace_json payload of
        None \<Rightarrow> None
      | Some j \<Rightarrow>
          (case gz (json_text ft j) of
             Got z \<Rightarrow> Some \<lparr>tp_mode = ''preview'', tp_network_request_made = False, tp_signal = ''traces'',
                 tp_sample_rate = rate, tp_was_sampled = True, tp_span_count = span_count payload,
                 tp_json_bytes = length (json_text ft j), tp_gzip_bytes = length z, tp_policy = trace_policy,
                 tp_payload = payload\<rparr>
           | _ \<Rightarrow> None))"

definition log_preview_report :: "(rat \<Rightarrow> string) \<Rightarrow> (string \<Rightarrow> string attempt) \<Rightarrow> logs_request \<Rightarrow> log_telemetry_preview option" where
  "log_preview_report ft gz payload =
     (case logs_json payload of
        None \<Rightarrow> None
      | Some j \<Rightarrow>
          (case gz (json_text ft j) of
             Got z \<Rightarrow> Some \<lparr>lp_mode = ''preview'', lp_network_request_made = False, lp_signal = ''logs'',
                 lp_record_count = record_count payload, lp_json_bytes = length (json_text ft j),
                 lp_gzip_bytes = length z, lp_policy = log_policy, lp_payload = payload\<rparr>
           | _ \<Rightarrow> None))"

text \<open>
  The locked part: store the report, write its text, unlock.  A writer that panics is recovered from
  outside, past the unlock.  \<^const>\<open>None\<close> is a call that never returns: the mutex is held for ever.
\<close>

definition locked_write ::
  "(iface option \<Rightarrow> string \<Rightarrow> unit outcome) \<Rightarrow> string \<Rightarrow> (preview_transport \<Rightarrow> preview_transport)
   \<Rightarrow> preview_transport \<Rightarrow> preview_transport option" where
  "locked_write wr line store pv =
     (if pv_locked pv then None
      else
        let pv1 = store (pv\<lparr>pv_locked := True\<rparr>)
        in case wr (pv_writer pv1) line of
             Return _ \<Rightarrow> Some (pv1\<lparr>pv_locked := False\<rparr>)
           | Panicked _ \<Rightarrow> Some pv1)"

definition preview_send ::
  "(rat \<Rightarrow> string) \<Rightarrow> (string \<Rightarrow> string attempt) \<Rightarrow> (iface option \<Rightarrow> string \<Rightarrow> unit outcome) \<Rightarrow> trace_request
   \<Rightarrow> preview_transport \<Rightarrow> preview_transport option" where
  "preview_send ft gz wr payload pv =
     (case preview_report ft gz (pv_sample_rate pv) payload of
        None \<Rightarrow> Some pv
      | Some report \<Rightarrow>
          (case preview_json report of
             None \<Rightarrow> Some pv
           | Some j \<Rightarrow>
               locked_write wr (json_indent ft 0 j)
                 (\<lambda>pv. pv\<lparr>pv_reports := keep_last 16 (pv_reports pv @ [report])\<rparr>) pv))"

definition preview_send_logs ::
  "(rat \<Rightarrow> string) \<Rightarrow> (string \<Rightarrow> string attempt) \<Rightarrow> (iface option \<Rightarrow> string \<Rightarrow> unit outcome) \<Rightarrow> logs_request
   \<Rightarrow> preview_transport \<Rightarrow> preview_transport option" where
  "preview_send_logs ft gz wr payload pv =
     (case log_preview_report ft gz payload of
        None \<Rightarrow> Some pv
      | Some report \<Rightarrow>
          (case log_preview_json report of
             None \<Rightarrow> Some pv
           | Some j \<Rightarrow>
               locked_write wr (json_indent ft 0 j)
                 (\<lambda>pv. pv\<lparr>pv_log_reports := keep_last 16 (pv_log_reports pv @ [report])\<rparr>) pv))"

section \<open>Bounded reports\<close>

text \<open>Any sequence of sends and log sends.\<close>

datatype preview_call = PvSend trace_request | PvSendLogs logs_request

fun preview_run ::
  "(rat \<Rightarrow> string) \<Rightarrow> (string \<Rightarrow> string attempt) \<Rightarrow> (iface option \<Rightarrow> string \<Rightarrow> unit outcome) \<Rightarrow> preview_call list
   \<Rightarrow> preview_transport \<Rightarrow> preview_transport option" where
  "preview_run ft gz wr [] pv = Some pv"
| "preview_run ft gz wr (PvSend p # cs) pv = Option.bind (preview_send ft gz wr p pv) (preview_run ft gz wr cs)"
| "preview_run ft gz wr (PvSendLogs p # cs) pv = Option.bind (preview_send_logs ft gz wr p pv) (preview_run ft gz wr cs)"

text \<open>The reports the trace payloads of a run give, oldest first.\<close>

definition made_reports ::
  "(rat \<Rightarrow> string) \<Rightarrow> (string \<Rightarrow> string attempt) \<Rightarrow> f64 \<Rightarrow> preview_call list \<Rightarrow> telemetry_preview list" where
  "made_reports ft gz rate cs =
     concat (map (\<lambda>c. case c of
        PvSend p \<Rightarrow> (case preview_report ft gz rate p of
            Some r \<Rightarrow> (if preview_json r \<noteq> None then [r] else []) | None \<Rightarrow> [])
      | PvSendLogs _ \<Rightarrow> []) cs)"

lemma keep_last_eq: "keep_last n xs = drop (length xs - n) xs"
  by (simp add: keep_last_def)

lemma keep_last_length: "length (keep_last n xs) \<le> n"
  by (simp add: keep_last_eq)

lemma keep_last_append: "keep_last n (keep_last n xs @ ys) = keep_last n (xs @ ys)"
proof (cases "length xs \<le> n")
  case False
  have "drop (length xs - n) xs @ ys = drop (length xs - n) (xs @ ys)" by simp
  then show ?thesis using False by (simp add: keep_last_eq add.commute)
qed (simp add: keep_last_eq)

lemma locked_write_returns:
  assumes "\<And>w t. \<not> is_panic (wr w t)" and "\<not> pv_locked pv" and "\<And>pv. pv_locked (store pv) = pv_locked pv"
  shows "\<exists>pv'. locked_write wr line store pv = Some pv' \<and> \<not> pv_locked pv'
    \<and> pv' = (store (pv\<lparr>pv_locked := True\<rparr>))\<lparr>pv_locked := False\<rparr>"
proof -
  let ?pv1 = "store (pv\<lparr>pv_locked := True\<rparr>)"
  obtain u where "wr (pv_writer ?pv1) line = Return u"
    using assms(1) [of "pv_writer ?pv1" line] by (cases "wr (pv_writer ?pv1) line") auto
  then show ?thesis using assms(2) by (simp add: locked_write_def Let_def)
qed

lemma preview_send_report:
  assumes "\<And>w t. \<not> is_panic (wr w t)" and "\<not> pv_locked pv"
  shows "preview_send ft gz wr p pv
    = Some (pv\<lparr>pv_reports := keep_last 16 (pv_reports pv @ made_reports ft gz (pv_sample_rate pv) [PvSend p])\<rparr>)
    \<or> (made_reports ft gz (pv_sample_rate pv) [PvSend p] = [] \<and> preview_send ft gz wr p pv = Some pv)"
proof -
  have w: "locked_write wr line store pv = Some ((store (pv\<lparr>pv_locked := True\<rparr>))\<lparr>pv_locked := False\<rparr>)"
    if "\<And>pv. pv_locked (store pv) = pv_locked pv" for line store
    using locked_write_returns [where wr = wr and pv = pv and store = store and line = line, OF assms that] by auto
  show ?thesis
    using assms(2)
    by (auto simp: preview_send_def made_reports_def w split: option.splits)
qed

lemma preview_send_logs_bounded:
  assumes "\<And>w t. \<not> is_panic (wr w t)" and "\<not> pv_locked pv" and "length (pv_log_reports pv) \<le> 16"
  shows "\<exists>pv'. preview_send_logs ft gz wr p pv = Some pv' \<and> \<not> pv_locked pv' \<and> pv_reports pv' = pv_reports pv
    \<and> pv_sample_rate pv' = pv_sample_rate pv \<and> length (pv_log_reports pv') \<le> 16"
proof -
  have w: "locked_write wr line store pv = Some ((store (pv\<lparr>pv_locked := True\<rparr>))\<lparr>pv_locked := False\<rparr>)"
    if "\<And>pv. pv_locked (store pv) = pv_locked pv" for line store
    using locked_write_returns [where wr = wr and pv = pv and store = store and line = line, OF assms(1,2) that] by auto
  show ?thesis
    using assms(2,3) by (auto simp: preview_send_logs_def w keep_last_length split: option.splits)
qed

lemma preview_run_bounded:
  assumes "\<And>w t. \<not> is_panic (wr w t)" and "\<not> pv_locked pv" and "length (pv_log_reports pv) \<le> 16"
    and "length (pv_reports pv) \<le> 16"
  shows "\<exists>pv'. preview_run ft gz wr cs pv = Some pv' \<and> length (pv_log_reports pv') \<le> 16
    \<and> pv_reports pv' = keep_last 16 (pv_reports pv @ made_reports ft gz (pv_sample_rate pv) cs)"
  using assms(2-4)
proof (induction cs arbitrary: pv)
  case Nil
  then show ?case by (simp add: made_reports_def keep_last_eq)
next
  case (Cons c cs)
  show ?case
  proof (cases c)
    case (PvSend p)
    let ?new = "made_reports ft gz (pv_sample_rate pv) [PvSend p]"
    obtain pv1 where s: "preview_send ft gz wr p pv = Some pv1" "\<not> pv_locked pv1" "pv_sample_rate pv1 = pv_sample_rate pv"
        "length (pv_log_reports pv1) \<le> 16" "pv_reports pv1 = keep_last 16 (pv_reports pv @ ?new)"
      using preview_send_report [where wr = wr and pv = pv and ft = ft and gz = gz and p = p, OF assms(1) Cons.prems(1)] Cons.prems by (auto simp: keep_last_eq)
    have "made_reports ft gz r (PvSend p # cs) = made_reports ft gz r [PvSend p] @ made_reports ft gz r cs" for r
      by (simp add: made_reports_def)
    then show ?thesis
      using Cons.IH [OF s(2,4)] s PvSend by (auto simp: keep_last_length keep_last_append)
  next
    case (PvSendLogs p)
    obtain pv1 where s: "preview_send_logs ft gz wr p pv = Some pv1" "\<not> pv_locked pv1" "pv_reports pv1 = pv_reports pv"
        "pv_sample_rate pv1 = pv_sample_rate pv" "length (pv_log_reports pv1) \<le> 16"
      using preview_send_logs_bounded [where wr = wr and pv = pv and ft = ft and gz = gz and p = p, OF assms(1) Cons.prems(1,2)]
      by blast
    have "made_reports ft gz r (PvSendLogs p # cs) = made_reports ft gz r cs" for r
      by (simp add: made_reports_def)
    then show ?thesis
      using Cons.IH [OF s(2,5)] s PvSendLogs Cons.prems(3) by auto
  qed
qed



section \<open>A writer that panics\<close>

definition previewable :: "(rat \<Rightarrow> string) \<Rightarrow> (string \<Rightarrow> string attempt) \<Rightarrow> f64 \<Rightarrow> trace_request \<Rightarrow> bool" where
  "previewable ft gz rate p \<longleftrightarrow> (\<exists>r. preview_report ft gz rate p = Some r \<and> preview_json r \<noteq> None)"

text \<open>
  A writer that panics once blocks the preview for good: the send that panicked returns (the panic is
  swallowed) with the mutex still locked, and the next send of any batch that can be written never returns.
\<close>
theorem preview_writer_panic_blocks:
  assumes "\<forall>w t. is_panic (wr w t)" and "\<not> pv_locked pv"
    and "previewable ft gz (pv_sample_rate pv) p" and "previewable ft gz (pv_sample_rate pv) q"
  shows "\<exists>pv'. preview_send ft gz wr p pv = Some pv' \<and> preview_send ft gz wr' q pv' = None"
proof -
  obtain r j where r: "preview_report ft gz (pv_sample_rate pv) p = Some r" "preview_json r = Some j"
    using assms(3) by (auto simp: previewable_def)
  obtain r' j' where r': "preview_report ft gz (pv_sample_rate pv) q = Some r'" "preview_json r' = Some j'"
    using assms(4) by (auto simp: previewable_def)
  obtain m where "wr (pv_writer pv) (json_indent ft 0 j) = Panicked m"
    using assms(1) by (metis is_panic.elims(2))
  then show ?thesis
    using r r' assms(2) by (simp add: preview_send_def locked_write_def Let_def)
qed

lemma preview_writer_panic_blocks_witness:
  "\<exists>pv'. preview_send (\<lambda>_. ''0'') Got (\<lambda>_ _. Panicked ''closed'') (build_payload ''s'' ''e'' []) (new_preview_transport (Fin 1) None) = Some pv'
    \<and> preview_send (\<lambda>_. ''0'') Got (\<lambda>_ _. Return ()) (build_payload ''s'' ''e'' []) pv' = None"
proof (rule preview_writer_panic_blocks)
  obtain j where "trace_json (build_payload ''s'' ''e'' []) = Some j"
    using trace_json_None [of "''s''" "''e''" "[]"] by auto
  then show "previewable (\<lambda>_. ''0'') Got (pv_sample_rate (new_preview_transport (Fin 1) None)) (build_payload ''s'' ''e'' [])"
    and "previewable (\<lambda>_. ''0'') Got (pv_sample_rate (new_preview_transport (Fin 1) None)) (build_payload ''s'' ''e'' [])"
    by (simp_all add: previewable_def preview_report_def preview_json_def new_preview_transport_def)
qed (simp_all add: new_preview_transport_def)

text \<open>The counts of a report are those of its payload.\<close>

lemma fold_add: "fold (\<lambda>x n. n + f x) xs n = n + sum_list (map f xs)" for n :: nat
  by (induction xs arbitrary: n) simp_all

lemma span_count_spans: "span_count p = length (request_spans p)"
  by (simp add: span_count_def request_spans_def fold_add length_concat comp_def)

end
