(* ===== verification/Configuration.thy ===== *)
theory Configuration
  imports GoParseFloat Middleware
begin

text \<open>
  \<open>Config.Resolve\<close> of \<open>config.go\<close>: unset fields filled from the environment and the defaults.  The
  environment is the function \<open>os.Getenv\<close> computes: the empty string for a variable that is not set.
\<close>

type_synonym environ = "string \<Rightarrow> string"

section \<open>Reading the environment\<close>

definition env_or :: "environ \<Rightarrow> string \<Rightarrow> string \<Rightarrow> string" where
  "env_or env key fallback = (if env key \<noteq> [] then env key else fallback)"

definition env_int :: "environ \<Rightarrow> string \<Rightarrow> int \<Rightarrow> int" where
  "env_int env key fallback =
     (if env key \<noteq> [] then (case atoi (trim_space (env key)) of Some n \<Rightarrow> n | None \<Rightarrow> fallback) else fallback)"

definition env_float :: "environ \<Rightarrow> string \<Rightarrow> f64 \<Rightarrow> f64" where
  "env_float env key fallback =
     (if env key \<noteq> [] then (case parse_float (trim_space (env key)) of Some f \<Rightarrow> f | None \<Rightarrow> fallback) else fallback)"

definition env_bool :: "environ \<Rightarrow> string \<Rightarrow> bool \<Rightarrow> bool" where
  "env_bool env key fallback =
     (let v = to_lower (trim_space (env key)) in
      if v \<in> {''1'', ''true'', ''yes'', ''on''} then True
      else if v \<in> {''0'', ''false'', ''no'', ''off''} then False
      else fallback)"

section \<open>Defaults\<close>

definition default_ingest_url :: string where "default_ingest_url = ''https://ingest.restlytics.com''"
definition default_service :: string where "default_service = ''go-app''"
definition default_env :: string where "default_env = ''production''"
definition default_sample_rate :: f64 where "default_sample_rate = Fin 1"
definition default_transport :: string where "default_transport = ''http''"
definition default_timeout_ms :: int where "default_timeout_ms = 2000"
definition default_max_spans :: int where "default_max_spans = 2000"
definition default_logs_min_severity :: int where "default_logs_min_severity = 13"

definition default_ignore_paths :: "string list" where
  "default_ignore_paths = [''/up'', ''/health'', ''/healthz'']"

definition default_redaction_keys :: "string list" where
  "default_redaction_keys =
     [''token'', ''api_key'', ''apikey'', ''password'', ''secret'', ''access_token'', ''key'', ''signature'']"

section \<open>Resolve\<close>

definition clamp_severity :: "int \<Rightarrow> int" where
  "clamp_severity n = (let n = (if n < 1 then 1 else n) in if n > 24 then 24 else n)"

definition config_resolve :: "environ \<Rightarrow> config \<Rightarrow> config" where
  "config_resolve env c =
     c\<lparr>cf_key := (if cf_key c = [] then env ''RESTLYTICS_KEY'' else cf_key c),
       cf_ingest_url := (if cf_ingest_url c = [] then env_or env ''RESTLYTICS_INGEST_URL'' default_ingest_url
                         else cf_ingest_url c),
       cf_service_name := (if cf_service_name c = [] then env_or env ''RESTLYTICS_SERVICE_NAME'' default_service
                           else cf_service_name c),
       cf_environment := (if cf_environment c = [] then env_or env ''RESTLYTICS_ENV'' default_env
                          else cf_environment c),
       cf_sample_rate := (if cf_sample_rate c = Fin 0 then env_float env ''RESTLYTICS_SAMPLE_RATE'' default_sample_rate
                          else cf_sample_rate c),
       cf_transport := (if cf_transport c = [] then env_or env ''RESTLYTICS_TRANSPORT'' default_transport
                        else cf_transport c),
       cf_timeout_ms := (if cf_timeout_ms c = 0 then env_int env ''RESTLYTICS_TIMEOUT_MS'' default_timeout_ms
                         else cf_timeout_ms c),
       cf_capture_sql := (if \<not> cf_capture_sql c then env_bool env ''RESTLYTICS_CAPTURE_SQL'' False else True),
       cf_max_spans := (if cf_max_spans c = 0 then env_int env ''RESTLYTICS_MAX_SPANS'' default_max_spans
                        else cf_max_spans c),
       cf_logs := (if \<not> cf_logs c then env_bool env ''RESTLYTICS_LOGS'' False else True),
       cf_logs_min_severity := clamp_severity
         (if cf_logs_min_severity c = 0 then env_int env ''RESTLYTICS_LOGS_MIN_SEVERITY'' default_logs_min_severity
          else cf_logs_min_severity c),
       cf_instrument_db := (if cf_instrument_db c = None then Some (env_bool env ''RESTLYTICS_INSTRUMENT_DB'' True)
                            else cf_instrument_db c),
       cf_instrument_http := (if cf_instrument_http c = None
                              then Some (env_bool env ''RESTLYTICS_INSTRUMENT_HTTP'' True) else cf_instrument_http c),
       cf_instrument_cache := (if cf_instrument_cache c = None
                               then Some (env_bool env ''RESTLYTICS_INSTRUMENT_CACHE'' True) else cf_instrument_cache c),
       cf_ignore_paths := (if cf_ignore_paths c = None then Some default_ignore_paths else cf_ignore_paths c),
       cf_redaction_query_keys := (if cf_redaction_query_keys c = None then Some default_redaction_keys
                                   else cf_redaction_query_keys c)\<rparr>"

section \<open>Properties\<close>

text \<open>A configuration the rest of the SDK can rely on.\<close>

definition resolved :: "config \<Rightarrow> bool" where
  "resolved c \<longleftrightarrow>
     cf_ingest_url c \<noteq> [] \<and> cf_service_name c \<noteq> [] \<and> cf_environment c \<noteq> [] \<and> cf_transport c \<noteq> []
     \<and> 1 \<le> cf_logs_min_severity c \<and> cf_logs_min_severity c \<le> 24
     \<and> cf_instrument_db c \<noteq> None \<and> cf_instrument_http c \<noteq> None \<and> cf_instrument_cache c \<noteq> None
     \<and> cf_ignore_paths c \<noteq> None \<and> cf_redaction_query_keys c \<noteq> None"

text \<open>What the caller set, the environment does not override.\<close>

definition keeps_explicit :: "config \<Rightarrow> config \<Rightarrow> bool" where
  "keeps_explicit c c' \<longleftrightarrow>
     (cf_key c \<noteq> [] \<longrightarrow> cf_key c' = cf_key c) \<and> (cf_ingest_url c \<noteq> [] \<longrightarrow> cf_ingest_url c' = cf_ingest_url c)
     \<and> (cf_service_name c \<noteq> [] \<longrightarrow> cf_service_name c' = cf_service_name c)
     \<and> (cf_environment c \<noteq> [] \<longrightarrow> cf_environment c' = cf_environment c)
     \<and> (cf_sample_rate c \<noteq> Fin 0 \<longrightarrow> cf_sample_rate c' = cf_sample_rate c)
     \<and> (cf_transport c \<noteq> [] \<longrightarrow> cf_transport c' = cf_transport c)
     \<and> (cf_timeout_ms c \<noteq> 0 \<longrightarrow> cf_timeout_ms c' = cf_timeout_ms c)
     \<and> (cf_max_spans c \<noteq> 0 \<longrightarrow> cf_max_spans c' = cf_max_spans c)
     \<and> (cf_capture_sql c \<longrightarrow> cf_capture_sql c') \<and> (cf_logs c \<longrightarrow> cf_logs c')
     \<and> (1 \<le> cf_logs_min_severity c \<and> cf_logs_min_severity c \<le> 24
          \<longrightarrow> cf_logs_min_severity c' = cf_logs_min_severity c)
     \<and> (cf_instrument_db c \<noteq> None \<longrightarrow> cf_instrument_db c' = cf_instrument_db c)
     \<and> (cf_instrument_http c \<noteq> None \<longrightarrow> cf_instrument_http c' = cf_instrument_http c)
     \<and> (cf_instrument_cache c \<noteq> None \<longrightarrow> cf_instrument_cache c' = cf_instrument_cache c)
     \<and> (cf_ignore_paths c \<noteq> None \<longrightarrow> cf_ignore_paths c' = cf_ignore_paths c)
     \<and> (cf_redaction_query_keys c \<noteq> None \<longrightarrow> cf_redaction_query_keys c' = cf_redaction_query_keys c)
     \<and> cf_custom_exporter c' = cf_custom_exporter c \<and> cf_custom_transport c' = cf_custom_transport c
     \<and> cf_custom_logs_transport c' = cf_custom_logs_transport c"

lemma clamp_severity_range: "1 \<le> clamp_severity n" "clamp_severity n \<le> 24" "clamp_severity n \<noteq> 0"
  by (simp_all add: clamp_severity_def Let_def)

lemma clamp_severity_id: "1 \<le> n \<Longrightarrow> n \<le> 24 \<Longrightarrow> clamp_severity n = n"
  by (simp add: clamp_severity_def)

lemma clamp_severity_clamped [simp]: "clamp_severity (clamp_severity n) = clamp_severity n"
  using clamp_severity_range by (simp add: clamp_severity_id)

lemma env_or_nonempty: "fallback \<noteq> [] \<Longrightarrow> env_or env key fallback \<noteq> []"
  by (simp add: env_or_def)

lemma resolve_resolved: "resolved (config_resolve env c)"
  by (simp add: resolved_def config_resolve_def clamp_severity_range env_or_nonempty default_ingest_url_def
      default_service_def default_env_def default_transport_def)


text \<open>
  An explicit sample rate of zero, the documented way to turn tracing off, is taken for an unset
  field: without an environment variable it is resolved to 1, and every trace is kept.
\<close>
theorem zero_sample_rate_ignored:
  assumes "cf_sample_rate c = Fin 0" and "env ''RESTLYTICS_SAMPLE_RATE'' = []"
  shows "cf_sample_rate (config_resolve env c) = Fin 1
    \<and> sample_decision trace_id (cf_sample_rate (config_resolve env c))"
  using assms
  by (simp add: config_resolve_def env_float_def default_sample_rate_def sample_decision_def)

lemma zero_sample_rate_ignored_witness:
  "sample_decision demo_trace_id (cf_sample_rate (config_resolve (\<lambda>_. []) (demo_cfg\<lparr>cf_sample_rate := Fin 0\<rparr>)))"
  by (rule conjunct2 [OF zero_sample_rate_ignored]) simp_all

end
