(* ===== verification/Handle.thy ===== *)
theory Handle
  imports LocalTransports Configuration Outbound DbWrap
begin

text \<open>
  The SDK handle (\<open>restlytics.go\<close>) and the choice of its transports (\<open>transport.go\<close>): \<open>Init\<close>, the
  contained lifecycle calls, and what a handle without a destination does.
\<close>

section \<open>Choosing transports\<close>

text \<open>
  A transport by how it was made; a customer's own transport is its identity.  Milliseconds become a
  \<open>time.Duration\<close>, an \<open>int64\<close> of nanoseconds that wraps.
\<close>

datatype transport =
  TManaged iface int64
| TCustom iface
| TCustomLogs iface
| TNull
| TLog
| TPreview f64
| THttp string string int64

definition duration_of_ms :: "int \<Rightarrow> int64" where
  "duration_of_ms ms = wrap64 (ms * 1000000)"

definition transport_from_config :: "config \<Rightarrow> transport" where
  "transport_from_config c =
     (case cf_custom_exporter c of
        Some e \<Rightarrow> TManaged e (duration_of_ms (cf_timeout_ms c))
      | None \<Rightarrow>
          (case cf_custom_transport c of
             Some t \<Rightarrow> TCustom t
           | None \<Rightarrow>
               let kind = to_lower (cf_transport c)
               in if kind = ''null'' then TNull
                  else if kind = ''log'' then TLog
                  else if kind = ''preview'' then TPreview (cf_sample_rate c)
                  else THttp (cf_ingest_url c) (cf_key c) (duration_of_ms (cf_timeout_ms c))))"

text \<open>
  The type assertions of Go: which of the optional interfaces a transport implements.  For a customer's
  transport that is a parameter.
\<close>

record custom_caps =
  cc_logs :: "iface \<Rightarrow> bool"
  cc_lifecycle :: "iface \<Rightarrow> bool"
  cc_diagnostics :: "iface \<Rightarrow> bool"

fun sends_logs :: "custom_caps \<Rightarrow> transport \<Rightarrow> bool" where
  "sends_logs caps (TCustom i) = cc_logs caps i"
| "sends_logs caps _ = True"

fun has_lifecycle :: "custom_caps \<Rightarrow> transport \<Rightarrow> bool" where
  "has_lifecycle caps (TManaged _ _) = True"
| "has_lifecycle caps (THttp _ _ _) = True"
| "has_lifecycle caps (TCustom i) = cc_lifecycle caps i"
| "has_lifecycle caps _ = False"

fun has_diagnostics :: "custom_caps \<Rightarrow> transport \<Rightarrow> bool" where
  "has_diagnostics caps (TManaged _ _) = True"
| "has_diagnostics caps (THttp _ _ _) = True"
| "has_diagnostics caps (TCustom i) = cc_diagnostics caps i"
| "has_diagnostics caps _ = False"

definition logs_transport_from_config :: "custom_caps \<Rightarrow> config \<Rightarrow> transport \<Rightarrow> transport" where
  "logs_transport_from_config caps c trace_transport =
     (if cf_custom_exporter c \<noteq> None then
        (if sends_logs caps trace_transport then trace_transport else TNull)
      else
        (case cf_custom_logs_transport c of
           Some t \<Rightarrow> TCustomLogs t
         | None \<Rightarrow> if sends_logs caps trace_transport then trace_transport else TNull))"

section \<open>Init\<close>

text \<open>
  The handle: the part the middleware reads, and the transports.  \<open>ref\<close> names a transport the way the
  tracer and the log handler refer to it.
\<close>

record sdk_handle =
  hd_restlytics :: restlytics
  hd_logs_transport :: "transport option"
  hd_lifecycle :: "transport option"
  hd_diagnostics :: "transport option"

definition sdk_init :: "environ \<Rightarrow> custom_caps \<Rightarrow> (transport \<Rightarrow> iface) \<Rightarrow> config \<Rightarrow> sdk_handle" where
  "sdk_init env caps ref cfg =
     (let resolved = config_resolve env cfg;
          t = transport_from_config resolved
      in \<lparr>hd_restlytics = \<lparr>rl_tracer = new_tracer resolved (ref t), rl_cfg = resolved\<rparr>,
          hd_logs_transport = Some (logs_transport_from_config caps resolved t),
          hd_lifecycle = (if has_lifecycle caps t then Some t else None),
          hd_diagnostics = (if has_diagnostics caps t then Some t else None)\<rparr>)"

text \<open>
  \<open>NewSlogHandler\<close> on a handle.
\<close>

definition handle_slog :: "(transport \<Rightarrow> iface) \<Rightarrow> sdk_handle option \<Rightarrow> 'h option \<Rightarrow> 'h slog_handler" where
  "handle_slog ref r nxt =
     new_slog_handler (ref TNull)
       (map_option (\<lambda>h. (rl_cfg (hd_restlytics h), map_option ref (hd_logs_transport h))) r) nxt"

section \<open>Contained lifecycle calls\<close>

text \<open>
  A nil context becomes the background context; a panic of the transport is a false result.  The call
  itself (\<open>Flush\<close> or \<open>Shutdown\<close> of the transport) is a parameter: for the queueing transports its steps
  are those of the transport's protocol.
\<close>

datatype 'c go_ctx = Background | Given 'c

definition context_or_background :: "'c option \<Rightarrow> 'c go_ctx" where
  "context_or_background c = (case c of None \<Rightarrow> Background | Some x \<Rightarrow> Given x)"

definition handle_flush :: "(transport \<Rightarrow> 'c go_ctx \<Rightarrow> bool outcome) \<Rightarrow> sdk_handle option \<Rightarrow> 'c option \<Rightarrow> bool" where
  "handle_flush call r c =
     (case r of
        None \<Rightarrow> True
      | Some h \<Rightarrow>
          (case hd_lifecycle h of
             None \<Rightarrow> True
           | Some t \<Rightarrow> (case call t (context_or_background c) of Return b \<Rightarrow> b | Panicked _ \<Rightarrow> False)))"

definition handle_shutdown :: "(transport \<Rightarrow> 'c go_ctx \<Rightarrow> bool outcome) \<Rightarrow> sdk_handle option \<Rightarrow> 'c option \<Rightarrow> bool" where
  "handle_shutdown call r c =
     (case r of
        None \<Rightarrow> True
      | Some h \<Rightarrow>
          (case hd_lifecycle h of
             None \<Rightarrow> True
           | Some t \<Rightarrow> (case call t (context_or_background c) of Return b \<Rightarrow> b | Panicked _ \<Rightarrow> False)))"

definition no_diagnostics :: diagnostics where
  "no_diagnostics = \<lparr>dg_accepted = 0, dg_delivered = 0, dg_dropped = 0, dg_failed = 0, dg_queued = 0,
     dg_in_flight = 0, dg_capacity = 0, dg_closed = False\<rparr>"

definition handle_diagnostics :: "(transport \<Rightarrow> diagnostics outcome) \<Rightarrow> sdk_handle option \<Rightarrow> diagnostics \<times> bool" where
  "handle_diagnostics call r =
     (case r of
        None \<Rightarrow> (no_diagnostics, False)
      | Some h \<Rightarrow>
          (case hd_diagnostics h of
             None \<Rightarrow> (no_diagnostics, False)
           | Some t \<Rightarrow> (case call t of Return d \<Rightarrow> (d, True) | Panicked _ \<Rightarrow> (no_diagnostics, False))))"

section \<open>What Init promises\<close>

lemma logs_transport_sends:
  "cf_custom_exporter c = None \<or> t = transport_from_config c \<Longrightarrow> sends_logs caps (logs_transport_from_config caps c t)"
  by (auto simp: logs_transport_from_config_def split: option.splits)

lemma resolve_custom [simp]:
  "cf_custom_exporter (config_resolve env c) = cf_custom_exporter c"
  "cf_custom_transport (config_resolve env c) = cf_custom_transport c"
  "cf_custom_logs_transport (config_resolve env c) = cf_custom_logs_transport c"
  by (simp_all add: config_resolve_def)


definition demo_caps :: custom_caps where
  "demo_caps = \<lparr>cc_logs = (\<lambda>_. False), cc_lifecycle = (\<lambda>_. False), cc_diagnostics = (\<lambda>_. False)\<rparr>"


section \<open>A handle without a destination\<close>

lemma disabled_start:
  assumes "\<not> config_enabled (tc_cfg t)" and "start_root t c name h kind cat link w = Some (c', w')"
  shows "\<not> is_sampled (Some c') w' \<and> w_sent w' = w_sent w \<and> outbound_context (Some c') w' = Some (None, w')"
proof -
  obtain st where st: "c' = CtxState (length (w_requests w)) # c" "w_requests w' = w_requests w @ [st]"
      "rs_enabled st = config_enabled (tc_cfg t)" "\<not> rs_sampled st" "w_sent w' = w_sent w"
    using assms
    by (auto simp: start_root_def trace_head_def bind_eq_Some_conv Let_def split_beta split: option.splits if_splits
        dest!: fresh_trace_id_SomeD fresh_span_id_SomeD)
  then have "request_of (Some c') w' = Some (length (w_requests w), st)"
    by (simp add: request_of_def from_context_def request_at_def)
  then show ?thesis using st assms(1) by (simp add: is_sampled_def outbound_context_def)
qed

text \<open>
  C26: without a key, a custom destination or the preview, the whole SDK stands aside: the middleware is the
  application's handler and nothing else; a request opened through the tracer is never sampled, sends nothing
  and propagates nothing; a wrapped query is the driver's own call; and the log handler captures nothing.
\<close>
theorem disabled_sdk_inert:
  assumes "\<not> config_enabled (rl_cfg r)" and "tc_cfg (rl_tracer r) = rl_cfg r"
  shows "middleware r rq handler s
      = map_option (\<lambda>s'. ((hn_events (handler (rq_ctx rq)), hn_result (handler (rq_ctx rq))), s'))
          (run (hn_acts (handler (rq_ctx rq))) s)
    \<and> (\<forall>c name h kind cat link w c' w'. start_root (rl_tracer r) c name h kind cat link w = Some (c', w')
        \<longrightarrow> \<not> is_sampled (Some c') w' \<and> w_sent w' = w_sent w \<and> outbound_context (Some c') w' = Some (None, w'))
    \<and> (\<forall>conn ctx q n fn. tn_rl conn = Some r \<longrightarrow> record_query conn ctx q n fn s = pass_through fn s)
    \<and> (\<forall>vf c rec w. fst (capture_safely vf (new_slog_handler nt (Some (rl_cfg r, lt)) nxt) c rec w) = None)"
proof (intro conjI allI impI)
  show "middleware r rq handler s
      = map_option (\<lambda>s'. ((hn_events (handler (rq_ctx rq)), hn_result (handler (rq_ctx rq))), s'))
          (run (hn_acts (handler (rq_ctx rq))) s)"
    using assms(1) by (simp add: middleware_def Let_def)
next
  fix c name h kind cat link w c' w'
  assume "start_root (rl_tracer r) c name h kind cat link w = Some (c', w')"
  from disabled_start [OF _ this] assms
  show "\<not> is_sampled (Some c') w'" and "w_sent w' = w_sent w" and "outbound_context (Some c') w' = Some (None, w')"
    by simp_all
next
  fix conn :: traced_conn and ctx q n and fn :: db_run
  assume "tn_rl conn = Some r"
  then show "record_query conn ctx q n fn s = pass_through fn s"
    using assms(1) by (simp add: record_query_def db_enabled_def pass_through_def)
next
  fix vf c rec w
  show "fst (capture_safely vf (new_slog_handler nt (Some (rl_cfg r, lt)) nxt) c rec w) = None"
    using assms(1) by (simp add: capture_safely_def new_slog_handler_def split: option.splits)
qed

definition keyless_handle :: restlytics where
  "keyless_handle = \<lparr>rl_tracer = demo_tracer\<lparr>tc_cfg := demo_cfg\<lparr>cf_key := []\<rparr>\<rparr>, rl_cfg = demo_cfg\<lparr>cf_key := []\<rparr>\<rparr>"

lemma disabled_sdk_inert_witness:
  "middleware keyless_handle demo_request (\<lambda>c. \<lparr>hn_acts = [], hn_events = [WriteHeader 200], hn_result = Return ()\<rparr>) demo_sdk
   = Some (([WriteHeader 200], Return ()), demo_sdk)"
proof -
  have "\<not> config_enabled (rl_cfg keyless_handle)" by code_simp
  moreover have "tc_cfg (rl_tracer keyless_handle) = rl_cfg keyless_handle" by (simp add: keyless_handle_def)
  ultimately show ?thesis
    using disabled_sdk_inert [of keyless_handle demo_request
        "\<lambda>c. \<lparr>hn_acts = [], hn_events = [WriteHeader 200], hn_result = Return ()\<rparr>" demo_sdk 0 None "None :: unit option"]
    by simp
qed

end
