(* ===== verification/Pipeline.thy ===== *)
theory Pipeline
  imports JsonText HttpTransport Handle "HOL-Library.Multiset"
begin

text \<open>
  The parts at work together: application goroutines run SDK operations (\<open>tracer.go\<close>) and log
  (\<open>logs.go\<close>), each \<open>Send\<close> or \<open>SendLogs\<close> is a call into \<open>HTTPTransport.enqueue\<close>, and the worker posts what
  entered the queue (\<open>transport.go\<close>).  The composition interleaves the steps of the three models at will; a
  call that was made and has not reached the mutex yet waits in \<open>pl_calls\<close>.
\<close>

section \<open>The composed system\<close>

type_synonym payload = "trace_request + logs_request"

type_synonym batch = "payload outbound_batch"

record pipeline =
  pl_sdk :: sdk
  pl_logged :: "(iface \<times> logs_request) list"
  pl_calls :: "batch list"
  pl_http :: "batch xstate"

text \<open>
  What is fixed: which identity is the HTTP transport's, the ingest URL, its key, timeout and capacity, and
  what \<open>post\<close> answers.
\<close>

record site =
  st_here :: iface
  st_url :: string
  st_key :: string
  st_timeout :: int64
  st_capacity :: int
  st_posted :: "batch \<Rightarrow> bool"

definition trace_calls :: "site \<Rightarrow> (iface \<times> trace_request) list \<Rightarrow> batch list" where
  "trace_calls e xs = map (\<lambda>(_, p). http_send (st_url e) (Inl p)) (filter (\<lambda>(t, _). t = st_here e) xs)"

definition log_calls :: "site \<Rightarrow> (iface \<times> logs_request) list \<Rightarrow> batch list" where
  "log_calls e xs = map (\<lambda>(_, p). http_send_logs (st_url e) (Inr p)) (filter (\<lambda>(t, _). t = st_here e) xs)"

lemma calls_append [simp]:
  "trace_calls e (xs @ ys) = trace_calls e xs @ trace_calls e ys"
  "log_calls e (us @ vs) = log_calls e us @ log_calls e vs"
  "trace_calls e [] = []" "log_calls e [] = []"
  by (simp_all add: trace_calls_def log_calls_def)

text \<open>Where a goroutine holds a batch of its own inside \<open>enqueue\<close>.\<close>

fun pc_batch :: "'b pc \<Rightarrow> 'b list" where
  "pc_batch (EnqHeld b) = [b]"
| "pc_batch (EnqPend b) = [b]"
| "pc_batch _ = []"

text \<open>
  The steps: an SDK operation, with the \<open>Send\<close> of a finished request; a log record captured by any handler
  for any context; a call reaching \<open>enqueue\<close>; any other step of the transport.
\<close>

inductive pipe_step :: "site \<Rightarrow> pipeline \<Rightarrow> pipeline \<Rightarrow> bool" for e where
  pp_sdk:
    "perform a (pl_sdk s) = Some k \<Longrightarrow> w_sent (sdk_world k) = w_sent (sdk_world (pl_sdk s)) @ new \<Longrightarrow>
     pipe_step e s (s\<lparr>pl_sdk := k, pl_calls := pl_calls s @ trace_calls e new\<rparr>)"
| pp_log:
    "capture_safely vf (h :: iface slog_handler) c r (sdk_world (pl_sdk s)) = (Some (t, p), w) \<Longrightarrow>
     pipe_step e s
       (s\<lparr>pl_sdk := (pl_sdk s)\<lparr>sdk_world := w\<rparr>, pl_logged := pl_logged s @ [(t, p)],
          pl_calls := pl_calls s @ log_calls e [(t, p)]\<rparr>)"
| pp_call:
    "pl_calls s = before_it @ b # after_it \<Longrightarrow> xs_pc (pl_http s) i = Idle \<Longrightarrow> xs_mutex (pl_http s) = None \<Longrightarrow>
     pipe_step e s
       (s\<lparr>pl_calls := before_it @ after_it, pl_http := goto i (EnqHeld b) ((pl_http s)\<lparr>xs_mutex := Some i\<rparr>)\<rparr>)"
| pp_http:
    "http_step (st_key e) (st_timeout e) (st_capacity e) (st_posted e) (pl_http s) t \<Longrightarrow>
     (\<forall>i b. xs_pc t i = EnqHeld b \<longrightarrow> xs_pc (pl_http s) i = EnqHeld b) \<Longrightarrow>
     pipe_step e s (s\<lparr>pl_http := t\<rparr>)"

definition pipe_start :: "site \<Rightarrow> pipeline \<Rightarrow> bool" where
  "pipe_start e s \<longleftrightarrow>
     (\<exists>rng clock. pl_sdk s = fresh_sdk rng clock) \<and> pl_logged s = [] \<and> pl_calls s = [] \<and> pl_http s = xstart
     \<and> roomy (new_http_transport (st_key e) (st_timeout e) (st_capacity e) :: batch xconfig)"

definition pipe_reach :: "site \<Rightarrow> pipeline \<Rightarrow> bool" where
  "pipe_reach e = reachable (pipe_start e) (pipe_step e)"


text \<open>The site \<open>Init\<close> sets up when the configuration names no other transport.\<close>

definition site_of :: "(transport \<Rightarrow> iface) \<Rightarrow> (batch \<Rightarrow> bool) \<Rightarrow> transport \<Rightarrow> site option" where
  "site_of ref posted t =
     (case t of
        THttp url key timeout \<Rightarrow>
          Some \<lparr>st_here = ref t, st_url = url, st_key = key, st_timeout = timeout, st_capacity = 64, st_posted = posted\<rparr>
      | _ \<Rightarrow> None)"

abbreviation http_config :: "site \<Rightarrow> batch xconfig" where
  "http_config e \<equiv> new_http_transport (st_key e) (st_timeout e) (st_capacity e)"

lemma init_site:
  assumes "site_of ref posted (transport_from_config c) = Some e"
  shows "http_config e = public_http_transport (cf_key c) (duration_of_ms (cf_timeout_ms c))"
    and "st_url e = cf_ingest_url c" and "st_here e = ref (transport_from_config c)" and "st_posted e = posted"
    and "\<exists>s. pipe_start e s"
proof -
  have cap: "st_capacity e = 64" using assms by (auto simp: site_of_def split: transport.splits)
  show cfg: "http_config e = public_http_transport (cf_key c) (duration_of_ms (cf_timeout_ms c))"
    and "st_url e = cf_ingest_url c" and "st_here e = ref (transport_from_config c)" and "st_posted e = posted"
    using assms by (auto simp: site_of_def transport_from_config_def public_http_transport_def Let_def
        split: option.splits if_splits)
  show "\<exists>s. pipe_start e s"
    by (rule exI [of _ "\<lparr>pl_sdk = fresh_sdk (\<lambda>_. CHR 0x01) (\<lambda>_. 0), pl_logged = [], pl_calls = [], pl_http = xstart\<rparr>"])
      (auto simp: pipe_start_def cap new_http_transport_def default_capacity_def roomy_def max_int64_def)
qed

section \<open>Each part runs as it does alone\<close>

lemma perform_extends:
  assumes "perform a s = Some k" and "sdk_ok s"
  shows "\<exists>new. w_sent (sdk_world k) = w_sent (sdk_world s) @ new"
proof -
  have child: "w_sent w' = w_sent w" if "child_added c r w w'" for c r w w'
    using that by (auto simp: child_added_def same_record_def split: option.splits)
  have same: "w_sent w' = w_sent w" if "same_record w w'" for w w' :: world
    using that by (simp add: same_record_def)
  show ?thesis
  proof (cases a)
    case (OpenChild c name cat kind sid)
    then show ?thesis
      using assms known_id_valid [OF assms(2), of sid] start_child_span_shape [of c name cat kind sid "sdk_world s"]
      by (auto simp: sdk_ok_def split: if_splits dest!: child)
  next
    case (RecordChild c name x y sid ops)
    then show ?thesis
      using assms known_id_valid [OF assms(2), of sid] add_child_span_with_id_shape [of c name x y sid ops "sdk_world s"]
      by (auto simp: sdk_ok_def split: if_splits dest!: child)
  next
    case (Finish c)
    then show ?thesis
      using assms(1) by (auto simp: finish_def Let_def split_beta split: option.splits)
  qed (use assms(1) in \<open>auto simp: update_span_def increment_db_query_count_def split: span_ref.splits option.splits
      dest!: start_root_shape outbound_context_keeps same\<close>)
qed

lemma capture_same_record:
  "capture_safely vf h c r w = (sent, w') \<Longrightarrow> same_record w w'"
  by (auto simp: capture_safely_def log_record_of_def Let_def split_beta split: option.splits if_splits)

lemma capture_keeps_sdk:
  "capture_safely vf h c r (sdk_world k) = (sent, w) \<Longrightarrow> sdk_ok k \<Longrightarrow> sdk_ok (k\<lparr>sdk_world := w\<rparr>)"
  by (auto simp: sdk_ok_def same_record_ok dest: capture_same_record)

text \<open>A call that reaches \<open>enqueue\<close> is the transport's own first step.\<close>

lemma call_is_http_step:
  "xs_pc t i = Idle \<Longrightarrow> xs_mutex t = None \<Longrightarrow>
   http_step key timeout cap posted t (goto i (EnqHeld b) (t\<lparr>xs_mutex := Some i\<rparr>))"
  by (rule hx_enqueue, rule enq_lock)

lemma pipe_http:
  assumes "pipe_reach e s"
  shows "http_reach (st_key e) (st_timeout e) (st_capacity e) (st_posted e) (pl_http s)"
  using assms unfolding pipe_reach_def http_reach_def
proof (induction rule: reachable.induct)
  case (reach_start s)
  then show ?case by (intro reachable.reach_start) (simp add: pipe_start_def)
next
  case (reach_step s t)
  from reach_step(2) reach_step(3) show ?case
    by cases (auto intro: reachable.reach_step call_is_http_step)
qed

section \<open>Where a batch can be\<close>

definition held :: "'b xstate \<Rightarrow> 'b list" where
  "held s = (case xs_mutex s of None \<Rightarrow> [] | Some i \<Rightarrow> pc_batch (xs_pc s i))"

lemma pc_batch_holder: "\<not> holds_mutex p \<Longrightarrow> pc_batch p = []"
  by (cases p) auto

text \<open>
  A step moves batches forward: out of the hands of the goroutine in \<open>enqueue\<close> into the channel, or away;
  what goes away is counted, by the time the goroutine lets go of the mutex.
\<close>

definition passes_on :: "'b xstate \<Rightarrow> 'b xstate \<Rightarrow> 'b multiset \<Rightarrow> bool" where
  "passes_on s t gone \<longleftrightarrow>
     mset (held s) + mset (xs_entered s) = mset (held t) + mset (xs_entered t) + gone
     \<and> (\<forall>n. xs_dropped s = wrap64 (n - mid_enqueue (\<lambda>p. p = EnqFull) s)
          \<longrightarrow> xs_dropped t = wrap64 (n + int (size gone) - mid_enqueue (\<lambda>p. p = EnqFull) t))"

lemma passes_on_quiet:
  assumes "quiet i s t" and "queue_inv cfg s" and "xs_dropped t = xs_dropped s"
  shows "passes_on s t {#}"
proof -
  have "held t = held s"
    using assms(1) mutex_holder [OF assms(2), of i]
    by (auto simp: quiet_def held_def pc_batch_holder split: option.splits)
  then show ?thesis
    using assms quiet_mid_enqueue [OF assms(1,2), of "\<lambda>p. p = EnqFull"] by (simp add: passes_on_def quiet_def)
qed

lemma passes_on_enqueue:
  assumes "enqueue_step cfg i s t" and "queue_inv cfg s"
    and "\<forall>j b. xs_pc t j = EnqHeld b \<longrightarrow> xs_pc s j = EnqHeld b"
  shows "\<exists>gone. passes_on s t gone"
proof -
  note mutex = mutex_holder [OF assms(2), of i]
  from assms(1) show ?thesis
  proof cases
    case (enq_lock b)
    then show ?thesis using assms(3) by simp
  next
    case (enq_refused b)
    then have "passes_on s t {#b#}" using mutex by (simp add: passes_on_def held_def mid_enqueue_def wrap64_add)
    then show ?thesis ..
  next
    case (enq_pending b)
    then have "passes_on s t {#}" using mutex by (simp add: passes_on_def held_def mid_enqueue_def)
    then show ?thesis ..
  next
    case (enq_send b)
    then have "passes_on s t {#}" using mutex by (simp add: passes_on_def held_def mid_enqueue_def)
    then show ?thesis ..
  next
    case (enq_full b)
    then have "passes_on s t {#b#}" using mutex by (simp add: passes_on_def held_def mid_enqueue_def)
    then show ?thesis ..
  next
    case enq_accepted
    then have "passes_on s t {#}" using mutex by (simp add: passes_on_def held_def mid_enqueue_def)
    then show ?thesis ..
  next
    case enq_dropped
    then have "passes_on s t {#}" using mutex by (simp add: passes_on_def held_def mid_enqueue_def wrap64_add)
    then show ?thesis ..
  qed
qed

lemma passes_on_http:
  assumes "http_step key timeout cap posted s t" and "queue_inv cfg s"
    and "cfg = new_http_transport key timeout cap"
    and "\<forall>j b. xs_pc t j = EnqHeld b \<longrightarrow> xs_pc s j = EnqHeld b"
  shows "\<exists>gone. passes_on s t gone"
  using assms(1)
proof cases
  case (hx_enqueue i)
  then show ?thesis using passes_on_enqueue assms(2-4) by blast
next
  case (hx_flush i)
  then have "quiet i s t \<and> xs_dropped t = xs_dropped s" by cases (auto simp: quiet_def)
  then show ?thesis using passes_on_quiet assms(2) by blast
next
  case (hx_shutdown i)
  then have "quiet i s t \<and> xs_dropped t = xs_dropped s" by cases (auto simp: quiet_def)
  then show ?thesis using passes_on_quiet assms(2) by blast
next
  case hx_worker
  then have "passes_on s t {#}"
    by cases (auto simp: passes_on_def held_def mid_enqueue_def split: option.splits)
  then show ?thesis ..
qed


section \<open>The invariant of the whole\<close>

definition handed :: "site \<Rightarrow> pipeline \<Rightarrow> batch list" where
  "handed e s = trace_calls e (w_sent (sdk_world (pl_sdk s))) @ log_calls e (pl_logged s)"

definition accounted :: "site \<Rightarrow> pipeline \<Rightarrow> batch multiset \<Rightarrow> bool" where
  "accounted e s lost \<longleftrightarrow>
     mset (handed e s) = mset (pl_calls s) + (mset (held (pl_http s)) + mset (xs_entered (pl_http s))) + lost
     \<and> xs_dropped (pl_http s) = wrap64 (int (size lost) - mid_enqueue (\<lambda>p. p = EnqFull) (pl_http s))"

definition log_batch_ok :: "logs_request \<Rightarrow> bool" where
  "log_batch_ok p \<longleftrightarrow>
     (\<exists>d. request_records p = [d] \<and> (\<exists>body. lr_body d = string_value body \<and> length body \<le> max_log_body_bytes)
        \<and> length (lr_attributes d) \<le> max_log_attributes \<and> list_all log_attr_ok (lr_attributes d) \<and> log_ids_ok d)"

definition pipe_inv :: "site \<Rightarrow> pipeline \<Rightarrow> bool" where
  "pipe_inv e s \<longleftrightarrow>
     sdk_ok (pl_sdk s) \<and> list_all (\<lambda>(_, p). log_batch_ok p) (pl_logged s)
     \<and> xreach (http_config e) (pl_http s) \<and> (\<exists>lost. accounted e s lost)"

lemma capture_batch_ok: "capture_safely vf h c r w = (Some (t, p), w') \<Longrightarrow> log_batch_ok p"
  using capture_shape unfolding log_batch_ok_def by blast

lemma accounted_http:
  assumes "accounted e s lost" and "passes_on (pl_http s) t gone"
  shows "accounted e (s\<lparr>pl_http := t\<rparr>) (lost + gone)"
  using assms by (auto simp: accounted_def passes_on_def handed_def ac_simps)

lemma pipe_inv_step:
  assumes "pipe_step e s s'" and "pipe_inv e s"
  shows "pipe_inv e s'"
proof -
  obtain lost where acc: "accounted e s lost" and ok: "sdk_ok (pl_sdk s)" and x: "xreach (http_config e) (pl_http s)"
    using assms(2) by (auto simp: pipe_inv_def)
  have q: "queue_inv (http_config e) (pl_http s)" using xreach_inv [OF x] by blast
  from assms(1) show ?thesis
  proof cases
    case (pp_sdk a k new)
    then have "accounted e s' lost" using acc by (simp add: accounted_def handed_def ac_simps)
    then show ?thesis using assms(2) perform_keeps [OF ok] pp_sdk by (auto simp: pipe_inv_def)
  next
    case (pp_log vf h c r t p w)
    have "w_sent w = w_sent (sdk_world (pl_sdk s))"
      using capture_same_record [OF pp_log(2)] by (simp add: same_record_def)
    then have "accounted e s' lost" using acc pp_log by (simp add: accounted_def handed_def ac_simps)
    then show ?thesis
      using assms(2) capture_keeps_sdk [OF pp_log(2) ok] capture_batch_ok [OF pp_log(2)] pp_log(1)
      by (auto simp: pipe_inv_def)
  next
    case (pp_call before_it b after_it i)
    have "xreach (http_config e) (pl_http s')"
      using xreach_steps [OF http_step_shared [OF call_is_http_step [OF pp_call(3,4)]] x] pp_call(1) by simp
    moreover have "accounted e s' lost"
      using acc pp_call by (simp add: accounted_def handed_def held_def mid_enqueue_def ac_simps)
    ultimately show ?thesis using assms(2) pp_call(1) by (auto simp: pipe_inv_def)
  next
    case (pp_http t)
    obtain gone where "passes_on (pl_http s) t gone"
      using passes_on_http [OF pp_http(2) q refl pp_http(3)] by blast
    then have "accounted e s' (lost + gone)" using accounted_http [OF acc] pp_http(1) by simp
    moreover have "xreach (http_config e) t" using xreach_steps [OF http_step_shared [OF pp_http(2)] x] .
    ultimately show ?thesis using assms(2) pp_http(1) by (auto simp: pipe_inv_def)
  qed
qed

interpretation pipe_system: step_system "pipe_start e" "pipe_step e" "pipe_inv e" for e
proof unfold_locales
  fix s assume "pipe_start e s"
  then obtain rng clock where s: "pl_sdk s = fresh_sdk rng clock" "pl_logged s = []" "pl_calls s = []"
      "pl_http s = xstart" "roomy (http_config e)"
    by (auto simp: pipe_start_def)
  then have "accounted e s {#}"
    by (simp add: accounted_def handed_def fresh_sdk_def xstart_def held_def mid_enqueue_def wrap64_def)
  then show "pipe_inv e s" using s xreach_start [OF s(5)] by (auto simp: pipe_inv_def)
qed (rule pipe_inv_step)

lemma pipe_reach_inv: "pipe_reach e s \<Longrightarrow> pipe_inv e s"
  unfolding pipe_reach_def by (rule pipe_system.inv_reachable)

lemma exported_was_handed:
  assumes "pipe_reach e s" and "(b, ok) \<in> set (xs_exported (pl_http s))"
  shows "(\<exists>p. (st_here e, p) \<in> set (w_sent (sdk_world (pl_sdk s))) \<and> b = http_send (st_url e) (Inl p) \<and> batch_ok p)
    \<or> (\<exists>p. (st_here e, p) \<in> set (pl_logged s) \<and> b = http_send_logs (st_url e) (Inr p) \<and> log_batch_ok p)"
proof -
  note inv = pipe_reach_inv [OF assms(1)]
  then obtain lost where acc: "accounted e s lost" by (auto simp: pipe_inv_def)
  have "queue_inv (http_config e) (pl_http s)" using inv xreach_inv by (auto simp: pipe_inv_def)
  then have "xs_entered (pl_http s) = map fst (xs_exported (pl_http s)) @ in_hand (xs_worker (pl_http s)) @ xs_queue (pl_http s)"
    by (simp add: queue_inv_def)
  then have "b \<in> set (xs_entered (pl_http s))" using assms(2) by force
  then have "b \<in># mset (handed e s)" using acc by (simp add: accounted_def)
  then have "b \<in> set (trace_calls e (w_sent (sdk_world (pl_sdk s)))) \<or> b \<in> set (log_calls e (pl_logged s))"
    by (simp add: handed_def)
  then show ?thesis
    using inv by (auto simp: trace_calls_def log_calls_def pipe_inv_def sdk_ok_def world_ok_def list_all_iff)
qed

section \<open>A batch on its way, for the witnesses\<close>

text \<open>The transport's own steps, those that take no new call.\<close>

definition own_step :: "site \<Rightarrow> batch xstate \<Rightarrow> batch xstate \<Rightarrow> bool" where
  "own_step e h h' \<longleftrightarrow>
     http_step (st_key e) (st_timeout e) (st_capacity e) (st_posted e) h h'
     \<and> (\<forall>i b. xs_pc h' i = EnqHeld b \<longrightarrow> xs_pc h i = EnqHeld b)"

lemma own_steps_reach:
  assumes "(own_step e)\<^sup>*\<^sup>* (pl_http s) h" and "pipe_reach e s"
  shows "pipe_reach e (s\<lparr>pl_http := h\<rparr>)"
  using assms
proof (induction rule: rtranclp_induct)
  case (step h h')
  then have "pipe_step e (s\<lparr>pl_http := h\<rparr>) (s\<lparr>pl_http := h\<rparr>\<lparr>pl_http := h'\<rparr>)"
    by (intro pp_http) (auto simp: own_step_def)
  with step show ?case by (auto simp: pipe_reach_def intro: reachable.reach_step)
qed simp

definition waiting :: "'b list \<Rightarrow> 'b xstate \<Rightarrow> bool" where
  "waiting bs h \<longleftrightarrow>
     xs_pc h = (\<lambda>_. Idle) \<and> xs_mutex h = None \<and> xs_worker h = WIdle \<and> xs_queue h = bs
     \<and> xs_pending h = int (length bs) \<and> \<not> xs_closed h"

lemma own_enqueue:
  "enqueue_step (http_config e) i h h' \<Longrightarrow> (\<forall>i b. xs_pc h' i = EnqHeld b \<longrightarrow> xs_pc h i = EnqHeld b) \<Longrightarrow> own_step e h h'"
  by (simp add: own_step_def hx_enqueue)

lemma own_worker: "http_worker_step (st_posted e) h h' \<Longrightarrow> xs_pc h' = xs_pc h \<Longrightarrow> own_step e h h'"
  by (simp add: own_step_def hx_worker)

lemma own_shutdown:
  "http_shutdown_step i h h' \<Longrightarrow> (\<forall>i b. xs_pc h' i = EnqHeld b \<longrightarrow> xs_pc h i = EnqHeld b) \<Longrightarrow> own_step e h h'"
  by (simp add: own_step_def hx_shutdown)

lemmas next_step = converse_rtranclp_into_rtranclp [of "own_step e" for e]

lemma enqueue_one:
  assumes "waiting [] h" and "http_accepts (st_key e) b"
  shows "\<exists>h'. (own_step e)\<^sup>*\<^sup>* (goto i (EnqHeld b) (h\<lparr>xs_mutex := Some i\<rparr>)) h' \<and> waiting [b] h'
    \<and> xs_exported h' = xs_exported h \<and> xs_dropped h' = xs_dropped h"
proof -
  have acc: "xc_accepts (http_config e) b" "0 < xc_capacity (http_config e)"
    using assms(2) by (simp_all add: new_http_transport_def default_capacity_def)
  define h0 where "h0 = goto i (EnqHeld b) (h\<lparr>xs_mutex := Some i\<rparr>)"
  define h1 where "h1 = goto i (EnqPend b) (h0\<lparr>xs_pending := add64 (xs_pending h0) 1\<rparr>)"
  define h2 where "h2 = goto i EnqSent (h1\<lparr>xs_queue := xs_queue h1 @ [b], xs_entered := xs_entered h1 @ [b]\<rparr>)"
  define h3 where "h3 = goto i Idle (h2\<lparr>xs_accepted := add64 (xs_accepted h2) 1, xs_mutex := None\<rparr>)"
  have f: "xs_pc h = (\<lambda>_. Idle)" "xs_queue h = []" "xs_worker h = WIdle" "xs_pending h = 0" "\<not> xs_closed h"
    using assms(1) by (simp_all add: waiting_def)
  have s1: "own_step e h0 h1" unfolding h1_def
    by (rule own_enqueue, rule enq_pending) (use f acc in \<open>auto simp: h0_def\<close>)
  have s2: "own_step e h1 h2" unfolding h2_def
    by (rule own_enqueue, rule enq_send) (use f acc in \<open>auto simp: h0_def h1_def\<close>)
  have s3: "own_step e h2 h3" unfolding h3_def
    by (rule own_enqueue, rule enq_accepted) (use f in \<open>auto simp: h0_def h1_def h2_def\<close>)
  have "xs_pc h3 = (\<lambda>_. Idle)" by (simp add: f(1) h0_def h1_def h2_def h3_def fun_eq_iff)
  then have "waiting [b] h3" "xs_exported h3 = xs_exported h" "xs_dropped h3 = xs_dropped h"
    using f(2-5) by (simp_all add: waiting_def h0_def h1_def h2_def h3_def add64_def wrap64_def)
  then show ?thesis
    using next_step [OF s1 next_step [OF s2 r_into_rtranclp [of "own_step e", OF s3]]] unfolding h0_def by blast
qed

lemma export_one:
  assumes "waiting [b] h"
  shows "\<exists>h'. (own_step e)\<^sup>*\<^sup>* h h' \<and> waiting [] h'
    \<and> xs_exported h' = xs_exported h @ [(b, st_posted e b)] \<and> xs_dropped h' = xs_dropped h"
proof -
  define h4 where "h4 = h\<lparr>xs_queue := [], xs_worker := WBusy b, xs_in_flight := 1\<rparr>"
  define h5 where "h5 = (if st_posted e b then h4\<lparr>xs_delivered := add64 (xs_delivered h4) 1\<rparr>
         else h4\<lparr>xs_failed := add64 (xs_failed h4) 1\<rparr>)
        \<lparr>xs_worker := WCounted, xs_exported := xs_exported h4 @ [(b, st_posted e b)]\<rparr>"
  define h6 where "h6 = h5\<lparr>xs_in_flight := 0, xs_worker := WCleared\<rparr>"
  define h7 where "h7 = h6\<lparr>xs_pending := add64 (xs_pending h6) (- 1), xs_worker := WIdle\<rparr>"
  have s4: "own_step e h h4" unfolding h4_def
    by (rule own_worker, rule hw_take) (use assms in \<open>simp_all add: waiting_def\<close>)
  have s5: "own_step e h4 h5" unfolding h5_def
    by (rule own_worker, rule hw_posted) (simp_all add: h4_def)
  have s6: "own_step e h5 h6" unfolding h6_def
    by (rule own_worker, rule hw_cleared) (simp_all add: h5_def)
  have s7: "own_step e h6 h7" unfolding h7_def
    by (rule own_worker, rule hw_release) (simp_all add: h6_def)
  have "waiting [] h7" "xs_exported h7 = xs_exported h @ [(b, st_posted e b)]" "xs_dropped h7 = xs_dropped h"
    using assms by (simp_all add: waiting_def h4_def h5_def h6_def h7_def add64_def wrap64_def)
  then show ?thesis
    using next_step [OF s4 next_step [OF s5 next_step [OF s6 r_into_rtranclp [of "own_step e", OF s7]]]] by blast
qed

lemma shutdown_one:
  assumes "waiting [] h"
  shows "\<exists>h'. (own_step e)\<^sup>*\<^sup>* h h' \<and> xs_pc h' i = SdRet True \<and> xs_mutex h' = None
    \<and> xs_exported h' = xs_exported h \<and> xs_dropped h' = xs_dropped h"
proof -
  define h1 where "h1 = goto i SdEnter h"
  define h2 where "h2 = goto i SdWait (h1\<lparr>xs_closed := True\<rparr>)"
  define h3 where "h3 = goto i SdStop h2"
  define h4 where "h4 = goto i SdAwait (h3\<lparr>xs_done := True\<rparr>)"
  define h5 where "h5 = h4\<lparr>xs_stopped := True, xs_worker := WStopped\<rparr>"
  define h6 where "h6 = goto i (SdRet True) h5"
  have f: "xs_pc h = (\<lambda>_. Idle)" "xs_mutex h = None" "xs_worker h = WIdle" "xs_pending h = 0"
    using assms by (simp_all add: waiting_def)
  have s1: "own_step e h h1" unfolding h1_def
    by (rule own_shutdown, rule hs_call) (simp_all add: f)
  have s2: "own_step e h1 h2" unfolding h2_def
    by (rule own_shutdown, rule hs_close) (simp_all add: f h1_def)
  have s3: "own_step e h2 h3" unfolding h3_def
    by (rule own_shutdown, rule hs_drained) (simp_all add: f h1_def h2_def)
  have s4: "own_step e h3 h4" unfolding h4_def
    by (rule own_shutdown, rule hs_stop) (simp_all add: f h1_def h2_def h3_def)
  have s5: "own_step e h4 h5" unfolding h5_def
    by (rule own_worker, rule hw_stop) (simp_all add: f h1_def h2_def h3_def h4_def)
  have s6: "own_step e h5 h6" unfolding h6_def
    by (rule own_shutdown, rule hs_stopped) (simp_all add: f h1_def h2_def h3_def h4_def h5_def)
  have "xs_pc h6 i = SdRet True" "xs_mutex h6 = None" "xs_exported h6 = xs_exported h" "xs_dropped h6 = xs_dropped h"
    using f by (simp_all add: h1_def h2_def h3_def h4_def h5_def h6_def)
  then show ?thesis
    using next_step [OF s1 next_step [OF s2 next_step [OF s3 next_step [OF s4 next_step [OF s5
        r_into_rtranclp [of "own_step e", OF s6]]]]]] by blast
qed

text \<open>The demonstration: the batch of the finished request goes through enqueue and the worker.\<close>

definition payload_json :: "payload \<Rightarrow> json option" where
  "payload_json p = (case p of Inl t \<Rightarrow> trace_json t | Inr l \<Rightarrow> logs_json l)"

definition demo_site :: site where
  "demo_site = \<lparr>st_here = 7, st_url = ''http://i/'', st_key = ''k'', st_timeout = 0, st_capacity = 0,
     st_posted = post (gzip_json payload_json (\<lambda>_. ''0'') Got) (\<lambda>_. True) (\<lambda>_. Got 200) ''k''\<rparr>"

lemma run_in_pipe:
  assumes "run acts (pl_sdk s) = Some k" and "sdk_ok (pl_sdk s)" and "pipe_reach e s"
  shows "\<exists>new. w_sent (sdk_world k) = w_sent (sdk_world (pl_sdk s)) @ new
    \<and> pipe_reach e (s\<lparr>pl_sdk := k, pl_calls := pl_calls s @ trace_calls e new\<rparr>)"
  using assms
proof (induction acts arbitrary: s)
  case Nil
  then have same: "s\<lparr>pl_sdk := k, pl_calls := pl_calls s @ trace_calls e []\<rparr> = s" by (cases s) simp
  have "pipe_reach e (s\<lparr>pl_sdk := k, pl_calls := pl_calls s @ trace_calls e []\<rparr>)" unfolding same by (rule Nil.prems(3))
  then show ?case using Nil.prems(1) by (intro exI [of _ "[]"]) auto
next
  case (Cons a acts)
  obtain m where m: "perform a (pl_sdk s) = Some m" "run acts m = Some k"
    using Cons.prems(1) by (auto simp: bind_eq_Some_conv)
  obtain new where new: "w_sent (sdk_world m) = w_sent (sdk_world (pl_sdk s)) @ new"
    using perform_extends [OF m(1) Cons.prems(2)] by blast
  let ?s = "s\<lparr>pl_sdk := m, pl_calls := pl_calls s @ trace_calls e new\<rparr>"
  have r: "pipe_reach e ?s"
    using Cons.prems(3) pp_sdk [OF m(1) new] by (auto simp: pipe_reach_def intro: reachable.reach_step)
  have "run acts (pl_sdk ?s) = Some k" "sdk_ok (pl_sdk ?s)"
    using m perform_keeps [OF Cons.prems(2) m(1)] by simp_all
  from Cons.IH [OF this r] obtain more' where "w_sent (sdk_world k) = w_sent (sdk_world m) @ more'"
    "pipe_reach e (?s\<lparr>pl_sdk := k, pl_calls := pl_calls ?s @ trace_calls e more'\<rparr>)" by auto
  then show ?case using new by (intro exI [of _ "new @ more'"]) simp
qed


abbreviation demo_posted :: "trace_request \<Rightarrow> batch" where
  "demo_posted p \<equiv> http_send ''http://i/'' (Inl p)"

lemma demo_handed:
  "\<exists>k p. pipe_reach demo_site \<lparr>pl_sdk = k, pl_logged = [], pl_calls = [demo_posted p], pl_http = xstart\<rparr>
     \<and> w_sent (sdk_world k) = [(7, p)] \<and> map_option (floats_ok (\<lambda>_. ''0'')) (trace_json p) = Some True"
proof -
  let ?start = "\<lparr>pl_sdk = fresh_sdk demo_rng demo_clock, pl_logged = [], pl_calls = [], pl_http = xstart\<rparr>"
  have "map_option (\<lambda>s. map (\<lambda>(t, p). (t, map_option (floats_ok (\<lambda>_. ''0'')) (trace_json p))) (w_sent (sdk_world s)))
      (run (demo_acts @ [Finish demo_ctx]) (fresh_sdk demo_rng demo_clock)) = Some [(7, Some True)]"
    by code_simp
  then obtain k p where k: "run (demo_acts @ [Finish demo_ctx]) (fresh_sdk demo_rng demo_clock) = Some k"
      and p: "w_sent (sdk_world k) = [(7, p)]" "map_option (floats_ok (\<lambda>_. ''0'')) (trace_json p) = Some True"
    by (fastforce simp: map_eq_Cons_conv)
  have "pipe_start demo_site ?start"
    by (auto simp: pipe_start_def demo_site_def roomy_def new_http_transport_def default_capacity_def max_int64_def)
  then have "pipe_reach demo_site ?start" unfolding pipe_reach_def by (rule reachable.reach_start)
  then obtain new where "w_sent (sdk_world k) = new"
      "pipe_reach demo_site (?start\<lparr>pl_sdk := k, pl_calls := trace_calls demo_site new\<rparr>)"
    using run_in_pipe [of "demo_acts @ [Finish demo_ctx]" ?start k demo_site] k fresh_sdk_ok [of demo_rng demo_clock]
    by (auto simp: fresh_sdk_def)
  moreover have "trace_calls demo_site [(7, p)] = [demo_posted p]" by (simp add: trace_calls_def demo_site_def)
  ultimately have "pipe_reach demo_site (?start\<lparr>pl_sdk := k, pl_calls := [demo_posted p]\<rparr>)" using p(1) by simp
  with p show ?thesis by auto
qed

lemma demo_delivery:
  "\<exists>s p. pipe_reach demo_site s \<and> w_sent (sdk_world (pl_sdk s)) = [(7, p)] \<and> pl_logged s = [] \<and> pl_calls s = []
     \<and> waiting [] (pl_http s) \<and> xs_exported (pl_http s) = [(demo_posted p, True)]
     \<and> xs_dropped (pl_http s) = 0 \<and> map_option (floats_ok (\<lambda>_. ''0'')) (trace_json p) = Some True"
proof -
  obtain k p where r: "pipe_reach demo_site \<lparr>pl_sdk = k, pl_logged = [], pl_calls = [demo_posted p], pl_http = xstart\<rparr>"
      (is "pipe_reach _ ?s")
    and p: "w_sent (sdk_world k) = [(7, p)]" "map_option (floats_ok (\<lambda>_. ''0'')) (trace_json p) = Some True"
    using demo_handed by blast
  let ?h = "goto 0 (EnqHeld (demo_posted p)) (xstart\<lparr>xs_mutex := Some 0\<rparr>)"
  have "pipe_step demo_site ?s
      (?s\<lparr>pl_calls := [] @ [], pl_http := goto 0 (EnqHeld (demo_posted p)) ((pl_http ?s)\<lparr>xs_mutex := Some 0\<rparr>)\<rparr>)"
    by (rule pp_call) (simp_all add: xstart_def)
  then have r2: "pipe_reach demo_site (?s\<lparr>pl_calls := [], pl_http := ?h\<rparr>)"
    using r unfolding pipe_reach_def by (auto intro: reachable.reach_step)
  have w: "waiting [] (xstart :: batch xstate)" by (simp add: waiting_def xstart_def)
  have a: "http_accepts (st_key demo_site) (demo_posted p)"
    by (simp add: http_accepts_def http_send_def traces_url_def demo_site_def)
  obtain h' where h': "(own_step demo_site)\<^sup>*\<^sup>* ?h h'" "waiting [demo_posted p] h'" "xs_exported h' = []" "xs_dropped h' = 0"
    using enqueue_one [OF w a, of 0] by (auto simp: xstart_def)
  have posted: "st_posted demo_site (demo_posted p)"
    using p(2) by (auto simp: demo_site_def post_def gzip_json_def payload_json_def http_send_def map_option_eq_Some)
  obtain h2 where h2: "(own_step demo_site)\<^sup>*\<^sup>* h' h2" "waiting [] h2" "xs_exported h2 = [(demo_posted p, True)]" "xs_dropped h2 = 0"
    using export_one [OF h'(2), of demo_site] posted h'(3,4) by auto
  have "pipe_reach demo_site (?s\<lparr>pl_calls := [], pl_http := h2\<rparr>)"
    using own_steps_reach [of demo_site "?s\<lparr>pl_calls := [], pl_http := ?h\<rparr>" h2] r2 rtranclp_trans [OF h'(1) h2(1)] by simp
  then show ?thesis using h2 p by (intro exI conjI) auto
qed

section \<open>Properties\<close>

text \<open>
  C2: nothing is lost on the way without being counted, and nothing is invented or sent twice: at any moment of
  any interleaving, the batches that finished requests and captured log records handed to the transport are, one
  for one, those still in a caller's hands, those queued, the one at the worker, those exported, and those
  dropped; and the dropped counter is the number of the latter (one less while a goroutine is between finding the
  queue full and counting it).
\<close>
theorem pipeline_accounts:
  assumes "pipe_reach e s"
  shows "\<exists>lost. mset (trace_calls e (w_sent (sdk_world (pl_sdk s)))) + mset (log_calls e (pl_logged s))
       = mset (pl_calls s) + mset (held (pl_http s)) + mset (xs_queue (pl_http s))
         + mset (in_hand (xs_worker (pl_http s))) + mset (map fst (xs_exported (pl_http s))) + lost
     \<and> xs_dropped (pl_http s) = wrap64 (int (size lost) - mid_enqueue (\<lambda>p. p = EnqFull) (pl_http s))"
proof -
  obtain lost where acc: "accounted e s lost" and x: "xreach (http_config e) (pl_http s)"
    using pipe_reach_inv [OF assms] by (auto simp: pipe_inv_def)
  have "xs_entered (pl_http s) = map fst (xs_exported (pl_http s)) @ in_hand (xs_worker (pl_http s)) @ xs_queue (pl_http s)"
    using xreach_inv [OF x] by (simp add: queue_inv_def)
  then show ?thesis
    using acc by (intro exI [of _ lost]) (simp add: accounted_def handed_def ac_simps)
qed

lemma pipeline_accounts_witness:
  "\<exists>s p. pipe_reach demo_site s \<and> w_sent (sdk_world (pl_sdk s)) = [(7, p)]
     \<and> mset (trace_calls demo_site [(7, p)]) = mset (map fst (xs_exported (pl_http s)))"
proof -
  obtain s p where r: "pipe_reach demo_site s" and s: "w_sent (sdk_world (pl_sdk s)) = [(7, p)]" "pl_logged s = []"
      "pl_calls s = []" "waiting [] (pl_http s)" "xs_exported (pl_http s) = [(demo_posted p, True)]"
    using demo_delivery by blast
  from pipeline_accounts [OF r] s have "mset (trace_calls demo_site [(7, p)]) = mset (map fst (xs_exported (pl_http s)))"
    by (auto simp: trace_calls_def demo_site_def waiting_def held_def in_hand_def)
  with r s show ?thesis by blast
qed

lemma add64_wrap64: "add64 (wrap64 a) (wrap64 b) = wrap64 (a + b)"
  by (metis add64_def wrap64_add add.commute)

lemma shutdown_settles:
  assumes "pipe_reach e s" and "xs_pc (pl_http s) i = SdRet True"
  shows "xs_queue (pl_http s) = []" "in_hand (xs_worker (pl_http s)) = []"
    "xs_entered (pl_http s) = map fst (xs_exported (pl_http s))" "xs_mutex (pl_http s) = Some j \<Longrightarrow> \<exists>b. xs_pc (pl_http s) j = EnqHeld b"
proof -
  have inv: "queue_inv (http_config e) (pl_http s)" "count_inv (http_config e) (pl_http s)" "close_inv (pl_http s)"
    using pipe_reach_inv [OF assms(1)] xreach_inv by (auto simp: pipe_inv_def)
  then have "xs_stopped (pl_http s)" "xs_closed (pl_http s)" "xs_pending (pl_http s) = 0" "xs_worker (pl_http s) = WStopped"
    using assms(2) unfolding close_inv_def by (metis pc_knows.simps(11))+
  then show "xs_queue (pl_http s) = []" "in_hand (xs_worker (pl_http s)) = []"
      "xs_entered (pl_http s) = map fst (xs_exported (pl_http s))"
      "xs_mutex (pl_http s) = Some j \<Longrightarrow> \<exists>b. xs_pc (pl_http s) j = EnqHeld b"
    using drained [OF inv(1,2)] mutex_holder [OF inv(1), of j] mid_not_held [OF inv(1,3), of j]
    by (auto simp: in_hand_def)
qed







end
