(* ===== verification/Fairness.thy ===== *)
theory Fairness
  imports HttpTransport
begin

text \<open>
  Liveness of the queueing transports: what a run does in the end when the scheduler is fair.  A run is an
  infinite sequence of states, each a step of the protocol after the one before, or the same state again.  The
  worker goroutine and a goroutine inside \<open>enqueue\<close> are weakly fair (the Go scheduler starves neither); a
  shutdown waiting for the mutex is strongly fair (a Go mutex hands itself over to a waiter it has starved).
  Then every accepted batch is handed to the exporter, and a \<open>Shutdown\<close> given time enough reports success.
\<close>

section \<open>Runs and fairness\<close>

definition run_of :: "('s \<Rightarrow> bool) \<Rightarrow> ('s \<Rightarrow> 's \<Rightarrow> bool) \<Rightarrow> (nat \<Rightarrow> 's) \<Rightarrow> bool" where
  "run_of start step r \<longleftrightarrow> start (r 0) \<and> (\<forall>n. step (r n) (r (Suc n)) \<or> r (Suc n) = r n)"

definition enabled :: "('s \<Rightarrow> 's \<Rightarrow> bool) \<Rightarrow> 's \<Rightarrow> bool" where
  "enabled act s \<longleftrightarrow> (\<exists>t. act s t)"

definition taken :: "('s \<Rightarrow> 's \<Rightarrow> bool) \<Rightarrow> (nat \<Rightarrow> 's) \<Rightarrow> nat \<Rightarrow> bool" where
  "taken act r n \<longleftrightarrow> act (r n) (r (Suc n))"

text \<open>Weakly fair: not enabled for ever without being taken.  Strongly fair: not enabled again and again without.\<close>

definition weakly_fair :: "('s \<Rightarrow> 's \<Rightarrow> bool) \<Rightarrow> (nat \<Rightarrow> 's) \<Rightarrow> bool" where
  "weakly_fair act r \<longleftrightarrow> (\<forall>n. (\<forall>m\<ge>n. enabled act (r m)) \<longrightarrow> (\<exists>m\<ge>n. taken act r m))"

definition strongly_fair :: "('s \<Rightarrow> 's \<Rightarrow> bool) \<Rightarrow> (nat \<Rightarrow> 's) \<Rightarrow> bool" where
  "strongly_fair act r \<longleftrightarrow> (\<forall>n. (\<forall>m\<ge>n. \<exists>k\<ge>m. enabled act (r k)) \<longrightarrow> (\<exists>m\<ge>n. taken act r m))"

definition leads_to :: "(nat \<Rightarrow> 's) \<Rightarrow> ('s \<Rightarrow> bool) \<Rightarrow> ('s \<Rightarrow> bool) \<Rightarrow> bool" where
  "leads_to r P Q \<longleftrightarrow> (\<forall>n. P (r n) \<longrightarrow> (\<exists>m\<ge>n. Q (r m)))"

lemma leads_toD: "leads_to r P Q \<Longrightarrow> P (r n) \<Longrightarrow> \<exists>m\<ge>n. Q (r m)"
  by (simp add: leads_to_def)

lemma leads_to_trans: "leads_to r P Q \<Longrightarrow> leads_to r Q R \<Longrightarrow> leads_to r P R"
  unfolding leads_to_def by (meson order_trans)

lemma strong_weak: "strongly_fair act r \<Longrightarrow> weakly_fair act r"
  unfolding weakly_fair_def strongly_fair_def by (meson order_refl order_trans)

text \<open>What holds until something else does, holds for ever when that never comes.\<close>

lemma unless_stays:
  assumes unless: "\<And>k. n \<le> k \<Longrightarrow> P (r k) \<Longrightarrow> P (r (Suc k)) \<or> Q (r (Suc k))"
    and start: "P (r n)" and never: "\<And>k. n \<le> k \<Longrightarrow> \<not> Q (r k)" and "n \<le> m"
  shows "P (r m)"
  using assms(4)
proof (induction m rule: dec_induct)
  case (step k)
  then show ?case using unless [of k] never [of "Suc k"] by simp
qed (rule start)

lemma weak_ensures:
  assumes fair: "weakly_fair act r"
    and unless: "\<And>n. P (r n) \<Longrightarrow> P (r (Suc n)) \<or> Q (r (Suc n))"
    and able: "\<And>n. P (r n) \<Longrightarrow> Q (r n) \<or> enabled act (r n)"
    and acts: "\<And>n. P (r n) \<Longrightarrow> taken act r n \<Longrightarrow> Q (r (Suc n))"
  shows "leads_to r P Q"
  unfolding leads_to_def
proof (intro allI impI, rule ccontr)
  fix n assume p: "P (r n)" and "\<not> (\<exists>m\<ge>n. Q (r m))"
  then have never: "\<And>k. n \<le> k \<Longrightarrow> \<not> Q (r k)" by blast
  have stays: "P (r m)" if "n \<le> m" for m
    using unless_stays [of n P r Q m] unless p never that by blast
  then have "\<forall>m\<ge>n. enabled act (r m)" using able never by blast
  then obtain m where "n \<le> m" "taken act r m" using fair unfolding weakly_fair_def by blast
  then show False using acts [OF stays] never [of "Suc m"] by simp
qed

lemma strong_ensures:
  assumes fair: "strongly_fair act r"
    and unless: "\<And>n. P (r n) \<Longrightarrow> P (r (Suc n)) \<or> Q (r (Suc n))"
    and able: "\<And>n. P (r n) \<Longrightarrow> \<exists>m\<ge>n. Q (r m) \<or> enabled act (r m)"
    and acts: "\<And>n. P (r n) \<Longrightarrow> taken act r n \<Longrightarrow> Q (r (Suc n))"
  shows "leads_to r P Q"
  unfolding leads_to_def
proof (intro allI impI, rule ccontr)
  fix n assume p: "P (r n)" and "\<not> (\<exists>m\<ge>n. Q (r m))"
  then have never: "\<And>k. n \<le> k \<Longrightarrow> \<not> Q (r k)" by blast
  have stays: "P (r m)" if "n \<le> m" for m
    using unless_stays [of n P r Q m] unless p never that by blast
  have "\<forall>m\<ge>n. \<exists>k\<ge>m. enabled act (r k)"
    using able [OF stays] never by (meson order_trans)
  then obtain m where "n \<le> m" "taken act r m" using fair unfolding strongly_fair_def by blast
  then show False using acts [OF stays] never [of "Suc m"] by simp
qed

text \<open>A run in which an action is not enabled any more from some point on is fair to it.\<close>

lemma fair_at_rest:
  assumes "\<And>m. n \<le> m \<Longrightarrow> \<not> enabled act (r m)"
  shows "strongly_fair act r"
  unfolding strongly_fair_def by (metis assms nat_le_linear order_trans)

lemma run_reachable: "run_of start step r \<Longrightarrow> reachable start step (r n)"
proof (induction n)
  case (Suc n)
  then have "step (r n) (r (Suc n)) \<or> r (Suc n) = r n" by (simp add: run_of_def)
  with Suc show ?case by (metis reachable.reach_step)
qed (simp add: run_of_def reachable.reach_start)

section \<open>Progress by a measure\<close>

text \<open>
  While work is left, some action can be taken, taking it leaves less, and no other step adds any or ends
  the condition under which this holds.  Then a run that is weakly fair to the action gets the work done.
\<close>

locale fair_progress = step_system start step inv
  for start :: "'s \<Rightarrow> bool" and step :: "'s \<Rightarrow> 's \<Rightarrow> bool" and inv :: "'s \<Rightarrow> bool" +
  fixes act :: "'s \<Rightarrow> 's \<Rightarrow> bool" and cond :: "'s \<Rightarrow> bool" and left :: "'s \<Rightarrow> nat"
  assumes left_able: "inv s \<Longrightarrow> cond s \<Longrightarrow> left s \<noteq> 0 \<Longrightarrow> enabled act s"
    and left_less: "inv s \<Longrightarrow> cond s \<Longrightarrow> left s \<noteq> 0 \<Longrightarrow> act s t \<Longrightarrow> left t < left s"
    and left_keeps: "inv s \<Longrightarrow> cond s \<Longrightarrow> left s \<noteq> 0 \<Longrightarrow> step s t \<Longrightarrow> left t \<le> left s \<and> cond t"
begin

lemma run_inv: "run_of start step r \<Longrightarrow> inv (r n)"
  by (blast intro: inv_reachable run_reachable)

lemma measure_keeps:
  assumes "run_of start step r" and "cond (r n)" and "left (r n) \<noteq> 0"
  shows "left (r (Suc n)) \<le> left (r n) \<and> cond (r (Suc n))"
  using assms left_keeps [OF run_inv [OF assms(1)] assms(2,3)] unfolding run_of_def by (metis order_refl)

lemma run_lessens:
  assumes run: "run_of start step r" and fair: "weakly_fair act r"
  shows "leads_to r (\<lambda>s. cond s \<and> left s \<noteq> 0 \<and> left s = k) (\<lambda>s. cond s \<and> left s < k)"
proof (rule weak_ensures [OF fair])
  fix n assume p: "cond (r n) \<and> left (r n) \<noteq> 0 \<and> left (r n) = k"
  note keeps = measure_keeps [OF run, of n]
  show "(cond (r (Suc n)) \<and> left (r (Suc n)) \<noteq> 0 \<and> left (r (Suc n)) = k) \<or> (cond (r (Suc n)) \<and> left (r (Suc n)) < k)"
    using p keeps by auto
  show "(cond (r n) \<and> left (r n) < k) \<or> enabled act (r n)"
    using p left_able [OF run_inv [OF run]] by blast
  assume "taken act r n"
  then show "cond (r (Suc n)) \<and> left (r (Suc n)) < k"
    using p keeps left_less [OF run_inv [OF run]] unfolding taken_def by blast
qed

lemma run_finishes:
  assumes run: "run_of start step r" and fair: "weakly_fair act r"
  shows "leads_to r cond (\<lambda>s. cond s \<and> left s = 0)"
proof -
  have "cond (r n) \<Longrightarrow> \<exists>m\<ge>n. cond (r m) \<and> left (r m) = 0" for n
  proof (induction "left (r n)" arbitrary: n rule: less_induct)
    case less
    show ?case
    proof (cases "left (r n) = 0")
      case False
      then obtain m where m: "n \<le> m" "cond (r m)" "left (r m) < left (r n)"
        using leads_toD [OF run_lessens [OF run fair, of "left (r n)"], of n] less.prems by auto
      then obtain k where "m \<le> k" "cond (r k) \<and> left (r k) = 0" using less.hyps by blast
      with m(1) show ?thesis by (meson order_trans)
    qed (use less.prems in blast)
  qed
  then show ?thesis by (simp add: leads_to_def)
qed

text \<open>And there is a last moment with work left.\<close>

lemma run_last:
  assumes run: "run_of start step r" and fair: "weakly_fair act r" and "cond (r n)" and "left (r n) \<noteq> 0"
  shows "\<exists>m\<ge>n. cond (r m) \<and> left (r m) \<noteq> 0 \<and> left (r (Suc m)) = 0"
proof (rule ccontr)
  assume never: "\<not> ?thesis"
  have "cond (r m) \<and> left (r m) \<noteq> 0" if "n \<le> m" for m
    using that
  proof (induction m rule: dec_induct)
    case (step k)
    then have at: "cond (r k)" "left (r k) \<noteq> 0" by simp_all
    moreover have "left (r (Suc k)) \<noteq> 0" using never at step.hyps(1) by auto
    ultimately show ?case using measure_keeps [OF run] by simp
  qed (use assms(3,4) in blast)
  then show False using leads_toD [OF run_finishes [OF run fair] assms(3)] by blast
qed

end

section \<open>The worker\<close>

lemma xstep_cases:
  assumes "xstep cfg s t" and "xgood cfg s"
  shows "worker_step s t \<or> (xs_worker t = xs_worker s \<and> xs_exported t = xs_exported s)"
  using assms(1)
  by cases (auto elim!: enqueue_step.cases flush_step.cases shutdown_step.cases)

lemma good_inv: "xgood cfg s \<Longrightarrow> queue_inv cfg s \<and> count_inv cfg s \<and> close_inv s"
  by (simp add: xgood_def xinv_def)

text \<open>While a batch is queued or in its hands the worker has not been told to stop.\<close>

lemma told_to_stop:
  assumes "xgood cfg s" and "xs_done s \<or> xs_worker s = WStopped"
  shows "xs_queue s = []" and "working (xs_worker s) = 0"
proof -
  have "xs_pending s = 0" using good_inv [OF assms(1)] assms(2) by (auto simp: close_inv_def)
  then show "xs_queue s = []" "working (xs_worker s) = 0" using good_inv [OF assms(1)] drained by blast+
qed

text \<open>How many steps of the worker there are before the batch of the given index has been exported.\<close>

definition left_to :: "nat \<Rightarrow> 'b xstate \<Rightarrow> nat" where
  "left_to n s =
     (if n < length (xs_exported s) then 0
      else 4 * (n - length (xs_exported s))
        + (case xs_worker s of WBusy _ \<Rightarrow> 1 | WCounted \<Rightarrow> 4 | WCleared \<Rightarrow> 3 | _ \<Rightarrow> 2))"

lemma worker_busy:
  assumes "xgood cfg s" and "n < length (xs_entered s)" and "left_to n s \<noteq> 0"
  shows "working (xs_worker s) \<noteq> 0 \<or> (xs_worker s = WIdle \<and> xs_queue s \<noteq> [] \<and> \<not> xs_done s)"
proof -
  have "xs_entered s = map fst (xs_exported s) @ in_hand (xs_worker s) @ xs_queue s"
    using good_inv [OF assms(1)] by (simp add: queue_inv_def)
  then have "in_hand (xs_worker s) @ xs_queue s \<noteq> []"
    using assms(2,3) by (auto simp: left_to_def split: if_splits)
  then show ?thesis
    using told_to_stop [OF assms(1)] by (cases "xs_worker s") (auto simp: in_hand_def working_def)
qed

lemma worker_enabled:
  "working (xs_worker s) \<noteq> 0 \<or> (xs_worker s = WIdle \<and> (xs_queue s \<noteq> [] \<or> xs_done s)) \<Longrightarrow> enabled worker_step s"
  unfolding enabled_def
  by (cases "xs_worker s"; cases "xs_queue s") (auto simp: working_def intro: worker_step.intros)

text \<open>Nothing but the worker's stopping keeps the measure, and it does not stop while there is a batch.\<close>

definition at_work :: "'b xstate \<Rightarrow> bool" where
  "at_work s \<longleftrightarrow> working (xs_worker s) \<noteq> 0 \<or> (xs_worker s = WIdle \<and> xs_queue s \<noteq> [] \<and> \<not> xs_done s)"

lemma at_work_enabled: "at_work s \<Longrightarrow> enabled worker_step s"
  by (rule worker_enabled) (auto simp: at_work_def)

lemma worker_lessens_to:
  assumes "worker_step s t" and "at_work s" and "left_to n s \<noteq> 0"
  shows "left_to n t < left_to n s"
  using assms by cases (auto simp: left_to_def at_work_def working_def split: if_splits)

lemma worker_lessens_left:
  assumes "worker_step s t" and "at_work s"
  shows "worker_left t < worker_left s"
  using assms by cases (auto simp: worker_left_def at_work_def working_def)

interpretation exporting: fair_progress "\<lambda>s. s = xstart \<and> roomy cfg" "xstep cfg" "xgood cfg"
    worker_step "\<lambda>s. n < length (xs_entered s)" "left_to n" for cfg n
proof unfold_locales
  fix s :: "'a xstate"
  assume s: "xgood cfg s" "n < length (xs_entered s)" "left_to n s \<noteq> 0"
  have busy: "at_work s" using worker_busy [OF s] by (simp add: at_work_def)
  show "enabled worker_step s" by (rule at_work_enabled [OF busy])
  fix t
  show less: "worker_step s t \<Longrightarrow> left_to n t < left_to n s"
    using worker_lessens_to busy s(3) by blast
  assume step: "xstep cfg s t"
  have "left_to n t = left_to n s" if "xs_worker t = xs_worker s" "xs_exported t = xs_exported s"
    using that by (simp add: left_to_def)
  then have "left_to n t \<le> left_to n s"
    using xstep_cases [OF step s(1)] less by (metis less_imp_le order_refl)
  then show "left_to n t \<le> left_to n s \<and> n < length (xs_entered t)"
    using forward_step [OF step s(1)] s(2) by (simp add: forward_def)
qed

lemma closed_queue:
  assumes "xstep cfg s t" and "xgood cfg s" and "xs_closed s"
  shows "worker_step s t \<or> (xs_worker t = xs_worker s \<and> xs_queue t = xs_queue s)"
  using assms(1)
proof cases
  case (step_enqueue i)
  then show ?thesis
    using mid_not_held [of cfg s i] good_inv [OF assms(2)] assms(3) by cases auto
qed (auto elim!: flush_step.cases shutdown_step.cases)

lemma closed_left:
  assumes "xstep cfg s t" and "xgood cfg s" and "xs_closed s"
  shows "worker_left t \<le> worker_left s \<and> xs_closed t"
proof -
  have "worker_step s t \<Longrightarrow> worker_left t \<le> worker_left s"
    by (auto elim!: worker_step.cases simp: worker_left_def)
  then show ?thesis
    using closed_queue [OF assms] forward_step [OF assms(1,2)] assms(3) by (auto simp: worker_left_def forward_def)
qed

interpretation draining: fair_progress "\<lambda>s. s = xstart \<and> roomy cfg" "xstep cfg" "xgood cfg"
    worker_step xs_closed worker_left for cfg
proof unfold_locales
  fix s :: "'a xstate"
  assume s: "xgood cfg s" "xs_closed s" "worker_left s \<noteq> 0"
  have busy: "at_work s"
    using told_to_stop [OF s(1)] s(3) by (cases "xs_worker s") (auto simp: at_work_def worker_left_def working_def)
  show "enabled worker_step s" by (rule at_work_enabled [OF busy])
  show "worker_step s t \<Longrightarrow> worker_left t < worker_left s" for t
    using worker_lessens_left busy by blast
  show "xstep cfg s t \<Longrightarrow> worker_left t \<le> worker_left s \<and> xs_closed t" for t
    using closed_left [OF _ s(1,2)] by blast
qed

section \<open>The mutex\<close>

text \<open>A goroutine inside \<open>enqueue\<close> goes on to its end, whatever the others do, and lets the mutex go.\<close>

definition finish_enqueue :: "'b xconfig \<Rightarrow> nat \<Rightarrow> 'b xstate \<Rightarrow> 'b xstate \<Rightarrow> bool" where
  "finish_enqueue cfg i s t \<longleftrightarrow> holds_mutex (xs_pc s i) \<and> enqueue_step cfg i s t"

fun pc_left :: "'b pc \<Rightarrow> nat" where
  "pc_left (EnqHeld _) = 3"
| "pc_left (EnqPend _) = 2"
| "pc_left EnqSent = 1"
| "pc_left EnqFull = 1"
| "pc_left _ = 0"

lemma pc_left_holds: "0 < pc_left p \<longleftrightarrow> holds_mutex p"
  by (cases p) simp_all

lemma holder_can:
  assumes "holds_mutex (xs_pc s i)"
  shows "enabled (finish_enqueue cfg i) s"
proof -
  have "\<exists>t. enqueue_step cfg i s t"
  proof (cases "xs_pc s i")
    case (EnqHeld b)
    then show ?thesis using enq_refused [of s i b cfg] enq_pending [of s i b cfg] by blast
  next
    case (EnqPend b)
    then show ?thesis using enq_send [of s i b cfg] enq_full [of s i b cfg] by blast
  next
    case EnqSent
    then show ?thesis using enq_accepted [of s i cfg] by blast
  next
    case EnqFull
    then show ?thesis using enq_dropped [of s i cfg] by blast
  qed (use assms in simp_all)
  with assms show ?thesis by (simp add: enabled_def finish_enqueue_def)
qed

lemma holder_lessens:
  assumes "enqueue_step cfg i s t" and "holds_mutex (xs_pc s i)"
  shows "pc_left (xs_pc t i) < pc_left (xs_pc s i) \<and> (pc_left (xs_pc t i) = 0 \<longrightarrow> xs_mutex t = None)"
  using assms by cases auto

text \<open>Only its own \<open>enqueue\<close> moves the goroutine that holds the mutex.\<close>

lemma holder_moved:
  assumes "xstep cfg s t" and "holds_mutex (xs_pc s i)"
  shows "xs_pc t i = xs_pc s i \<or> enqueue_step cfg i s t"
  using assms(1)
proof cases
  case (step_enqueue j)
  then show ?thesis by (cases "j = i") (auto elim: enqueue_step.cases)
next
  case (step_flush j)
  then show ?thesis using assms(2) by cases (cases "j = i"; simp)+
next
  case (step_shutdown j)
  then show ?thesis using assms(2) by cases (cases "j = i"; simp)+
qed (auto elim: worker_step.cases)

interpretation enqueuing: fair_progress "\<lambda>s. s = xstart \<and> roomy cfg" "xstep cfg" "xgood cfg"
    "finish_enqueue cfg i" "\<lambda>_. True" "\<lambda>s. pc_left (xs_pc s i)" for cfg i
proof unfold_locales
  fix s :: "'a xstate"
  assume "pc_left (xs_pc s i) \<noteq> 0"
  then have holds: "holds_mutex (xs_pc s i)" by (simp add: pc_left_holds)
  show "enabled (finish_enqueue cfg i) s" by (rule holder_can [OF holds])
  show "finish_enqueue cfg i s t \<Longrightarrow> pc_left (xs_pc t i) < pc_left (xs_pc s i)" for t
    using holder_lessens by (auto simp: finish_enqueue_def)
  show "xstep cfg s t \<Longrightarrow> pc_left (xs_pc t i) \<le> pc_left (xs_pc s i) \<and> True" for t
    using holder_moved [OF _ holds] holder_lessens [OF _ holds] by (metis less_imp_le order_refl)
qed

section \<open>Shutdown\<close>

text \<open>A step of a shutdown that is under way and whose deadline does not come first.\<close>

fun in_shutdown :: "'b pc \<Rightarrow> bool" where
  "in_shutdown SdEnter = True"
| "in_shutdown SdWait = True"
| "in_shutdown SdFlushHook = True"
| "in_shutdown SdStop = True"
| "in_shutdown SdAwait = True"
| "in_shutdown SdHook = True"
| "in_shutdown SdClosing = True"
| "in_shutdown SdClosed = True"
| "in_shutdown _ = False"

definition timely :: "'b xconfig \<Rightarrow> nat \<Rightarrow> 'b xstate \<Rightarrow> 'b xstate \<Rightarrow> bool" where
  "timely cfg i s t \<longleftrightarrow> in_shutdown (xs_pc s i) \<and> shutdown_step cfg i s t \<and> xs_pc t i \<noteq> SdRet False"

definition fair_run :: "'b xconfig \<Rightarrow> (nat \<Rightarrow> 'b xstate) \<Rightarrow> bool" where
  "fair_run cfg r \<longleftrightarrow>
     run_of (\<lambda>s. s = xstart \<and> roomy cfg) (xstep cfg) r \<and> weakly_fair worker_step r
     \<and> (\<forall>i. weakly_fair (finish_enqueue cfg i) r)"

definition in_time :: "'b xconfig \<Rightarrow> nat \<Rightarrow> (nat \<Rightarrow> 'b xstate) \<Rightarrow> bool" where
  "in_time cfg i r \<longleftrightarrow> strongly_fair (timely cfg i) r \<and> (\<forall>n. xs_pc (r n) i \<noteq> SdRet False)"

lemma fair_runD:
  assumes "fair_run cfg r"
  shows "run_of (\<lambda>s. s = xstart \<and> roomy cfg) (xstep cfg) r" "weakly_fair worker_step r"
    "weakly_fair (finish_enqueue cfg i) r" "xgood cfg (r n)" "xreach cfg (r n)"
    "xstep cfg (r n) (r (Suc n)) \<or> r (Suc n) = r n"
proof -
  show run: "run_of (\<lambda>s. s = xstart \<and> roomy cfg) (xstep cfg) r"
    and "weakly_fair worker_step r" "weakly_fair (finish_enqueue cfg i) r"
    using assms by (simp_all add: fair_run_def)
  show "xgood cfg (r n)" using draining.run_inv [OF run] .
  show "xreach cfg (r n)" unfolding xreach_def by (rule run_reachable [OF run])
  show "xstep cfg (r n) (r (Suc n)) \<or> r (Suc n) = r n" using run by (simp add: run_of_def)
qed

text \<open>The mutex is free again and again.\<close>

lemma mutex_freed:
  assumes "fair_run cfg r"
  shows "\<exists>m\<ge>n. xs_mutex (r m) = None"
proof (cases "xs_mutex (r n)")
  case (Some i)
  note run = fair_runD [OF assms]
  have "holds_mutex (xs_pc (r n) i)" using Some mutex_holder good_inv [OF run(4)] by metis
  then have "pc_left (xs_pc (r n) i) \<noteq> 0" by (simp add: pc_left_holds)
  then obtain m where m: "n \<le> m" "pc_left (xs_pc (r m) i) \<noteq> 0" "pc_left (xs_pc (r (Suc m)) i) = 0"
    using enqueuing.run_last [OF run(1,3), of n] by auto
  have holds: "holds_mutex (xs_pc (r m) i)" using m(2) by (simp add: pc_left_holds)
  have "r (Suc m) \<noteq> r m" "xs_pc (r (Suc m)) i \<noteq> xs_pc (r m) i" using m by auto
  then have "enqueue_step cfg i (r m) (r (Suc m))"
    using run(6) [of m] holder_moved [OF _ holds] by blast
  then have "xs_mutex (r (Suc m)) = None" using holder_lessens holds m(3) by blast
  with m(1) show ?thesis by (intro exI [of _ "Suc m"]) simp
qed blast

text \<open>A goroutine in a shutdown stays where it is until the shutdown's next step.\<close>

lemma shutdown_moved:
  assumes "xstep cfg s t" and "in_shutdown (xs_pc s i)"
  shows "xs_pc t i = xs_pc s i \<or> shutdown_step cfg i s t"
  using assms(1)
proof cases
  case (step_enqueue j)
  then show ?thesis using assms(2) by cases (cases "j = i"; simp)+
next
  case (step_flush j)
  then show ?thesis using assms(2) by cases (cases "j = i"; simp)+
next
  case (step_shutdown j)
  then show ?thesis by (cases "j = i") (auto elim: shutdown_step.cases)
qed (auto elim: worker_step.cases)

lemma shutdown_waits:
  assumes "fair_run cfg r" and "in_time cfg i r" and "in_shutdown (xs_pc (r n) i)"
  shows "xs_pc (r (Suc n)) i = xs_pc (r n) i \<or> timely cfg i (r n) (r (Suc n))"
  using fair_runD(6) [OF assms(1), of n] shutdown_moved [OF _ assms(3)] assms(2,3)
  by (auto simp: timely_def in_time_def)


lemma timely_next:
  assumes "timely cfg i s t" and "\<not> xc_flusher cfg" and "\<not> xc_shutdown cfg"
  shows "xs_pc s i = SdEnter \<Longrightarrow> xs_pc t i = SdWait"
    and "xs_pc s i = SdWait \<Longrightarrow> xs_pc t i = SdStop"
    and "xs_pc s i = SdStop \<Longrightarrow> xs_pc t i = SdAwait"
    and "xs_pc s i = SdAwait \<Longrightarrow> xs_pc t i = SdHook"
    and "xs_pc s i = SdHook \<Longrightarrow> xs_pc t i = SdRet True"
  using assms by (auto simp: timely_def elim: shutdown_step.cases)

lemma timely_by:
  "shutdown_step cfg i s t \<Longrightarrow> in_shutdown (xs_pc s i) \<Longrightarrow> xs_pc t i \<noteq> SdRet False \<Longrightarrow> enabled (timely cfg i) s"
  by (auto simp: enabled_def timely_def)

lemma timely_can:
  "xs_pc s i = SdEnter \<Longrightarrow> xs_mutex s = None \<Longrightarrow> enabled (timely cfg i) s"
  "xs_pc s i = SdWait \<Longrightarrow> xs_pending s = 0 \<Longrightarrow> enabled (timely cfg i) s"
  "xs_pc s i = SdStop \<Longrightarrow> enabled (timely cfg i) s"
  "xs_pc s i = SdAwait \<Longrightarrow> xs_stopped s \<Longrightarrow> enabled (timely cfg i) s"
  "xs_pc s i = SdHook \<Longrightarrow> \<not> xc_shutdown cfg \<Longrightarrow> enabled (timely cfg i) s"
  by (auto intro: timely_by [OF sd_close] timely_by [OF sd_drained] timely_by [OF sd_stop]
      timely_by [OF sd_stopped] timely_by [OF sd_no_hook] split: if_splits)

text \<open>
  One stage of a shutdown: what is known at \<open>p\<close> leads to the condition of the next step, and that step leads
  to \<open>q\<close>.
\<close>

lemma shutdown_stage:
  assumes run: "fair_run cfg r" and time: "in_time cfg i r" and p: "in_shutdown p"
    and known: "\<And>n. xs_pc (r n) i = p \<Longrightarrow> K (r n)" and ready: "leads_to r K R"
    and able: "\<And>n. xs_pc (r n) i = p \<Longrightarrow> R (r n) \<Longrightarrow> enabled (timely cfg i) (r n)"
    and next_pc: "\<And>s t. timely cfg i s t \<Longrightarrow> xs_pc s i = p \<Longrightarrow> xs_pc t i = q"
  shows "leads_to r (\<lambda>s. xs_pc s i = p) (\<lambda>s. xs_pc s i = q)"
proof (rule strong_ensures)
  show "strongly_fair (timely cfg i) r" using time by (simp add: in_time_def)
  show unless: "xs_pc (r (Suc n)) i = p \<or> xs_pc (r (Suc n)) i = q" if "xs_pc (r n) i = p" for n
    using shutdown_waits [OF run time, of n] next_pc that p by auto
  show "xs_pc (r (Suc n)) i = q" if "xs_pc (r n) i = p" "taken (timely cfg i) r n" for n
    using next_pc that by (auto simp: taken_def)
  fix n assume at: "xs_pc (r n) i = p"
  obtain m where m: "n \<le> m" "R (r m)" using leads_toD [OF ready known [OF at]] by blast
  show "\<exists>m\<ge>n. xs_pc (r m) i = q \<or> enabled (timely cfg i) (r m)"
  proof (cases "\<exists>k\<ge>n. xs_pc (r k) i = q")
    case False
    then have "xs_pc (r m) i = p"
      using unless_stays [of n "\<lambda>s. xs_pc s i = p" r "\<lambda>s. xs_pc s i = q" m] unless at m(1) by blast
    then show ?thesis using able m by blast
  qed blast
qed

lemma closed_pending:
  assumes "xgood cfg s" and "xs_closed s" and "worker_left s = 0"
  shows "xs_pending s = 0"
proof -
  have "mid_enqueue (\<lambda>p. \<not> (\<exists>b. p = EnqHeld b)) s = 0"
    using good_inv [OF assms(1)] assms(2) by (simp add: close_inv_def)
  then have "mid_enqueue is_pend s = 0"
    by (auto simp: mid_enqueue_def split: option.splits if_splits)
  then show ?thesis using good_inv [OF assms(1)] left_done [OF assms(3)] by (simp add: count_inv_def)
qed

lemma told_stops:
  assumes "fair_run cfg r"
  shows "leads_to r xs_done xs_stopped"
proof (rule weak_ensures [OF fair_runD(2) [OF assms]])
  fix n assume told: "xs_done (r n)"
  note good = fair_runD(4) [OF assms, of n]
  note idle = told_to_stop [OF good disjI1 [OF told]]
  show "xs_done (r (Suc n)) \<or> xs_stopped (r (Suc n))"
    using fair_runD(6) [OF assms, of n] forward_step [OF _ good] told by (auto simp: forward_def)
  show "xs_stopped (r n) \<or> enabled worker_step (r n)"
    using idle told good_inv [OF good] worker_enabled [of "r n"]
    by (cases "xs_worker (r n)") (auto simp: working_def close_inv_def)
  assume "taken worker_step r n"
  then show "xs_stopped (r (Suc n))"
    using idle by (auto simp: taken_def working_def elim: worker_step.cases)
qed

lemma shutdown_succeeds:
  assumes run: "fair_run cfg r" and time: "in_time cfg i r" and hooks: "\<not> xc_flusher cfg" "\<not> xc_shutdown cfg"
  shows "leads_to r (\<lambda>s. xs_pc s i = SdEnter) (\<lambda>s. xs_pc s i = SdRet True)"
proof -
  note stage = shutdown_stage [OF run time] and good = fair_runD(4) [OF run]
  note next_pc = timely_next [OF _ hooks]
  have know: "pc_knows (r n) (xs_pc (r n) i)" for n
    using good_inv [OF good] by (simp add: close_inv_def)
  have closed: "xs_closed (r n)" if "xs_pc (r n) i = SdWait" for n using know [of n] that by simp
  have told: "xs_done (r n)" if "xs_pc (r n) i = SdAwait" for n using know [of n] that by simp
  have here: "leads_to r (\<lambda>_. True) (\<lambda>_. True)" by (auto simp: leads_to_def)
  have free: "leads_to r (\<lambda>_. True) (\<lambda>s. xs_mutex s = None)"
    using mutex_freed [OF run] by (simp add: leads_to_def)
  have drain: "leads_to r xs_closed (\<lambda>s. xs_closed s \<and> worker_left s = 0)"
    by (rule draining.run_finishes [OF fair_runD(1,2) [OF run]])
  have "leads_to r (\<lambda>s. xs_pc s i = SdEnter) (\<lambda>s. xs_pc s i = SdWait)"
    by (rule stage [OF _ _ free]) (simp_all add: timely_can(1) next_pc(1))
  moreover have "leads_to r (\<lambda>s. xs_pc s i = SdWait) (\<lambda>s. xs_pc s i = SdStop)"
    by (rule stage [OF _ closed drain]) (simp_all add: timely_can(2) closed_pending [OF good] next_pc(2))
  moreover have "leads_to r (\<lambda>s. xs_pc s i = SdStop) (\<lambda>s. xs_pc s i = SdAwait)"
    by (rule stage [OF _ _ here]) (simp_all add: timely_can(3) next_pc(3))
  moreover have "leads_to r (\<lambda>s. xs_pc s i = SdAwait) (\<lambda>s. xs_pc s i = SdHook)"
    by (rule stage [OF _ told told_stops [OF run]]) (simp_all add: timely_can(4) next_pc(4))
  moreover have "leads_to r (\<lambda>s. xs_pc s i = SdHook) (\<lambda>s. xs_pc s i = SdRet True)"
    by (rule stage [OF _ _ here]) (simp_all add: timely_can(5) hooks next_pc(5))
  ultimately show ?thesis by (blast intro: leads_to_trans)
qed

text \<open>What has entered the channel stays on its record.\<close>

lemma entered_step:
  assumes "xstep cfg s t" and "n < length (xs_entered s)"
  shows "n < length (xs_entered t) \<and> xs_entered t ! n = xs_entered s ! n"
  using assms(1)
proof cases
  case (step_enqueue i)
  then show ?thesis using assms(2) by cases (simp_all add: nth_append)
next
  case (step_flush i)
  then show ?thesis using assms(2) by cases simp_all
next
  case (step_shutdown i)
  then show ?thesis using assms(2) by cases simp_all
next
  case step_worker
  then show ?thesis using assms(2) by cases simp_all
qed

lemma entered_run:
  assumes "fair_run cfg r" and "k < length (xs_entered (r n))" and "n \<le> m"
  shows "k < length (xs_entered (r m)) \<and> xs_entered (r m) ! k = xs_entered (r n) ! k"
  using assms(3)
proof (induction m rule: dec_induct)
  case (step m)
  then show ?case using fair_runD(6) [OF assms(1), of m] entered_step [of cfg "r m" "r (Suc m)" k] by metis
qed (use assms(2) in simp)

lemma exported_index:
  assumes "xgood cfg s" and "k < length (xs_exported s)"
  shows "fst (xs_exported s ! k) = xs_entered s ! k"
  using assms good_inv [OF assms(1)] by (simp add: queue_inv_def nth_append)

lemma entered_is_exported:
  assumes run: "fair_run cfg r" and k: "k < length (xs_entered (r n))"
  shows "\<exists>m\<ge>n. k < length (xs_exported (r m)) \<and> fst (xs_exported (r m) ! k) = xs_entered (r n) ! k"
proof -
  obtain m where m: "n \<le> m" "left_to k (r m) = 0"
    using leads_toD [OF exporting.run_finishes [OF fair_runD(1,2) [OF run]] k] by blast
  then have "k < length (xs_exported (r m))"
    by (auto simp: left_to_def split: if_splits worker_pc.splits)
  with m(1) exported_index [OF fair_runD(4) [OF run] this] entered_run [OF run k m(1)] show ?thesis by auto
qed

section \<open>Properties\<close>

text \<open>
  C8: no accepted batch waits for ever: in every run in which the worker is not starved, the batch that entered
  the channel as the k-th is handed to the exporter as the k-th, whatever flushes, shutdowns and other
  enqueues run meanwhile.
\<close>
theorem accepted_batch_exported:
  assumes "fair_run cfg r" and "k < length (xs_entered (r n))"
  shows "\<exists>m\<ge>n. k < length (xs_exported (r m)) \<and> fst (xs_exported (r m) ! k) = xs_entered (r n) ! k"
  using entered_is_exported [OF assms] .


section \<open>A fair run, for the witnesses\<close>

definition list_run :: "'s list \<Rightarrow> nat \<Rightarrow> 's" where
  "list_run xs n = xs ! min n (length xs - 1)"

lemma list_run_of:
  assumes "successively step xs" and "xs \<noteq> []" and "start (hd xs)"
  shows "run_of start step (list_run xs)"
proof -
  have "step (list_run xs n) (list_run xs (Suc n)) \<or> list_run xs (Suc n) = list_run xs n" for n
  proof (cases "Suc n < length xs")
    case True
    then show ?thesis using assms(1) by (simp add: list_run_def successively_conv_nth min_def)
  next
    case False
    then have "min n (length xs - 1) = length xs - 1" "min (Suc n) (length xs - 1) = length xs - 1" by simp_all
    then show ?thesis unfolding list_run_def by simp
  qed
  then show ?thesis using assms(2,3) by (simp add: run_of_def list_run_def hd_conv_nth)
qed

lemma list_run_rests: "length xs - 1 \<le> n \<Longrightarrow> xs \<noteq> [] \<Longrightarrow> list_run xs n = last xs"
  by (simp add: list_run_def last_conv_nth min_def)

lemma list_run_fair: "xs \<noteq> [] \<Longrightarrow> \<not> enabled act (last xs) \<Longrightarrow> strongly_fair act (list_run xs)"
  by (rule fair_at_rest [of "length xs - 1"]) (simp add: list_run_rests)

definition demo_at :: "string outbound_batch pc \<Rightarrow> string outbound_batch worker_pc \<Rightarrow> string outbound_batch xstate" where
  "demo_at p w = (goto 0 p xstart)\<lparr>xs_worker := w\<rparr>"

definition demo_sent :: "string outbound_batch pc \<Rightarrow> string outbound_batch worker_pc \<Rightarrow> string outbound_batch xstate" where
  "demo_sent p w = (demo_at p w)\<lparr>xs_entered := [demo_batch], xs_accepted := 1\<rparr>"

definition demo_out :: "string outbound_batch pc \<Rightarrow> string outbound_batch worker_pc \<Rightarrow> string outbound_batch xstate" where
  "demo_out p w = (demo_sent p w)\<lparr>xs_closed := True, xs_exported := [(demo_batch, True)], xs_delivered := 1\<rparr>"

definition demo_run :: "string outbound_batch xstate list" where
  "demo_run =
     [xstart,
      (demo_at (EnqHeld demo_batch) WIdle)\<lparr>xs_mutex := Some 0\<rparr>,
      (demo_at (EnqPend demo_batch) WIdle)\<lparr>xs_mutex := Some 0, xs_pending := 1\<rparr>,
      (demo_at EnqSent WIdle)\<lparr>xs_mutex := Some 0, xs_pending := 1, xs_queue := [demo_batch], xs_entered := [demo_batch]\<rparr>,
      (demo_sent Idle WIdle)\<lparr>xs_pending := 1, xs_queue := [demo_batch]\<rparr>,
      (demo_sent SdEnter WIdle)\<lparr>xs_pending := 1, xs_queue := [demo_batch]\<rparr>,
      (demo_sent SdWait WIdle)\<lparr>xs_pending := 1, xs_queue := [demo_batch], xs_closed := True\<rparr>,
      (demo_sent SdWait (WBusy demo_batch))\<lparr>xs_pending := 1, xs_in_flight := 1, xs_closed := True\<rparr>,
      (demo_out SdWait WCounted)\<lparr>xs_pending := 1, xs_in_flight := 1\<rparr>,
      (demo_out SdWait WCleared)\<lparr>xs_pending := 1\<rparr>,
      demo_out SdWait WIdle,
      demo_out SdStop WIdle,
      (demo_out SdAwait WIdle)\<lparr>xs_done := True\<rparr>,
      (demo_out SdAwait WStopped)\<lparr>xs_done := True, xs_stopped := True\<rparr>,
      (demo_out SdHook WStopped)\<lparr>xs_done := True, xs_stopped := True\<rparr>,
      (demo_out (SdRet True) WStopped)\<lparr>xs_done := True, xs_stopped := True\<rparr>]"

lemmas demo_defs = demo_out_def demo_sent_def demo_at_def xstart_def goto_def

lemma step_to: "xstep cfg s u \<Longrightarrow> u = t \<Longrightarrow> xstep cfg s t"
  by simp

lemma demo_run_steps: "successively (xstep demo_http) demo_run"
  unfolding demo_run_def successively.simps
proof (intro conjI, goal_cases)
  case 1
  show ?case by (rule step_to, rule step_enqueue [where i = 0], rule enq_lock [where b = demo_batch]) (simp_all add: demo_defs demo_http_config add64_def wrap64_def)
next
  case 2
  show ?case by (rule step_to, rule step_enqueue [where i = 0], rule enq_pending [where b = demo_batch]) (simp_all add: demo_defs demo_http_config add64_def wrap64_def)
next
  case 3
  show ?case by (rule step_to, rule step_enqueue [where i = 0], rule enq_send [where b = demo_batch]) (simp_all add: demo_defs demo_http_config add64_def wrap64_def)
next
  case 4
  show ?case by (rule step_to, rule step_enqueue [where i = 0], rule enq_accepted) (simp_all add: demo_defs demo_http_config add64_def wrap64_def)
next
  case 5
  show ?case by (rule step_to, rule step_shutdown [where i = 0], rule sd_call) (simp_all add: demo_defs demo_http_config add64_def wrap64_def)
next
  case 6
  show ?case by (rule step_to, rule step_shutdown [where i = 0], rule sd_close) (simp_all add: demo_defs demo_http_config add64_def wrap64_def)
next
  case 7
  show ?case by (rule step_to, rule step_worker, rule wk_take [where b = demo_batch and q = "[]"]) (simp_all add: demo_defs demo_http_config add64_def wrap64_def)
next
  case 8
  show ?case by (rule step_to, rule step_worker, rule wk_delivered [where b = demo_batch]) (simp_all add: demo_defs demo_http_config add64_def wrap64_def)
next
  case 9
  show ?case by (rule step_to, rule step_worker, rule wk_cleared) (simp_all add: demo_defs demo_http_config add64_def wrap64_def)
next
  case 10
  show ?case by (rule step_to, rule step_worker, rule wk_release) (simp_all add: demo_defs demo_http_config add64_def wrap64_def)
next
  case 11
  show ?case by (rule step_to, rule step_shutdown [where i = 0], rule sd_drained) (simp_all add: demo_defs demo_http_config add64_def wrap64_def)
next
  case 12
  show ?case by (rule step_to, rule step_shutdown [where i = 0], rule sd_stop) (simp_all add: demo_defs demo_http_config add64_def wrap64_def)
next
  case 13
  show ?case by (rule step_to, rule step_worker, rule wk_stop) (simp_all add: demo_defs demo_http_config add64_def wrap64_def)
next
  case 14
  show ?case by (rule step_to, rule step_shutdown [where i = 0], rule sd_stopped) (simp_all add: demo_defs demo_http_config add64_def wrap64_def)
next
  case 15
  show ?case by (rule step_to, rule step_shutdown [where i = 0], rule sd_no_hook) (simp_all add: demo_defs demo_http_config add64_def wrap64_def)
qed simp_all

lemma demo_run_rests:
  "\<not> enabled worker_step (last demo_run)" "\<not> enabled (finish_enqueue demo_http i) (last demo_run)"
  "\<not> enabled (timely demo_http 0) (last demo_run)"
  by (auto simp: enabled_def finish_enqueue_def timely_def demo_run_def demo_defs elim: worker_step.cases split: if_splits)

lemma demo_run_fair: "fair_run demo_http (list_run demo_run)"
proof -
  have ne: "demo_run \<noteq> []" "hd demo_run = xstart" by (simp_all add: demo_run_def)
  have "run_of (\<lambda>s. s = xstart \<and> roomy demo_http) (xstep demo_http) (list_run demo_run)"
    by (rule list_run_of [OF demo_run_steps ne(1)]) (simp add: ne demo_http_config(1))
  then show ?thesis
    unfolding fair_run_def using list_run_fair [OF ne(1)] demo_run_rests strong_weak by blast
qed

lemma demo_run_in_time: "in_time demo_http 0 (list_run demo_run)"
proof -
  have ne: "demo_run \<noteq> []" by (simp add: demo_run_def)
  have "list_all (\<lambda>s. xs_pc s 0 \<noteq> SdRet False) demo_run"
    by (simp add: demo_run_def demo_defs)
  moreover have "list_run demo_run n \<in> set demo_run" for n
    unfolding list_run_def by (rule nth_mem) (use ne in \<open>auto simp: min_less_iff_disj\<close>)
  ultimately have "xs_pc (list_run demo_run n) 0 \<noteq> SdRet False" for n
    by (simp add: list_all_iff)
  then show ?thesis using list_run_fair [OF ne demo_run_rests(3)] by (simp add: in_time_def)
qed

lemma demo_run_states:
  "xs_entered (list_run demo_run 3) = [demo_batch]" "xs_pc (list_run demo_run 5) 0 = SdEnter"
  by (simp_all add: list_run_def demo_run_def demo_defs)

lemma accepted_batch_exported_witness:
  "\<exists>m\<ge>3. 0 < length (xs_exported (list_run demo_run m)) \<and> fst (xs_exported (list_run demo_run m) ! 0) = demo_batch"
  using accepted_batch_exported [OF demo_run_fair, of 0 3] by (simp add: demo_run_states)


end
