(* ===== verification/Spec2Isabelle.thy ===== *)
theory Spec2Isabelle
  imports Requests Sampling Middleware Outbound Background SqlNumbers DbWrap Adapters Pipeline Fairness
begin

text \<open>
  A verification development of the restlytics Go SDK (\<open>src/\<close>): application monitoring that records one
  trace per request, a root span and its children, and log records beside it, and sends them as OTLP/JSON to an
  ingest endpoint, to a customer's exporter, or to a local preview.

  The program.  \<open>Init\<close> (\<open>restlytics.go\<close>) resolves a configuration (\<open>config.go\<close>) and chooses the transports
  (\<open>transport.go\<close>).  The tracer (\<open>tracer.go\<close>) opens a request: it takes over a \<open>traceparent\<close> header or
  makes fresh ids (\<open>ids.go\<close>), decides about sampling, and puts a pointer to the request's state into the
  context.  Middleware and wrappers record what happens under that context: \<open>httpmiddleware.go\<close>,
  \<open>outbound_http.go\<close>, \<open>background.go\<close>, \<open>dbwrap.go\<close> (with \<open>sql.go\<close>) and \<open>adapters/\<close>.  Spans
  (\<open>span.go\<close>) refuse sensitive keys and redact URLs.  \<open>Finish\<close> attaches the time each category spent
  (\<open>intervals.go\<close>) and hands one batch (\<open>otlp.go\<close>) to the transport, whose worker exports it.  \<open>logs.go\<close>
  is a \<open>log/slog\<close> handler that sends redacted records with the request's ids.

  Go itself and its library.
  \<^item> \<open>Prelude\<close>: \<open>int64\<close> with its wrap-around (\<open>wrap64\<close>, \<open>add64\<close>, \<open>sub64\<close>), the outcome of host code
    (a return or a panic), the locales \<open>codec\<close> (decoding undoes encoding) and \<open>step_system\<close> (a step relation
    and an invariant), and list lemmas.
  \<^item> \<open>GoStrings\<close>, \<open>GoCase\<close>: byte strings, UTF-8, the case and space tables, \<open>strings\<close> and \<open>strconv\<close>.
    \<open>GoFloat\<close>, \<open>GoParseFloat\<close>: \<open>float64\<close> as rationals with NaN and infinities, division and parsing
    correctly rounded.  \<open>GoUrl\<close>: \<open>net/url\<close>.  \<open>GoRegexp\<close>: leftmost-first matching as lists of end states in
    the order of preference.  \<open>GoTime\<close>: instants and RFC 3339.  \<open>Json\<close>: \<open>encoding/json\<close> values, the text of a
    string with Go's escapes, and its reader; the locale \<open>wire_codec\<close>.

  The request path.
  \<^item> \<open>Ids\<close> (\<open>ids.go\<close>): entropy is an infinite byte stream with a position, so the unbounded retry of
    \<open>randomHex\<close> is a \<open>partial_function\<close>; the header parser with the W3C shape it accepts and its round trip.
  \<^item> \<open>Intervals\<close> (\<open>intervals.go\<close>): the sweep, equal to the number of instants covered for every order the sort
    may leave.  \<open>SelfTime\<close>: the self-time attributes as measures.
  \<^item> \<open>Otlp\<close> (\<open>otlp.go\<close>): the wire records, their builders and the constants.  \<open>Wire\<close>: the struct tags, i.e.
    which member each field becomes and which are omitted; a reader for every struct and an interpretation of
    \<open>wire_codec\<close> for each.  \<open>WireSafety\<close>: when a batch can be written at all, the round trip, the type of what is sent.
  \<^item> \<open>Redact\<close> (\<open>restlytics.go\<close>): sensitive keys and URLs.  \<open>Span\<close> (\<open>span.go\<close>): the three-field attribute
    store, which refines a map that refuses sensitive keys (locale \<open>attr_store\<close>).
  \<^item> \<open>Runtime\<close>, \<open>Tracer\<close> (\<open>tracer.go\<close>): the world is the entropy position, the clock, the heap of request
    states (a context holds an index into it, as the code holds a pointer) and what the transports were handed.
    Every operation is a function on the world.  \<open>Requests\<close>: sequences of operations of any number of requests,
    interleaved at will; each operation of the tracer is one step because it holds the request's lock.  \<open>Sampling\<close>: which
    trace ids a rate keeps.
  \<^item> \<open>Middleware\<close> (\<open>httpmiddleware.go\<close>), \<open>Outbound\<close> (\<open>outbound_http.go\<close>), \<open>Background\<close>
    (\<open>background.go\<close>), \<open>Sql\<close> and \<open>DbWrap\<close> (\<open>sql.go\<close>, \<open>dbwrap.go\<close>), \<open>Adapters\<close> (\<open>adapters/\<close>): host code is
    the list of SDK calls it makes and how it ends, a panic included; drivers, frameworks and callees are
    parameters.  \<open>SqlText\<close> and \<open>SqlNumbers\<close>: what \<open>Normalize\<close> does to string and integer literals.

  Logs.
  \<^item> \<open>LogText\<close>, \<open>Logs\<close> (\<open>logs.go\<close>): the eight patterns and the cut to a byte limit; attributes with groups and
    \<open>LogValuer\<close>s, the limits, correlation, and the handler around the application's own.  \<open>resolve\<close> runs on
    fuel 100, the bound of \<open>slog\<close> itself (\<open>maxLogValues\<close>); groups are followed to depth 8 as in the code.

  Delivery.
  \<^item> \<open>Transport\<close> (\<open>transport.go\<close>): \<open>HTTPTransport\<close> and \<open>managedExporter\<close> as one step relation of
    application goroutines, flushes, shutdowns and the worker, one atomic action a step; its invariant; \<open>post\<close> and
    \<open>export\<close>.  The hypothesis \<open>roomy\<close> bounds the capacity below 2^63 so that the pending counter does not wrap.
    \<open>Channel\<close>: the abstract bounded channel and the simulation (locale \<open>simulation\<close>).  \<open>HttpTransport\<close>: the
    HTTP transport's own methods, every run of which is a run of the protocol, and the wait loop of flush and
    shutdown (a \<open>partial_function\<close>: it returns exactly when the transport drains or the deadline comes).
    \<open>Fairness\<close>: infinite runs of the protocol, weak and strong fairness of its goroutines, what leads to what in
    them, and progress by a measure (locale \<open>fair_progress\<close>, interpreted for the worker draining the queue, for
    the worker reaching one batch, and for a goroutine inside \<open>enqueue\<close>).
  \<^item> \<open>LocalTransports\<close>: null, log and preview.  \<open>Configuration\<close> (\<open>config.go\<close>): \<open>Resolve\<close> over an arbitrary
    environment.  \<open>Handle\<close> (\<open>restlytics.go\<close>): \<open>Init\<close>, the choice of transports, the contained lifecycle calls.

  End to end.
  \<^item> \<open>JsonText\<close>: a reader of whole JSON texts (fuel bounds nesting and list length; the length of the text is
    proved to be enough) and the locale \<open>text_codec\<close>, which extends \<open>wire_codec\<close> from values to the bytes of a
    post and is interpreted for every struct of the wire.
  \<^item> \<open>Pipeline\<close>: the tracer's operations, the log handler and the HTTP transport as one step relation.  A finished
    request or a captured record makes a call to \<open>Send\<close> or \<open>SendLogs\<close>; calls reach \<open>enqueue\<close> in any order, and
    the steps of the three parts interleave at will.  The invariant says where every batch is, as a multiset.

  What is shown.  Whatever the application does, a batch is one well-formed trace with nothing unsafe in it, typed
  as OTLP/JSON asks and recoverable from the text of its post; nothing sensitive passes the redaction of keys and URLs, and no
  well-formed string literal and no integer of a statement passes the normalisation; requests do not disturb each
  other, a trace keeps its id and decision across services, and each wrapper reports exactly what happened while
  handing the host's own results on.  The transport neither loses, duplicates nor reorders what it accepted, never
  blocks the application, and a shutdown or flush that answers true has waited for everything; under fair
  scheduling every accepted batch reaches the exporter and a shutdown with time enough does answer true.  Of the whole:
  every batch handed over is in exactly one place or counted as dropped, and whatever is counted as delivered was
  posted to the URL of its signal with a body from which a receiver recovers that batch.  Log records are
  bounded, free of sensitive keys and tied to their request.  A handle without a destination does nothing.  Lemmas
  named in the findings of the manifest show where the code departs from its documentation or intent.

  Not modelled: \<open>net/http\<close>, gzip, the customer's exporter, drivers and frameworks (parameters); the decimal text
  of a float in JSON (a parameter \<open>ft\<close>; where a text is read back, \<open>float_text_ok\<close> asks that \<open>ParseFloat\<close> gets the
  value back from it, as \<open>strconv\<close> documents); the scheduling of goroutines inside one operation
  of the tracer, which holds the request's lock, and inside a method of \<open>Span\<close>, which takes no lock and is
  documented as owned by one goroutine (the transports are interleaved action by action, the preview's mutex is a
  flag whose being held for ever is a call that does not return); tickers and deadlines beyond the choice they make
  between going on and giving up; the Go scheduler and the starvation mode of its mutex (the fairness hypotheses of
  \<open>Fairness\<close> are what they are documented to give); \<open>http.Flusher\<close> and \<open>http.Hijacker\<close>, which the status writer hides;
  plain accessors.
\<close>

end
